(* ===== verification/Prelude.thy ===== *)
theory Prelude
  imports Complex_Main "HOL-Library.Monad_Syntax"
begin

text \<open>
  Shared vocabulary of the development: the type of clock readings, Python's \<open>or\<close> on
  optional integers, \<open>int()\<close> and \<open>round()\<close> on numbers, \<open>max(lo, min(x, hi))\<close> clamping,
  results with errors, association lists in insertion order (Python dicts), and the two
  interfaces every stateful component is an instance of: a step relation that keeps an
  invariant, and a bounded additive-increase controller.

  Python floats are modelled by exact rationals (\<open>rat\<close>): rounding of the last binary digit is
  not modelled, everything else of the arithmetic is.
\<close>

named_theorems limiter_defs \<open>definitions of the limiter operations\<close>
named_theorems bucket_defs \<open>definitions of the token bucket operations\<close>

type_synonym instant = rat

section \<open>Python primitives\<close>

text \<open>\<open>x or y\<close> where \<open>x\<close> is an optional integer: \<open>None\<close> and \<open>0\<close> are falsy.\<close>

definition or_int :: "int option \<Rightarrow> int \<Rightarrow> int" where
  "or_int x y = (case x of None \<Rightarrow> y | Some v \<Rightarrow> if v = 0 then y else v)"

definition truthy_int :: "int option \<Rightarrow> bool" where
  "truthy_int x = (case x of None \<Rightarrow> False | Some v \<Rightarrow> v \<noteq> 0)"

text \<open>\<open>int(x)\<close> truncates towards zero; \<open>round(x)\<close> rounds half to even.\<close>

definition int_trunc :: "rat \<Rightarrow> int" where
  "int_trunc x = (if 0 \<le> x then \<lfloor>x\<rfloor> else \<lceil>x\<rceil>)"

definition py_round :: "rat \<Rightarrow> int" where
  "py_round x =
     (let f = \<lfloor>x\<rfloor>; d = x - of_int f in
      if d < 1 / 2 then f else if 1 / 2 < d then f + 1 else if even f then f else f + 1)"

definition clamp :: "'a::linorder \<Rightarrow> 'a \<Rightarrow> 'a \<Rightarrow> 'a" where
  "clamp lo hi x = max lo (min x hi)"

lemma clamp_bounds: "lo \<le> hi \<Longrightarrow> lo \<le> clamp lo hi x \<and> clamp lo hi x \<le> hi"
  by (auto simp: clamp_def)

lemma clamp_id: "lo \<le> x \<Longrightarrow> x \<le> hi \<Longrightarrow> clamp lo hi x = x"
  by (auto simp: clamp_def)

lemma int_trunc_of_int [simp]: "int_trunc (of_int i) = i"
  by (simp add: int_trunc_def)

lemma int_trunc_half: "0 \<le> i \<Longrightarrow> int_trunc (of_int i / 2) = i div 2"
proof -
  assume "0 \<le> i"
  then have "int_trunc (of_int i / 2) = \<lfloor>(of_int i / of_int 2 :: rat)\<rfloor>"
    by (simp add: int_trunc_def)
  also have "\<dots> = i div 2" by (rule floor_divide_of_int_eq)
  finally show ?thesis .
qed

lemma py_round_nonneg: "0 \<le> x \<Longrightarrow> 0 \<le> py_round x"
  by (auto simp: py_round_def Let_def)

text \<open>\<open>s.strip()\<close>: ASCII whitespace at both ends.\<close>

definition py_space :: "char \<Rightarrow> bool" where
  "py_space c \<longleftrightarrow> of_char c \<in> {9, 10, 11, 12, 13, 28, 29, 30, 31, 32 :: nat}"

definition py_strip :: "string \<Rightarrow> string" where
  "py_strip s = rev (dropWhile py_space (rev (dropWhile py_space s)))"

section \<open>Dicts as association lists in insertion order\<close>

text \<open>
  A Python dict keeps insertion order; overwriting a key keeps its position. \<open>d.get(k)\<close> is
  \<open>map_of d k\<close>, \<open>d[k] = v\<close> is \<open>dict_set k v d\<close>.
\<close>

type_synonym ('k, 'v) dict = "('k \<times> 'v) list"

fun dict_set :: "'k \<Rightarrow> 'v \<Rightarrow> ('k, 'v) dict \<Rightarrow> ('k, 'v) dict" where
  "dict_set k v [] = [(k, v)]"
| "dict_set k v ((k', v') # d) = (if k' = k then (k, v) # d else (k', v') # dict_set k v d)"

lemma map_of_dict_set [simp]: "map_of (dict_set k v d) = (map_of d)(k \<mapsto> v)"
  by (induction d) (auto simp: fun_upd_twist)

lemma set_keys_dict_set [simp]: "fst ` set (dict_set k v d) = insert k (fst ` set d)"
proof (induction d)
  case (Cons p d)
  then show ?case by (cases p) (simp add: insert_commute)
qed simp

lemma distinct_keys_dict_set [simp]:
  "distinct (map fst d) \<Longrightarrow> distinct (map fst (dict_set k v d))"
proof (induction d)
  case (Cons p d)
  have "fst ` set (dict_set k v d) = insert k (fst ` set d)" by simp
  then show ?case using Cons by (cases p) (auto simp del: set_keys_dict_set)
qed simp

lemma dict_set_new: "k \<notin> fst ` set d \<Longrightarrow> dict_set k v d = d @ [(k, v)]"
  by (induction d) auto

lemma keys_dict_set_old: "k \<in> fst ` set d \<Longrightarrow> map fst (dict_set k v d) = map fst d"
proof (induction d)
  case (Cons p d)
  then show ?case by (cases p) (simp, blast)
qed simp

section \<open>Interfaces\<close>

text \<open>A step relation that keeps an invariant keeps it along every run.\<close>

locale step_invariant =
  fixes step :: "'s \<Rightarrow> 's \<Rightarrow> bool"
    and inv :: "'s \<Rightarrow> bool"
  assumes step_keeps: "step s t \<Longrightarrow> inv s \<Longrightarrow> inv t"
begin

lemma run_keeps: "step\<^sup>*\<^sup>* s t \<Longrightarrow> inv s \<Longrightarrow> inv t"
  by (induction rule: rtranclp_induct) (auto intro: step_keeps)

end

text \<open>
  A bounded controller: an effective value between a fixed floor and ceiling that operations
  move. Both adaptive controllers of the extraction fleet are instances. \<open>sane\<close> is what the
  configuration promises (and no operation touches).
\<close>

locale bounded_controller =
  fixes apply_op :: "'op \<Rightarrow> 's \<Rightarrow> 's"
    and eff :: "'s \<Rightarrow> int"
    and lo :: "'s \<Rightarrow> int"
    and hi :: "'s \<Rightarrow> int"
    and sane :: "'s \<Rightarrow> bool"
  assumes lo_fixed: "lo (apply_op e s) = lo s"
    and hi_fixed: "hi (apply_op e s) = hi s"
    and sane_fixed: "sane (apply_op e s) = sane s"
    and eff_in: "sane s \<Longrightarrow> lo s \<le> eff s \<Longrightarrow> eff s \<le> hi s \<Longrightarrow>
        lo s \<le> eff (apply_op e s) \<and> eff (apply_op e s) \<le> hi s"
begin

lemma fold_fixed:
  "lo (fold apply_op es s) = lo s \<and> hi (fold apply_op es s) = hi s \<and> sane (fold apply_op es s) = sane s"
  by (induction es arbitrary: s) (auto simp: lo_fixed hi_fixed sane_fixed)

lemma fold_in:
  "sane s \<Longrightarrow> lo s \<le> eff s \<Longrightarrow> eff s \<le> hi s \<Longrightarrow>
   lo s \<le> eff (fold apply_op es s) \<and> eff (fold apply_op es s) \<le> hi s"
proof (induction es arbitrary: s)
  case (Cons e es)
  then show ?case
    using Cons.IH [of "apply_op e s"] eff_in [of s e] by (simp add: lo_fixed hi_fixed sane_fixed)
qed simp

end

text \<open>
  A functional refinement: a detailed machine whose events commute with an abstraction, under an
  invariant of its own, follows the abstract machine along every sequence of events.
\<close>

locale simulation =
  fixes cstep :: "'e \<Rightarrow> 'c \<Rightarrow> 'c"
    and astep :: "'e \<Rightarrow> 'a \<Rightarrow> 'a"
    and abst :: "'c \<Rightarrow> 'a"
    and good :: "'c \<Rightarrow> bool"
  assumes commutes: "good s \<Longrightarrow> abst (cstep e s) = astep e (abst s)"
    and keeps_good: "good s \<Longrightarrow> good (cstep e s)"
begin

lemma fold_commutes: "good s \<Longrightarrow> abst (fold cstep es s) = fold astep es (abst s) \<and> good (fold cstep es s)"
  by (induction es arbitrary: s) (simp_all add: commutes keeps_good)

end

end
