(* ===== verification/Token_Bucket.thy ===== *)
theory Token_Bucket
  imports Prelude
begin

text \<open>
  The refilling token bucket of \<^verbatim>\<open>llm_extraction/limiter.py\<close> (class \<open>_TokenBucket\<close>).
  Every method body that runs under the bucket's lock is one definition on the bucket's state
  at a clock reading; a blocking acquire sleeps outside the lock, so its loop is a partial
  function over the clock. \<open>wake t d\<close> is the instant at which \<open>time.sleep(d)\<close> called at \<open>t\<close>
  returns (never before \<open>t + d\<close>).
\<close>

record token_bucket =
  tb_capacity :: rat
  tb_tokens :: rat
  tb_rate :: rat
  tb_ts :: instant

definition tb_init :: "instant \<Rightarrow> int \<Rightarrow> token_bucket" where
  "tb_init now cap =
     \<lparr>tb_capacity = of_int cap, tb_tokens = of_int cap, tb_rate = of_int cap / 60, tb_ts = now\<rparr>"

definition tb_refill_locked :: "instant \<Rightarrow> token_bucket \<Rightarrow> token_bucket" where
  "tb_refill_locked now b =
     b\<lparr>tb_tokens := min (tb_capacity b) (tb_tokens b + (now - tb_ts b) * tb_rate b), tb_ts := now\<rparr>"

partial_function (option) tb_acquire_loop ::
  "(instant \<Rightarrow> rat \<Rightarrow> instant) \<Rightarrow> bool \<Rightarrow> rat \<Rightarrow> instant \<Rightarrow> token_bucket
     \<Rightarrow> (bool \<times> instant \<times> token_bucket) option" where
  "tb_acquire_loop wake block n now b =
     (let b' = tb_refill_locked now b in
      if n \<le> tb_tokens b' then Some (True, now, b'\<lparr>tb_tokens := tb_tokens b' - n\<rparr>)
      else if \<not> block then Some (False, now, b')
      else tb_acquire_loop wake block n
             (wake now (min (max ((n - tb_tokens b') / tb_rate b') 0) 1)) b')"

definition tb_acquire ::
  "(instant \<Rightarrow> rat \<Rightarrow> instant) \<Rightarrow> rat \<Rightarrow> bool \<Rightarrow> instant \<Rightarrow> token_bucket
     \<Rightarrow> (bool \<times> instant \<times> token_bucket) option" where
  "tb_acquire wake n block now b = tb_acquire_loop wake block (min n (tb_capacity b)) now b"

definition tb_refund :: "rat \<Rightarrow> token_bucket \<Rightarrow> token_bucket" where
  "tb_refund n b = b\<lparr>tb_tokens := min (tb_capacity b) (tb_tokens b + n)\<rparr>"

definition tb_adopt_capacity :: "rat \<Rightarrow> token_bucket \<Rightarrow> bool \<times> token_bucket" where
  "tb_adopt_capacity new_cap b =
     (if tb_capacity b < new_cap then (True, b\<lparr>tb_capacity := new_cap\<rparr>) else (False, b))"

definition tb_sync_remaining :: "rat \<Rightarrow> token_bucket \<Rightarrow> token_bucket" where
  "tb_sync_remaining remaining b = b\<lparr>tb_tokens := min (tb_tokens b) (max 0 remaining)\<rparr>"

text \<open>What \<open>time.sleep\<close> promises: it never returns early.\<close>

definition sleep_ok :: "(instant \<Rightarrow> rat \<Rightarrow> instant) \<Rightarrow> bool" where
  "sleep_ok wake \<longleftrightarrow> (\<forall>t d. 0 \<le> d \<longrightarrow> t + d \<le> wake t d)"

definition exact_sleep :: "instant \<Rightarrow> rat \<Rightarrow> instant" where
  "exact_sleep t d = t + d"

text \<open>A run of the bucket: operations at clock readings, with the net number of tokens granted.\<close>

datatype tb_op = Acquire rat | Refund rat | Adopt rat | Sync rat

definition tb_step :: "instant \<Rightarrow> tb_op \<Rightarrow> token_bucket \<Rightarrow> rat \<times> token_bucket" where
  "tb_step now e b =
     (case e of
        Acquire n \<Rightarrow> (case tb_acquire exact_sleep n False now b of
            Some (True, _, b') \<Rightarrow> (min n (tb_capacity b), b')
          | Some (False, _, b') \<Rightarrow> (0, b')
          | None \<Rightarrow> (0, b))
      | Refund n \<Rightarrow> (- n, tb_refund n b)
      | Adopt c \<Rightarrow> (0, snd (tb_adopt_capacity c b))
      | Sync r \<Rightarrow> (0, tb_sync_remaining r b))"

fun tb_run :: "(instant \<times> tb_op) list \<Rightarrow> token_bucket \<Rightarrow> rat \<times> token_bucket" where
  "tb_run [] b = (0, b)"
| "tb_run ((t, e) # es) b =
     (let (g, b') = tb_step t e b; (g', b'') = tb_run es b' in (g + g', b''))"

text \<open>The class invariant: a positive refill rate and a level inside the capacity.\<close>

definition tb_wf :: "token_bucket \<Rightarrow> bool" where
  "tb_wf b \<longleftrightarrow> 0 < tb_rate b \<and> 0 \<le> tb_tokens b \<and> tb_tokens b \<le> tb_capacity b"

lemmas tb_defs [bucket_defs] =
  tb_refill_locked_def tb_refund_def tb_adopt_capacity_def tb_sync_remaining_def tb_wf_def

section \<open>Every operation keeps the invariant\<close>

lemma tb_wf_init: "0 < cap \<Longrightarrow> tb_wf (tb_init now cap)"
  by (simp add: tb_wf_def tb_init_def)

lemma tb_wf_refill: "tb_wf b \<Longrightarrow> tb_ts b \<le> now \<Longrightarrow> tb_wf (tb_refill_locked now b)"
  by (auto simp: tb_wf_def tb_refill_locked_def)

lemma tb_wf_refund: "tb_wf b \<Longrightarrow> 0 \<le> n \<Longrightarrow> tb_wf (tb_refund n b)"
  by (auto simp: tb_wf_def tb_refund_def)

lemma tb_wf_adopt: "tb_wf b \<Longrightarrow> tb_wf (snd (tb_adopt_capacity c b))"
  by (auto simp: tb_wf_def tb_adopt_capacity_def)

lemma tb_wf_sync: "tb_wf b \<Longrightarrow> tb_wf (tb_sync_remaining r b)"
  by (auto simp: tb_wf_def tb_sync_remaining_def)

lemma tb_refill_simps [simp]:
  "tb_capacity (tb_refill_locked now b) = tb_capacity b"
  "tb_rate (tb_refill_locked now b) = tb_rate b"
  "tb_ts (tb_refill_locked now b) = now"
  by (simp_all add: tb_refill_locked_def)

lemma tb_refill_now: "tb_ts b = now \<Longrightarrow> tb_tokens b \<le> tb_capacity b \<Longrightarrow> tb_refill_locked now b = b"
  by (cases b) (simp add: tb_refill_locked_def)


lemma tb_refill_refill:
  assumes "0 \<le> tb_rate b" "tb_ts b \<le> t1" "t1 \<le> t2"
  shows "tb_refill_locked t2 (tb_refill_locked t1 b) = tb_refill_locked t2 b"
proof -
  have "0 \<le> (t2 - t1) * tb_rate b" using assms by simp
  moreover have "tb_tokens b + (t1 - tb_ts b) * tb_rate b + (t2 - t1) * tb_rate b =
      tb_tokens b + (t2 - tb_ts b) * tb_rate b" by (simp add: algebra_simps)
  ultimately show ?thesis
    by (cases b) (auto simp: tb_refill_locked_def min_def)
qed

section \<open>A non-blocking acquire\<close>

lemma tb_acquire_nonblock:
  "tb_acquire wake n False now b =
     (let b' = tb_refill_locked now b; m = min n (tb_capacity b) in
      Some (if m \<le> tb_tokens b' then (True, now, b'\<lparr>tb_tokens := tb_tokens b' - m\<rparr>)
            else (False, now, b')))"
  by (simp add: tb_acquire_def tb_acquire_loop.simps Let_def)

lemma tb_wf_acquire_nonblock:
  "tb_wf b \<Longrightarrow> tb_ts b \<le> now \<Longrightarrow> 0 \<le> n \<Longrightarrow>
   tb_acquire wake n False now b = Some (ok, now', b') \<Longrightarrow> tb_wf b' \<and> now' = now \<and> tb_ts b' = now"
  using tb_wf_refill [of b now]
  by (auto simp: tb_acquire_nonblock Let_def tb_wf_def split: if_splits)

text \<open>
  The contract the limiter relies on: what is taken can be handed back, and a refusal takes
  nothing. \<open>fresh now s\<close> is the resource brought up to date.
\<close>

locale refundable_resource =
  fixes fresh :: "instant \<Rightarrow> 's \<Rightarrow> 's"
    and take :: "rat \<Rightarrow> instant \<Rightarrow> 's \<Rightarrow> bool \<times> 's"
    and give :: "rat \<Rightarrow> 's \<Rightarrow> 's"
    and inv :: "instant \<Rightarrow> 's \<Rightarrow> bool"
  assumes refused: "inv now s \<Longrightarrow> take n now s = (False, s') \<Longrightarrow> s' = fresh now s"
    and given_back: "inv now s \<Longrightarrow> 0 \<le> n \<Longrightarrow> take n now s = (True, s') \<Longrightarrow> give n s' = fresh now s"
begin

lemma undo:
  "inv now s \<Longrightarrow> 0 \<le> n \<Longrightarrow> take n now s = (ok, s') \<Longrightarrow> (if ok then give n s' else s') = fresh now s"
  using refused given_back by (cases ok) auto

end

definition tb_take :: "rat \<Rightarrow> instant \<Rightarrow> token_bucket \<Rightarrow> bool \<times> token_bucket" where
  "tb_take n now b = (case tb_acquire exact_sleep n False now b of
     Some (ok, _, b') \<Rightarrow> (ok, b') | None \<Rightarrow> (False, b))"

lemma tb_take_eq:
  "tb_take n now b =
     (let b' = tb_refill_locked now b; m = min n (tb_capacity b) in
      if m \<le> tb_tokens b' then (True, b'\<lparr>tb_tokens := tb_tokens b' - m\<rparr>) else (False, b'))"
  by (simp add: tb_take_def tb_acquire_nonblock Let_def)

lemma tb_acquire_take:
  "tb_acquire wake n False now b = Some (fst (tb_take n now b), now, snd (tb_take n now b))"
  by (auto simp: tb_take_eq tb_acquire_nonblock Let_def)

lemma tb_refund_take:
  assumes "tb_wf b" "tb_ts b \<le> now" "0 \<le> n" "tb_take n now b = (True, b')"
  shows "tb_refund n b' = tb_refill_locked now b"
proof -
  define r where "r = tb_refill_locked now b"
  have le: "tb_tokens r \<le> tb_capacity b" by (simp add: r_def tb_refill_locked_def)
  from assms(4) have m: "min n (tb_capacity b) \<le> tb_tokens r"
    and b': "b' = r\<lparr>tb_tokens := tb_tokens r - min n (tb_capacity b)\<rparr>"
    by (auto simp: tb_take_eq Let_def r_def split: if_splits)
  have cap: "tb_capacity r = tb_capacity b" by (simp add: r_def)
  have "min (tb_capacity b) (tb_tokens r - min n (tb_capacity b) + n) = tb_tokens r"
    using le m by (auto simp: min_def split: if_splits)
  then show ?thesis using cap by (cases r) (simp add: b' tb_refund_def r_def [symmetric])
qed

interpretation bucket: refundable_resource tb_refill_locked tb_take tb_refund
  "\<lambda>now b. tb_wf b \<and> tb_ts b \<le> now"
proof unfold_locales
  show "s' = tb_refill_locked now s" if "tb_take n now s = (False, s')" for now s n s'
    using that by (auto simp: tb_take_eq Let_def split: if_splits)
  show "tb_refund n s' = tb_refill_locked now s"
    if "tb_wf s \<and> tb_ts s \<le> now" "0 \<le> n" "tb_take n now s = (True, s')" for now s n s'
    using that by (auto intro: tb_refund_take)
qed


section \<open>A blocking acquire\<close>

abbreviation tb_need :: "rat \<Rightarrow> token_bucket \<Rightarrow> rat" where
  "tb_need n b \<equiv> (n - tb_tokens b) / tb_rate b"

text \<open>
  What the loop may return at \<open>now'\<close>: the bucket brought up to date, less the tokens if granted;
  a blocking call is never refused.
\<close>

definition tb_outcome ::
  "bool \<Rightarrow> rat \<Rightarrow> instant \<Rightarrow> token_bucket \<Rightarrow> bool \<times> instant \<times> token_bucket \<Rightarrow> bool" where
  "tb_outcome block n now b r =
     (case r of (ok, now', b') \<Rightarrow> now \<le> now' \<and>
        (let r = tb_refill_locked now' b in
         if ok then n \<le> tb_tokens r \<and> b' = r\<lparr>tb_tokens := tb_tokens r - n\<rparr>
         else \<not> block \<and> b' = r))"

lemma tb_outcome_later:
  assumes "tb_wf b" "tb_ts b \<le> now" "now \<le> t" "tb_outcome block n t (tb_refill_locked now b) r"
  shows "tb_outcome block n now b r"
proof -
  have "tb_refill_locked u (tb_refill_locked now b) = tb_refill_locked u b" if "now \<le> u" for u
    using assms(1,2) that by (intro tb_refill_refill) (auto simp: tb_wf_def)
  then show ?thesis using assms(3,4)
    by (cases r) (auto simp: tb_outcome_def Let_def split: if_splits)
qed

lemma sleep_ok_advances: "sleep_ok wake \<Longrightarrow> 0 \<le> d \<Longrightarrow> now \<le> wake now d"
proof -
  assume "sleep_ok wake" "0 \<le> d"
  then have "now + d \<le> wake now d" unfolding sleep_ok_def by blast
  with \<open>0 \<le> d\<close> show ?thesis by linarith
qed

lemma tb_acquire_loop_outcome:
  assumes ret: "tb_acquire_loop wake block n now b = Some r"
    and "sleep_ok wake" "tb_wf b" "tb_ts b \<le> now"
  shows "tb_outcome block n now b r"
proof -
  have "sleep_ok wake \<longrightarrow> tb_wf b \<longrightarrow> tb_ts b \<le> now \<longrightarrow> tb_outcome block n now b r"
  proof (rule tb_acquire_loop.raw_induct [where P = "\<lambda>wake block n now b r.
      sleep_ok wake \<longrightarrow> tb_wf b \<longrightarrow> tb_ts b \<le> now \<longrightarrow> tb_outcome block n now b r", OF _ ret], intro impI)
    fix f wake block n now b r
    assume IH: "\<And>wake block n now b r. f wake block n now b = Some r \<Longrightarrow>
        sleep_ok wake \<longrightarrow> tb_wf b \<longrightarrow> tb_ts b \<le> now \<longrightarrow> tb_outcome block n now b r"
      and eq: "(let b' = tb_refill_locked now b in
        if n \<le> tb_tokens b' then Some (True, now, b'\<lparr>tb_tokens := tb_tokens b' - n\<rparr>)
        else if \<not> block then Some (False, now, b')
        else f wake block n (wake now (min (max ((n - tb_tokens b') / tb_rate b') 0) 1)) b') = Some r"
      and pre: "sleep_ok wake" "tb_wf b" "tb_ts b \<le> now"
    let ?b = "tb_refill_locked now b"
    show "tb_outcome block n now b r"
    proof (cases "n \<le> tb_tokens ?b \<or> \<not> block")
      case True
      then show ?thesis using eq by (auto simp: tb_outcome_def Let_def split: if_splits)
    next
      case False
      let ?t = "wake now (min (max (tb_need n ?b) 0) 1)"
      have "now \<le> ?t" using pre(1) by (rule sleep_ok_advances) simp
      moreover have "f wake block n ?t ?b = Some r" using False eq by (simp add: Let_def)
      ultimately show ?thesis
        using IH pre tb_wf_refill tb_outcome_later by (metis tb_refill_simps(3))
    qed
  qed
  with assms show ?thesis by blast
qed

text \<open>
  A blocking acquire returns: every pass through the loop waits one second or the whole
  remaining time, so the whole seconds still needed go down.
\<close>

lemma tb_refill_gain:
  assumes "tb_wf b" "tb_ts b = now" "now + d \<le> t" "0 \<le> d"
  shows "min (tb_capacity b) (tb_tokens b + d * tb_rate b) \<le> tb_tokens (tb_refill_locked t b)"
proof -
  have "d * tb_rate b \<le> (t - tb_ts b) * tb_rate b"
    using assms by (intro mult_right_mono) (auto simp: tb_wf_def)
  then show ?thesis by (auto simp: tb_refill_locked_def)
qed

lemma tb_need_decreases:
  assumes "tb_wf b" "tb_ts b = now" "sleep_ok wake" "n \<le> tb_capacity b" "tb_tokens b < n"
  defines "t \<equiv> wake now (min (max (tb_need n b) 0) 1)"
  shows "n \<le> tb_tokens (tb_refill_locked t b) \<or> tb_need n (tb_refill_locked t b) \<le> tb_need n b - 1"
proof -
  let ?d = "min (max (tb_need n b) 0) 1"
  have rate: "0 < tb_rate b" and tok: "tb_tokens b \<le> tb_capacity b"
    using assms(1) by (auto simp: tb_wf_def)
  have "now + ?d \<le> t" using assms(3) unfolding sleep_ok_def t_def by simp
  then have gain: "min (tb_capacity b) (tb_tokens b + ?d * tb_rate b) \<le> tb_tokens (tb_refill_locked t b)"
    using assms(1,2) by (intro tb_refill_gain) auto
  have pos: "0 < tb_need n b" using assms(5) rate by simp
  show ?thesis
  proof (cases "tb_need n b \<le> 1")
    case True
    then have "?d * tb_rate b = n - tb_tokens b" using pos rate by simp
    then show ?thesis using gain assms(4) by auto
  next
    case False
    then have "?d = 1" by simp
    then have g: "min (tb_capacity b) (tb_tokens b + tb_rate b) \<le> tb_tokens (tb_refill_locked t b)"
      using gain by simp
    show ?thesis
    proof (cases "tb_capacity b \<le> tb_tokens b + tb_rate b")
      case True then show ?thesis using g assms(4) by auto
    next
      case False
      then have "n - tb_tokens (tb_refill_locked t b) \<le> n - tb_tokens b - tb_rate b" using g by auto
      then have "tb_need n (tb_refill_locked t b) \<le> (n - tb_tokens b - tb_rate b) / tb_rate b"
        using rate by (simp add: divide_right_mono)
      also have "\<dots> = tb_need n b - 1" using rate by (simp add: field_simps)
      finally show ?thesis by simp
    qed
  qed
qed

lemma tb_acquire_loop_returns:
  assumes "tb_wf b" "tb_ts b \<le> now" "sleep_ok wake" "n \<le> tb_capacity b"
  shows "\<exists>now' b'. tb_acquire_loop wake True n now b = Some (True, now', b')"
  using assms
proof (induction "nat \<lceil>tb_need n (tb_refill_locked now b)\<rceil>" arbitrary: now b rule: less_induct)
  case less
  let ?b = "tb_refill_locked now b"
  show ?case
  proof (cases "n \<le> tb_tokens ?b")
    case True
    then show ?thesis by (subst tb_acquire_loop.simps) (simp add: Let_def)
  next
    case False
    let ?t = "wake now (min (max (tb_need n ?b) 0) 1)"
    have wf: "tb_wf ?b" using less.prems by (intro tb_wf_refill)
    have adv: "now \<le> ?t" using less.prems(3) by (rule sleep_ok_advances) simp
    have unfold: "tb_acquire_loop wake True n now b = tb_acquire_loop wake True n ?t ?b"
      using False by (subst tb_acquire_loop.simps) (simp add: Let_def)
    have "n \<le> tb_tokens (tb_refill_locked ?t ?b) \<or> tb_need n (tb_refill_locked ?t ?b) \<le> tb_need n ?b - 1"
      using wf less.prems False by (intro tb_need_decreases) auto
    then show ?thesis
    proof
      assume "n \<le> tb_tokens (tb_refill_locked ?t ?b)"
      then show ?thesis unfolding unfold by (subst tb_acquire_loop.simps) (simp add: Let_def)
    next
      assume le: "tb_need n (tb_refill_locked ?t ?b) \<le> tb_need n ?b - 1"
      have "0 < tb_need n ?b" using False less.prems(1) by (simp add: tb_wf_def)
      then have dec: "nat \<lceil>tb_need n (tb_refill_locked ?t ?b)\<rceil> < nat \<lceil>tb_need n ?b\<rceil>"
        using le by (simp add: nat_less_iff) linarith
      show ?thesis
        unfolding unfold by (rule less.hyps [OF dec]) (use wf adv less.prems in auto)
    qed
  qed
qed

lemma tb_acquire_returns:
  assumes "tb_wf b" "tb_ts b \<le> now" "sleep_ok wake"
  shows "\<exists>now' b'. tb_acquire wake n True now b = Some (True, now', b')"
  using tb_acquire_loop_returns [OF assms, of "min n (tb_capacity b)"] by (simp add: tb_acquire_def)

text \<open>
  A blocking acquire always returns, with the tokens taken and the bucket well formed, for
  any request: one larger than the whole bucket is clamped and waits for a full bucket instead
  of forever. The only thing assumed of \<open>time.sleep\<close> is that it never returns early.
\<close>

theorem tb_acquire_blocking_returns:
  assumes "tb_wf b" "tb_ts b \<le> now" "0 \<le> n" "sleep_ok wake"
  shows "\<exists>now' b'. tb_acquire wake n True now b = Some (True, now', b') \<and> now \<le> now' \<and> tb_wf b' \<and>
    tb_tokens b' = tb_tokens (tb_refill_locked now' b) - min n (tb_capacity b)"
proof -
  let ?m = "min n (tb_capacity b)"
  obtain now' b' where r: "tb_acquire_loop wake True ?m now b = Some (True, now', b')"
    using tb_acquire_loop_returns [OF assms(1,2,4), of ?m] by auto
  then have o: "tb_outcome True ?m now b (True, now', b')"
    using assms by (intro tb_acquire_loop_outcome) auto
  then have t: "now \<le> now'" by (simp add: tb_outcome_def)
  then have wf: "tb_wf (tb_refill_locked now' b)" using assms(1,2) by (intro tb_wf_refill) auto
  have "0 \<le> ?m" using assms(1,3) by (auto simp: tb_wf_def)
  with o wf have "tb_wf b'" by (auto simp: tb_outcome_def Let_def tb_wf_def)
  then show ?thesis using r o t by (auto simp: tb_acquire_def tb_outcome_def Let_def)
qed

theorem tb_acquire_blocking_returns_witness:
  "\<exists>now' b'. tb_acquire exact_sleep 100 True 3 (tb_init 0 60) = Some (True, now', b') \<and> 3 \<le> now' \<and> tb_wf b' \<and>
    tb_tokens b' = tb_tokens (tb_refill_locked now' (tb_init 0 60)) - min 100 (tb_capacity (tb_init 0 60))"
  by (rule tb_acquire_blocking_returns) (auto simp: tb_wf_def tb_init_def sleep_ok_def exact_sleep_def)

section \<open>The rate bound\<close>

lemma tb_step_potential:
  assumes "tb_wf b" "tb_ts b \<le> t" "tb_step t e b = (g, b')" "\<And>n. e = Refund n \<or> e = Acquire n \<Longrightarrow> 0 \<le> n"
  shows "g + tb_tokens b' \<le> tb_tokens b + (tb_ts b' - tb_ts b) * tb_rate b \<and>
     tb_wf b' \<and> tb_rate b' = tb_rate b \<and> tb_ts b \<le> tb_ts b' \<and> tb_ts b' \<le> t"
proof (cases e)
  case (Acquire n)
  have "0 \<le> (t - tb_ts b) * tb_rate b" using assms(1,2) by (simp add: tb_wf_def)
  moreover have "0 \<le> n" using Acquire assms(4) by simp
  ultimately show ?thesis
    using assms(1-3) by (auto simp: Acquire tb_step_def tb_acquire_nonblock Let_def tb_wf_def
        tb_refill_locked_def split: if_splits)
next
  case (Refund n)
  then have "0 \<le> n" using assms(4) by simp
  then show ?thesis using assms(1-3) tb_wf_refund [of b n]
    by (auto simp: Refund tb_step_def tb_refund_def)
next
  case (Adopt c)
  then show ?thesis using assms(1-3) tb_wf_adopt [of b c]
    by (auto simp: tb_step_def tb_adopt_capacity_def split: if_splits)
next
  case (Sync r)
  then show ?thesis using assms(1-3) tb_wf_sync [of b r]
    by (auto simp: tb_step_def tb_sync_remaining_def)
qed

definition tb_ops_ok :: "(instant \<times> tb_op) list \<Rightarrow> bool" where
  "tb_ops_ok es \<longleftrightarrow> sorted (map fst es) \<and>
     (\<forall>(t, e) \<in> set es. case e of Acquire n \<Rightarrow> 0 \<le> n | Refund n \<Rightarrow> 0 \<le> n | _ \<Rightarrow> True)"

lemma tb_run_potential:
  "tb_wf b \<Longrightarrow> tb_ops_ok es \<Longrightarrow> (\<forall>x \<in> set (map fst es). tb_ts b \<le> x \<and> x \<le> T) \<Longrightarrow> tb_ts b \<le> T \<Longrightarrow>
   tb_run es b = (g, b') \<Longrightarrow>
   g + tb_tokens b' \<le> tb_tokens b + (T - tb_ts b) * tb_rate b \<and> tb_wf b'"
proof (induction es arbitrary: b g b')
  case Nil
  then show ?case by (auto simp: tb_wf_def)
next
  case (Cons te es)
  obtain t e where te: "te = (t, e)" by (cases te)
  obtain g1 b1 g2 where s1: "tb_step t e b = (g1, b1)" and s2: "tb_run es b1 = (g2, b')" and g: "g = g1 + g2"
    using Cons.prems(5) te by (auto split: prod.splits)
  have st: "g1 + tb_tokens b1 \<le> tb_tokens b + (tb_ts b1 - tb_ts b) * tb_rate b \<and>
      tb_wf b1 \<and> tb_rate b1 = tb_rate b \<and> tb_ts b \<le> tb_ts b1 \<and> tb_ts b1 \<le> t"
    using Cons.prems te by (intro tb_step_potential [OF _ _ s1]) (auto simp: tb_ops_ok_def)
  have "t \<le> T" and later: "\<forall>x \<in> set (map fst es). t \<le> x \<and> x \<le> T"
    using Cons.prems(2,3) te by (auto simp: tb_ops_ok_def)
  then have "g2 + tb_tokens b' \<le> tb_tokens b1 + (T - tb_ts b1) * tb_rate b1 \<and> tb_wf b'"
    using st Cons.prems(2) te by (intro Cons.IH [OF _ _ _ _ s2]) (force simp: tb_ops_ok_def)+
  moreover have "(tb_ts b1 - tb_ts b) * tb_rate b + (T - tb_ts b1) * tb_rate b = (T - tb_ts b) * tb_rate b"
    by (simp add: algebra_simps)
  ultimately show ?case using st g by simp
qed



text \<open>
  What is taken can be handed back exactly: refunding the request of a granted acquire, also
  a request larger than the capacity, restores the bucket to the state it would have had if the
  call had only been timed; a refused acquire already leaves it there.
\<close>

theorem tb_refund_restores:
  assumes "tb_wf b" "tb_ts b \<le> now" "0 \<le> n" "tb_acquire wake n False now b = Some (ok, now', b')"
  shows "(if ok then tb_refund n b' else b') = tb_refill_locked now b"
proof -
  have "tb_take n now b = (ok, b')" using assms(4) by (auto simp: tb_acquire_take prod_eq_iff)
  then show ?thesis using assms(1-3) bucket.undo [of b now n ok b'] by simp
qed

theorem tb_refund_restores_witness:
  "\<exists>b'. tb_acquire exact_sleep 100 False 3 (tb_init 0 60) = Some (True, 3, b') \<and>
     (if True then tb_refund 100 b' else b') = tb_refill_locked 3 (tb_init 0 60)"
proof -
  have a: "tb_acquire exact_sleep 100 False 3 (tb_init 0 60) = Some (True, 3, tb_init 3 60\<lparr>tb_tokens := 0\<rparr>)"
    by (simp add: tb_acquire_nonblock tb_init_def tb_refill_locked_def Let_def)
  show ?thesis
    using a tb_refund_restores [of "tb_init 0 60" 3 100 exact_sleep True 3 "tb_init 3 60\<lparr>tb_tokens := 0\<rparr>"]
    by (auto simp: tb_wf_def tb_init_def)
qed

end
