(* ===== verification/Circuit.thy ===== *)
theory Circuit
  imports Prelude
begin

text \<open>
  The three gates an extraction call passes besides the token buckets
  (\<^verbatim>\<open>llm_extraction/limiter.py\<close>): the counting semaphore with a movable ceiling
  (\<open>_DynamicSemaphore\<close>), the per-lane circuit breaker (\<open>_Breaker\<close>) and the per-family damp
  signal (\<open>_FamilyGate\<close>), together with the fail-soft durable store they persist through
  (\<^verbatim>\<open>llm_extraction/state_store.py\<close>). Each method is one transition of the object's state; the
  clock reading is an argument.
\<close>

definition BREAKER_ERROR_RATE :: rat where "BREAKER_ERROR_RATE = 1 / 2"
definition BREAKER_WINDOW :: nat where "BREAKER_WINDOW = 10"
definition BREAKER_COOLDOWN_S :: rat where "BREAKER_COOLDOWN_S = 30"
definition FAMILY_FAILURE_THRESHOLD :: nat where "FAMILY_FAILURE_THRESHOLD = 8"
definition FAMILY_WINDOW_S :: rat where "FAMILY_WINDOW_S = 30"
definition FAMILY_COOLDOWN_S :: rat where "FAMILY_COOLDOWN_S = 45"
definition FAMILY_REFRESH_S :: rat where "FAMILY_REFRESH_S = 10"

lemmas circuit_consts = BREAKER_ERROR_RATE_def BREAKER_WINDOW_def BREAKER_COOLDOWN_S_def
  FAMILY_FAILURE_THRESHOLD_def FAMILY_WINDOW_S_def FAMILY_COOLDOWN_S_def FAMILY_REFRESH_S_def

section \<open>The dynamic semaphore\<close>

record dyn_sem =
  sem_limit :: int
  sem_held :: int

definition sem_init :: "int \<Rightarrow> dyn_sem" where
  "sem_init limit = \<lparr>sem_limit = limit, sem_held = 0\<rparr>"

definition sem_set_limit :: "int \<Rightarrow> dyn_sem \<Rightarrow> dyn_sem" where
  "sem_set_limit limit s = s\<lparr>sem_limit := limit\<rparr>"

text \<open>\<open>None\<close>: the caller stays parked on the condition variable.\<close>

definition sem_acquire :: "dyn_sem \<Rightarrow> dyn_sem option" where
  "sem_acquire s = (if sem_limit s \<le> sem_held s then None else Some (s\<lparr>sem_held := sem_held s + 1\<rparr>))"

definition sem_try_acquire :: "dyn_sem \<Rightarrow> bool \<times> dyn_sem" where
  "sem_try_acquire s =
     (if sem_limit s \<le> sem_held s then (False, s) else (True, s\<lparr>sem_held := sem_held s + 1\<rparr>))"

definition sem_release :: "dyn_sem \<Rightarrow> dyn_sem" where
  "sem_release s = s\<lparr>sem_held := max 0 (sem_held s - 1)\<rparr>"

lemmas sem_defs [limiter_defs] =
  sem_init_def sem_set_limit_def sem_acquire_def sem_try_acquire_def sem_release_def

section \<open>The circuit breaker\<close>

record breaker =
  br_outcomes :: "int list"
  br_opened_at :: "instant option"
  br_half_open :: bool
  br_probe_in_flight :: bool

definition br_init :: breaker where
  "br_init = \<lparr>br_outcomes = [], br_opened_at = None, br_half_open = False, br_probe_in_flight = False\<rparr>"

definition br_allow :: "instant \<Rightarrow> breaker \<Rightarrow> bool \<times> breaker" where
  "br_allow now b =
     (case br_opened_at b of
        None \<Rightarrow> (True, b)
      | Some opened \<Rightarrow>
          if br_probe_in_flight b then (False, b)
          else if BREAKER_COOLDOWN_S \<le> now - opened
          then (True, b\<lparr>br_half_open := True, br_probe_in_flight := True\<rparr>)
          else (False, b))"

definition br_release_probe :: "breaker \<Rightarrow> breaker" where
  "br_release_probe b = (if br_half_open b then b\<lparr>br_probe_in_flight := False\<rparr> else b)"

definition br_push :: "bool \<Rightarrow> int list \<Rightarrow> int list" where
  "br_push ok outs = (let outs' = outs @ [if ok then 1 else 0] in
     if BREAKER_WINDOW < length outs' then tl outs' else outs')"

definition br_record :: "instant \<Rightarrow> bool \<Rightarrow> breaker \<Rightarrow> breaker" where
  "br_record now ok b =
     (if br_half_open b then
        let b' = b\<lparr>br_half_open := False, br_probe_in_flight := False\<rparr> in
        if ok then b'\<lparr>br_opened_at := None, br_outcomes := []\<rparr>
        else b'\<lparr>br_opened_at := Some now\<rparr>
      else
        let outs = br_push ok (br_outcomes b); b' = b\<lparr>br_outcomes := outs\<rparr> in
        if br_opened_at b \<noteq> None then b'
        else if BREAKER_WINDOW \<le> length outs \<and>
                of_int (sum_list outs) / of_nat (length outs) < BREAKER_ERROR_RATE
        then b'\<lparr>br_opened_at := Some now\<rparr>
        else b')"

definition br_is_open :: "breaker \<Rightarrow> bool" where
  "br_is_open b = (br_opened_at b \<noteq> None)"

text \<open>
  What every method keeps: a probe is only in flight while half-open, the breaker is only
  half-open while open, and the window holds at most its length in 0/1 outcomes.
\<close>

definition br_inv :: "breaker \<Rightarrow> bool" where
  "br_inv b \<longleftrightarrow> (br_probe_in_flight b \<longrightarrow> br_half_open b) \<and> (br_half_open b \<longrightarrow> br_is_open b) \<and>
     length (br_outcomes b) \<le> BREAKER_WINDOW \<and> set (br_outcomes b) \<subseteq> {0, 1}"

lemma length_br_push: "length outs \<le> BREAKER_WINDOW \<Longrightarrow> length (br_push ok outs) \<le> BREAKER_WINDOW"
  by (auto simp: br_push_def Let_def)

lemma set_br_push: "set outs \<subseteq> {0, 1} \<Longrightarrow> set (br_push ok outs) \<subseteq> {0, 1}"
  by (cases outs) (auto simp: br_push_def Let_def)

lemma br_inv_init: "br_inv br_init"
  by (simp add: br_inv_def br_init_def)

lemma br_inv_allow: "br_inv b \<Longrightarrow> br_inv (snd (br_allow now b))"
  by (auto simp: br_inv_def br_allow_def br_is_open_def split: option.splits)

lemma br_inv_release_probe: "br_inv b \<Longrightarrow> br_inv (br_release_probe b)"
  by (auto simp: br_inv_def br_release_probe_def br_is_open_def)

lemma br_inv_record: "br_inv b \<Longrightarrow> br_inv (br_record now ok b)"
  using length_br_push [of "br_outcomes b" ok] set_br_push [of "br_outcomes b" ok]
  by (auto simp: br_inv_def br_record_def br_is_open_def Let_def)

text \<open>The breaker as a transition system.\<close>

inductive br_step :: "breaker \<Rightarrow> breaker \<Rightarrow> bool" where
  allow: "br_step b (snd (br_allow now b))"
| release: "br_step b (br_release_probe b)"
| outcome: "br_step b (br_record now ok b)"

interpretation breaker_steps: step_invariant br_step br_inv
proof
  show "br_step s t \<Longrightarrow> br_inv s \<Longrightarrow> br_inv t" for s t
    by (induction rule: br_step.induct) (auto intro: br_inv_allow br_inv_release_probe br_inv_record)
qed

subsection \<open>One probe\<close>

fun br_allows :: "instant list \<Rightarrow> breaker \<Rightarrow> bool list" where
  "br_allows [] b = []"
| "br_allows (t # ts) b = (let (a, b') = br_allow t b in a # br_allows ts b')"

lemma br_allow_probing:
  "br_is_open b \<Longrightarrow> br_probe_in_flight b \<Longrightarrow> br_allow now b = (False, b)"
  by (auto simp: br_allow_def br_is_open_def)

lemma br_allows_probing:
  "br_is_open b \<Longrightarrow> br_probe_in_flight b \<Longrightarrow> br_allows ts b = replicate (length ts) False"
  by (induction ts) (auto simp: br_allow_probing)

lemma br_allow_open:
  assumes "br_opened_at b = Some opened" "\<not> br_probe_in_flight b"
  shows "br_allow now b =
    (if BREAKER_COOLDOWN_S \<le> now - opened
     then (True, b\<lparr>br_half_open := True, br_probe_in_flight := True\<rparr>) else (False, b))"
  using assms by (simp add: br_allow_def)

lemma br_allows_open:
  assumes "br_opened_at b = Some opened" "\<not> br_probe_in_flight b"
  shows "length (filter id (br_allows ts b)) =
    (if \<exists>t \<in> set ts. BREAKER_COOLDOWN_S \<le> t - opened then 1 else 0)"
proof (induction ts)
  case (Cons t ts)
  show ?case
  proof (cases "BREAKER_COOLDOWN_S \<le> t - opened")
    case True
    let ?b = "b\<lparr>br_half_open := True, br_probe_in_flight := True\<rparr>"
    have "br_allows ts ?b = replicate (length ts) False"
      using assms by (intro br_allows_probing) (auto simp: br_is_open_def)
    then show ?thesis using True by (simp add: br_allow_open [OF assms])
  next
    case False
    then show ?thesis using Cons by (simp add: br_allow_open [OF assms])
  qed
qed simp

text \<open>
  Exactly one probe: however many callers ask an open breaker (with no outcome reported in
  between), it admits none before the cooldown has elapsed and exactly one of those that ask
  after it, the half-open probe.
\<close>

theorem br_single_probe:
  assumes "br_opened_at b = Some opened" "\<not> br_probe_in_flight b"
  shows "length (filter id (br_allows ts b)) \<le> 1 \<and>
    ((\<exists>t \<in> set ts. BREAKER_COOLDOWN_S \<le> t - opened) \<longleftrightarrow> True \<in> set (br_allows ts b))"
proof -
  have "True \<in> set (br_allows ts b) \<longleftrightarrow> length (filter id (br_allows ts b)) \<noteq> 0"
    by (auto simp: filter_empty_conv)
  then show ?thesis by (auto simp: br_allows_open [OF assms])
qed

theorem br_single_probe_witness:
  "length (filter id (br_allows [10, 30, 31, 90] (br_init\<lparr>br_opened_at := Some 0\<rparr>))) \<le> 1 \<and>
    ((\<exists>t \<in> set [10, 30, 31, 90]. BREAKER_COOLDOWN_S \<le> t - 0) \<longleftrightarrow>
     True \<in> set (br_allows [10, 30, 31, 90] (br_init\<lparr>br_opened_at := Some 0\<rparr>)))"
  by (rule br_single_probe) (simp_all add: br_init_def)

subsection \<open>When it opens\<close>

text \<open>
  The reference: over a history of outcomes, the breaker looks at the last ten and trips when
  fewer than half of them succeeded.
\<close>

definition last_window :: "bool list \<Rightarrow> bool list" where
  "last_window h = drop (length h - BREAKER_WINDOW) h"

definition trips :: "bool list \<Rightarrow> bool" where
  "trips h \<longleftrightarrow> BREAKER_WINDOW \<le> length h \<and>
     2 * length (filter id (last_window h)) < length (last_window h)"

definition br_bits :: "bool list \<Rightarrow> int list" where
  "br_bits h = map (\<lambda>ok. if ok then 1 else 0) h"

fun br_records :: "(instant \<times> bool) list \<Rightarrow> breaker \<Rightarrow> breaker" where
  "br_records [] b = b"
| "br_records ((t, ok) # es) b = br_records es (br_record t ok b)"

lemma br_records_append: "br_records (xs @ ys) b = br_records ys (br_records xs b)"
  by (induction xs arbitrary: b) auto

lemma sum_list_br_bits: "sum_list (br_bits h) = int (length (filter id h))"
  by (induction h) (auto simp: br_bits_def)

lemma length_br_bits [simp]: "length (br_bits h) = length h"
  by (simp add: br_bits_def)

lemma length_last_window: "length (last_window h) = min (length h) BREAKER_WINDOW"
  by (auto simp: last_window_def)

lemma br_push_bits: "br_push ok (br_bits (last_window h)) = br_bits (last_window (h @ [ok]))"
proof (cases "length h < BREAKER_WINDOW")
  case True
  then show ?thesis by (simp add: br_push_def last_window_def br_bits_def Let_def)
next
  case False
  then have "drop (Suc (length h - BREAKER_WINDOW)) h = tl (drop (length h - BREAKER_WINDOW) h)"
    by (simp add: drop_Suc drop_tl)
  moreover have "drop (length h - BREAKER_WINDOW) h \<noteq> []" using False by (simp add: BREAKER_WINDOW_def)
  ultimately show ?thesis using False
    by (simp add: br_push_def last_window_def br_bits_def Let_def map_tl Suc_diff_le)
qed

lemma trips_iff_rate:
  "trips h \<longleftrightarrow> BREAKER_WINDOW \<le> length (last_window h) \<and>
     (of_int (sum_list (br_bits (last_window h))) :: rat) / of_nat (length (last_window h)) < BREAKER_ERROR_RATE"
proof -
  let ?s = "length (filter id (last_window h))" and ?n = "length (last_window h)"
  have "(of_nat ?s :: rat) / of_nat ?n < 1 / 2 \<longleftrightarrow> 2 * ?s < ?n" if "BREAKER_WINDOW \<le> ?n"
  proof -
    have "0 < (of_nat ?n :: rat)" using that by (cases "last_window h") (auto simp: BREAKER_WINDOW_def)
    then have "(of_nat ?s :: rat) / of_nat ?n < 1 / 2 \<longleftrightarrow> of_nat (2 * ?s) < (of_nat ?n :: rat)"
      by (simp add: field_simps)
    then show ?thesis using of_nat_less_iff by blast
  qed
  then show ?thesis by (auto simp: trips_def sum_list_br_bits length_last_window BREAKER_ERROR_RATE_def)
qed

lemma br_record_closed:
  assumes "br_opened_at b = None" "\<not> br_half_open b" "br_outcomes b = br_bits (last_window h)"
  shows "br_outcomes (br_record t ok b) = br_bits (last_window (h @ [ok])) \<and>
    \<not> br_half_open (br_record t ok b) \<and>
    br_opened_at (br_record t ok b) = (if trips (h @ [ok]) then Some t else None)"
  using assms by (simp add: br_record_def br_push_bits trips_iff_rate Let_def)

text \<open>
  The breaker implements the window specification: fed any sequence of outcomes that does
  not trip before its last element, a fresh breaker is open after it exactly if the history
  trips there, and then since the instant of that outcome.
\<close>

theorem br_opens_iff_trips:
  assumes "\<forall>k \<le> length es. \<not> trips (map snd (take k es))"
  shows "br_opened_at (br_records (es @ [(t, ok)]) br_init) =
    (if trips (map snd es @ [ok]) then Some t else None)"
proof -
  have "br_opened_at (br_records es br_init) = None \<and> \<not> br_half_open (br_records es br_init) \<and>
      br_outcomes (br_records es br_init) = br_bits (last_window (map snd es))"
    using assms
  proof (induction es rule: rev_induct)
    case Nil
    then show ?case by (simp add: br_init_def br_bits_def last_window_def)
  next
    case (snoc e es)
    obtain u o' where e: "e = (u, o')" by (cases e)
    have pre: "\<forall>k \<le> length es. \<not> trips (map snd (take k es))"
    proof (intro allI impI)
      fix k assume "k \<le> length es"
      then show "\<not> trips (map snd (take k es))" using snoc.prems[rule_format, of k] by simp
    qed
    have "\<not> trips (map snd es @ [o'])" using snoc.prems[rule_format, of "Suc (length es)"] by (simp add: e)
    then show ?case
      using snoc.IH [OF pre] br_record_closed [of "br_records es br_init" "map snd es" u o']
      by (simp add: br_records_append e)
  qed
  then show ?thesis
    using br_record_closed [of "br_records es br_init" "map snd es" t ok]
    by (simp add: br_records_append)
qed

theorem br_opens_iff_trips_witness:
  "br_opened_at (br_records ((replicate 4 (1, True) @ replicate 5 (2, False)) @ [(3, False)]) br_init) =
    (if trips (map snd (replicate 4 (1::rat, True) @ replicate 5 (2, False)) @ [False]) then Some 3 else None)"
proof (rule br_opens_iff_trips, intro allI impI)
  fix k assume "k \<le> length (replicate 4 (1::rat, True) @ replicate 5 (2, False))"
  then have "length (map snd (take k (replicate 4 (1::rat, True) @ replicate 5 (2, False)))) < BREAKER_WINDOW"
    by (simp add: BREAKER_WINDOW_def)
  then show "\<not> trips (map snd (take k (replicate 4 (1::rat, True) @ replicate 5 (2, False))))"
    by (simp add: trips_def)
qed

section \<open>The durable store\<close>

text \<open>
  One row of \<^verbatim>\<open>llm_controller_state\<close>: a JSON object whose keys depend on the writer (a lane,
  a batch budget, a family gate), so every key is optional. The store is fail-soft: when the
  database is unreachable a load answers nothing and a save is dropped.
\<close>

record ctl_row =
  cr_effective :: "int option"
  cr_streak :: "int option"
  cr_floor :: "int option"
  cr_ceiling :: "int option"
  cr_step :: "int option"
  cr_increases :: "int option"
  cr_decreases :: "int option"
  cr_ooms :: "int option"
  cr_day :: "string option"
  cr_day_count :: "int option"
  cr_last_dispatch_at :: "string option"
  cr_adopted_rpm :: "rat option"
  cr_adopted_tpm :: "rat option"
  cr_provider_rpd_limit :: "rat option"
  cr_provider_rpd_remaining :: "rat option"
  cr_open_for_s :: "rat option"
  cr_opened_wall :: "rat option"

definition empty_row :: ctl_row where
  "empty_row = \<lparr>cr_effective = None, cr_streak = None, cr_floor = None, cr_ceiling = None,
     cr_step = None, cr_increases = None, cr_decreases = None, cr_ooms = None, cr_day = None,
     cr_day_count = None, cr_last_dispatch_at = None, cr_adopted_rpm = None, cr_adopted_tpm = None,
     cr_provider_rpd_limit = None, cr_provider_rpd_remaining = None, cr_open_for_s = None,
     cr_opened_wall = None\<rparr>"

record ctl_store =
  cs_rows :: "string \<Rightarrow> ctl_row option"
  cs_up :: bool

definition cs_load :: "string \<Rightarrow> ctl_store \<Rightarrow> ctl_row option" where
  "cs_load key s = (if cs_up s then cs_rows s key else None)"

definition cs_save :: "string \<Rightarrow> ctl_row \<Rightarrow> ctl_store \<Rightarrow> ctl_store" where
  "cs_save key row s = (if cs_up s then s\<lparr>cs_rows := (cs_rows s)(key \<mapsto> row)\<rparr> else s)"

lemma cs_load_save: "cs_up s \<Longrightarrow> cs_load key (cs_save key row s) = Some row"
  by (simp add: cs_load_def cs_save_def)

section \<open>The family gate\<close>

record family_gate =
  fg_failures :: "string \<Rightarrow> instant list"
  fg_open_until :: "string \<Rightarrow> instant"
  fg_last_read :: "string \<Rightarrow> instant"

definition fg_init :: family_gate where
  "fg_init = \<lparr>fg_failures = (\<lambda>_. []), fg_open_until = (\<lambda>_. 0), fg_last_read = (\<lambda>_. 0)\<rparr>"

definition family_key :: "string \<Rightarrow> string" where
  "family_key family = ''family:'' @ family"

text \<open>\<open>wall\<close> is \<open>time.time()\<close> at the call; \<open>store\<close> is the registry's store, if one is attached.\<close>

definition fg_note_failure ::
  "instant \<Rightarrow> rat \<Rightarrow> string \<Rightarrow> ctl_store option \<Rightarrow> family_gate \<Rightarrow> ctl_store option \<times> family_gate" where
  "fg_note_failure now wall family store g =
     (let window = filter (\<lambda>ts. now - ts \<le> FAMILY_WINDOW_S) (fg_failures g family) @ [now];
          g1 = g\<lparr>fg_failures := (fg_failures g)(family := window)\<rparr> in
      if FAMILY_FAILURE_THRESHOLD \<le> length window \<and> fg_open_until g family < now
      then (map_option (cs_save (family_key family)
              (empty_row\<lparr>cr_open_for_s := Some FAMILY_COOLDOWN_S, cr_opened_wall := Some wall\<rparr>)) store,
            g1\<lparr>fg_open_until := (fg_open_until g)(family := now + FAMILY_COOLDOWN_S),
               fg_failures := (fg_failures g)(family := [])\<rparr>)
      else (store, g1))"

definition fg_allowed ::
  "instant \<Rightarrow> rat \<Rightarrow> string \<Rightarrow> ctl_store option \<Rightarrow> family_gate \<Rightarrow> bool \<times> family_gate" where
  "fg_allowed now wall family store g =
     (if now < fg_open_until g family then (False, g)
      else case store of
        None \<Rightarrow> (True, g)
      | Some s \<Rightarrow>
          if now - fg_last_read g family \<le> FAMILY_REFRESH_S then (True, g)
          else
            let g1 = g\<lparr>fg_last_read := (fg_last_read g)(family := now)\<rparr>;
                row = (case cs_load (family_key family) s of None \<Rightarrow> empty_row | Some r \<Rightarrow> r);
                opened = (case cr_opened_wall row of None \<Rightarrow> 0 | Some v \<Rightarrow> v);
                open_for = (case cr_open_for_s row of None \<Rightarrow> 0 | Some v \<Rightarrow> v);
                remaining = opened + open_for - wall in
            if 0 < remaining
            then (False, g1\<lparr>fg_open_until := (fg_open_until g1)(family := now + remaining)\<rparr>)
            else (True, g1))"

lemmas fg_defs [limiter_defs] = fg_note_failure_def fg_allowed_def

lemma fg_note_failure_other:
  "f \<noteq> family \<Longrightarrow> snd (fg_note_failure now wall family store g) = g' \<Longrightarrow>
   fg_open_until g' f = fg_open_until g f \<and> fg_failures g' f = fg_failures g f"
  by (auto simp: fg_note_failure_def Let_def split: if_splits)

lemma fg_allowed_closed_store:
  "fg_allowed now wall family store g = (ok, g') \<Longrightarrow> (\<forall>s. store = Some s \<longrightarrow> \<not> cs_up s) \<Longrightarrow> 0 \<le> wall \<Longrightarrow>
   ok = (fg_open_until g family \<le> now)"
  by (auto simp: fg_allowed_def cs_load_def empty_row_def Let_def split: if_splits option.splits)

text \<open>
  A correlated storm opens the whole family and nothing else: the failure that brings the
  30-second window of a closed family to eight refuses every call of the family until
  45 seconds later, lets it through again from then on (no store attached), resets the window,
  and leaves every other family's window and cooldown as they were.
\<close>

theorem family_storm_opens:
  assumes "FAMILY_FAILURE_THRESHOLD \<le> Suc (length (filter (\<lambda>ts. now - ts \<le> FAMILY_WINDOW_S) (fg_failures g family)))"
    and "fg_open_until g family < now"
    and "fg_note_failure now wall family None g = (st, g')"
  shows "fst (fg_allowed t w family None g') = (now + FAMILY_COOLDOWN_S \<le> t) \<and> fg_failures g' family = [] \<and>
    (\<forall>f. f \<noteq> family \<longrightarrow> fg_open_until g' f = fg_open_until g f \<and> fg_failures g' f = fg_failures g f)"
  using assms by (auto simp: fg_note_failure_def fg_allowed_def Let_def)

theorem family_storm_opens_witness:
  "fst (fg_allowed 50 0 ''groq'' None
      (snd (fg_note_failure 8 0 ''groq'' None (fg_init\<lparr>fg_failures := (\<lambda>_. [])(''groq'' := [1,2,3,4,5,6,7])\<rparr>))))
    = (8 + FAMILY_COOLDOWN_S \<le> 50)"
proof -
  let ?g = "fg_init\<lparr>fg_failures := (\<lambda>_. [])(''groq'' := [1,2,3,4,5,6,7])\<rparr>"
  have "FAMILY_FAILURE_THRESHOLD \<le> Suc (length (filter (\<lambda>ts. 8 - ts \<le> FAMILY_WINDOW_S) (fg_failures ?g ''groq'')))"
    by (simp add: circuit_consts fg_init_def)
  moreover have "fg_open_until ?g ''groq'' < 8" by (simp add: fg_init_def)
  ultimately show ?thesis
    using family_storm_opens [of 8 ?g "''groq''" 0 "fst (fg_note_failure 8 0 ''groq'' None ?g)"
        "snd (fg_note_failure 8 0 ''groq'' None ?g)" 50 0] by auto
qed

end
