(* ===== verification/Limiter.thy ===== *)
theory Limiter
  imports Token_Bucket Circuit
begin

text \<open>
  The adaptive per-lane limiter of \<^verbatim>\<open>llm_extraction/limiter.py\<close> (\<open>ProviderLimit\<close>,
  \<open>AdaptiveLimiter\<close>): admission through retry-after, family gate, breaker, semaphore, rate
  buckets and the two daily budgets; additive-increase / multiplicative-decrease feedback;
  header synchronisation; persistence and restore.

  What the code reads from its surroundings is the record \<open>sys_env\<close>: when a sleep returns,
  the UTC day, ISO stamp and wall clock at a monotonic instant, and Python's \<open>float()\<close> on a
  header string. The mutable surroundings of one lane are \<open>lim_world\<close>: the clock, the shared
  family gate and the attached store. An operation that may wait returns an option; \<open>None\<close>
  means the caller is still parked (on the semaphore, whose slots only other callers free).
\<close>

definition SUCCESS_STREAK_FOR_INCREASE :: int where "SUCCESS_STREAK_FOR_INCREASE = 4"
definition DECREASE_FACTOR :: rat where "DECREASE_FACTOR = 1 / 2"
definition RETRY_AFTER_MAX_S :: rat where "RETRY_AFTER_MAX_S = 60"
definition BREAKER_WAIT_MAX_S :: rat where "BREAKER_WAIT_MAX_S = 75"
definition RPD_PERSIST_MIN_INTERVAL_S :: rat where "RPD_PERSIST_MIN_INTERVAL_S = 1"
definition CEILING_ADOPT_MAX_MULTIPLE :: int where "CEILING_ADOPT_MAX_MULTIPLE = 4"

lemmas limiter_consts = SUCCESS_STREAK_FOR_INCREASE_def DECREASE_FACTOR_def RETRY_AFTER_MAX_S_def
  BREAKER_WAIT_MAX_S_def RPD_PERSIST_MIN_INTERVAL_S_def CEILING_ADOPT_MAX_MULTIPLE_def

section \<open>Configuration and surroundings\<close>

datatype limit_kind = Concurrency | Rate

record provider_limit =
  pl_kind :: limit_kind
  pl_init :: int
  pl_min :: int
  pl_max :: int
  pl_rpm :: "int option"
  pl_tpm :: "int option"
  pl_conc_cap :: "int option"
  pl_adaptive :: bool
  pl_use_headers :: bool
  pl_rpd :: "int option"
  pl_family :: "string option"

text \<open>\<open>ProviderLimit(kind)\<close> with the dataclass defaults.\<close>

definition provider_limit_default :: "limit_kind \<Rightarrow> provider_limit" where
  "provider_limit_default k = \<lparr>pl_kind = k, pl_init = 2, pl_min = 1, pl_max = 6, pl_rpm = None,
     pl_tpm = None, pl_conc_cap = None, pl_adaptive = True, pl_use_headers = False,
     pl_rpd = None, pl_family = None\<rparr>"

text \<open>A config mapping is a sequence of key/value pairs; unknown keys are ignored.\<close>

datatype limit_setting =
    SetKind limit_kind | SetInit int | SetMin int | SetMax int | SetRpm "int option"
  | SetTpm "int option" | SetConcCap "int option" | SetAdaptive bool | SetUseHeaders bool
  | SetRpd "int option" | SetFamily "string option" | UnknownKey string

fun apply_setting :: "limit_setting \<Rightarrow> provider_limit \<Rightarrow> provider_limit" where
  "apply_setting (SetKind v) p = p\<lparr>pl_kind := v\<rparr>"
| "apply_setting (SetInit v) p = p\<lparr>pl_init := v\<rparr>"
| "apply_setting (SetMin v) p = p\<lparr>pl_min := v\<rparr>"
| "apply_setting (SetMax v) p = p\<lparr>pl_max := v\<rparr>"
| "apply_setting (SetRpm v) p = p\<lparr>pl_rpm := v\<rparr>"
| "apply_setting (SetTpm v) p = p\<lparr>pl_tpm := v\<rparr>"
| "apply_setting (SetConcCap v) p = p\<lparr>pl_conc_cap := v\<rparr>"
| "apply_setting (SetAdaptive v) p = p\<lparr>pl_adaptive := v\<rparr>"
| "apply_setting (SetUseHeaders v) p = p\<lparr>pl_use_headers := v\<rparr>"
| "apply_setting (SetRpd v) p = p\<lparr>pl_rpd := v\<rparr>"
| "apply_setting (SetFamily v) p = p\<lparr>pl_family := v\<rparr>"
| "apply_setting (UnknownKey _) p = p"

definition from_config :: "provider_limit \<Rightarrow> limit_setting list option \<Rightarrow> provider_limit" where
  "from_config base cfg = (case cfg of None \<Rightarrow> base | Some xs \<Rightarrow> fold apply_setting xs base)"

datatype header_value = HNum rat | HStr string
type_synonym headers = "(string, header_value) dict"

record sys_env =
  wake :: "instant \<Rightarrow> rat \<Rightarrow> instant"
  utc_day :: "instant \<Rightarrow> string"
  utc_iso :: "instant \<Rightarrow> string"
  wall_clock :: "instant \<Rightarrow> rat"
  float_of :: "string \<Rightarrow> rat option"

fun to_float :: "sys_env \<Rightarrow> header_value \<Rightarrow> rat option" where
  "to_float env (HNum x) = Some x"
| "to_float env (HStr s) = float_of env s"

definition get_float :: "sys_env \<Rightarrow> headers \<Rightarrow> string \<Rightarrow> rat option" where
  "get_float env h key = (case map_of h key of None \<Rightarrow> None | Some v \<Rightarrow> to_float env v)"

definition parse_retry_after :: "sys_env \<Rightarrow> header_value option \<Rightarrow> rat option" where
  "parse_retry_after env value =
     (case value of None \<Rightarrow> None | Some v \<Rightarrow> map_option (max 0) (to_float env v))"

subsection \<open>Groq's duration form\<close>

text \<open>
  The pattern \<^verbatim>\<open>^(?:(N)h)?(?:(N)m)?(?:(N)s)?$\<close> with \<open>N\<close> a decimal number: each optional group
  either consumes a number directly followed by its unit or nothing.
\<close>

definition is_digit :: "char \<Rightarrow> bool" where
  "is_digit c \<longleftrightarrow> c \<in> set ''0123456789''"

definition digit_val :: "char \<Rightarrow> rat" where
  "digit_val c = of_nat (length (takeWhile (\<lambda>d. d \<noteq> c) ''0123456789''))"

fun digits_val :: "rat \<Rightarrow> string \<Rightarrow> rat" where
  "digits_val acc [] = acc"
| "digits_val acc (c # cs) = digits_val (10 * acc + digit_val c) cs"

fun frac_val :: "rat \<Rightarrow> string \<Rightarrow> rat" where
  "frac_val scale [] = 0"
| "frac_val scale (c # cs) = digit_val c * scale + frac_val (scale / 10) cs"

definition take_number :: "string \<Rightarrow> (rat \<times> string) option" where
  "take_number s =
     (let whole = takeWhile is_digit s; rest = dropWhile is_digit s in
      if whole = [] then None
      else case rest of
        CHR ''.'' # fr \<Rightarrow>
          (let f = takeWhile is_digit fr in
           if f = [] then Some (digits_val 0 whole, rest)
           else Some (digits_val 0 whole + frac_val (1 / 10) f, dropWhile is_digit fr))
      | _ \<Rightarrow> Some (digits_val 0 whole, rest))"

definition take_group :: "char \<Rightarrow> string \<Rightarrow> rat option \<times> string" where
  "take_group u s =
     (case take_number s of
        Some (v, c # rest) \<Rightarrow> if c = u then (Some v, rest) else (None, s)
      | _ \<Rightarrow> (None, s))"

definition parse_duration :: "string \<Rightarrow> rat option" where
  "parse_duration s =
     (let (h, s1) = take_group (CHR ''h'') (py_strip s);
          (m, s2) = take_group (CHR ''m'') s1;
          (x, s3) = take_group (CHR ''s'') s2;
          val = (\<lambda>g. case g of None \<Rightarrow> 0 | Some v \<Rightarrow> v) in
      if s3 \<noteq> [] \<or> (h = None \<and> m = None \<and> x = None) then None
      else Some (val h * 3600 + val m * 60 + val x))"

definition parse_reset_seconds :: "sys_env \<Rightarrow> header_value option \<Rightarrow> rat option" where
  "parse_reset_seconds env value =
     (case value of
        None \<Rightarrow> None
      | Some v \<Rightarrow> (case to_float env v of
            Some x \<Rightarrow> Some (max 0 x)
          | None \<Rightarrow> (case v of HStr s \<Rightarrow> parse_duration s | HNum _ \<Rightarrow> None)))"

section \<open>The limiter\<close>

record limiter =
  l_name :: string
  l_spec :: provider_limit
  l_floor :: int
  l_ceil :: int
  l_sem :: dyn_sem
  l_rpm :: "token_bucket option"
  l_tpm :: "token_bucket option"
  l_breaker :: breaker
  l_streak :: int
  l_effective :: int
  l_not_before :: instant
  l_increases :: int
  l_decreases :: int
  l_bound :: bool
  l_day :: string
  l_day_count :: int
  l_adopted_rpm :: "rat option"
  l_adopted_tpm :: "rat option"
  l_provider_rpd_limit :: "rat option"
  l_provider_rpd_remaining :: "rat option"
  l_provider_rpd_reset_at :: "instant option"
  l_last_dispatch_at :: "string option"
  l_last_rpd_persist :: instant
  l_rpd_dirty :: bool

record lim_world =
  lw_now :: instant
  lw_gate :: family_gate
  lw_store :: "ctl_store option"

definition lim_init :: "sys_env \<Rightarrow> instant \<Rightarrow> string \<Rightarrow> provider_limit \<Rightarrow> limiter" where
  "lim_init env now name spec =
     (let ceil0 = (if pl_kind spec = Rate then or_int (pl_conc_cap spec) (pl_max spec) else pl_max spec);
          seed0 = (if pl_kind spec = Rate then or_int (Some (pl_init spec)) ceil0 else pl_init spec);
          ceil = max ceil0 (pl_min spec);
          seed = max (pl_min spec) (min seed0 ceil);
          bucket = (\<lambda>n. if pl_kind spec = Rate \<and> truthy_int n then map_option (tb_init now) n else None) in
      \<lparr>l_name = name, l_spec = spec, l_floor = pl_min spec, l_ceil = ceil, l_sem = sem_init seed,
       l_rpm = bucket (pl_rpm spec), l_tpm = bucket (pl_tpm spec), l_breaker = br_init,
       l_streak = 0, l_effective = seed, l_not_before = 0, l_increases = 0, l_decreases = 0,
       l_bound = False, l_day = utc_day env now, l_day_count = 0, l_adopted_rpm = None,
       l_adopted_tpm = None, l_provider_rpd_limit = None, l_provider_rpd_remaining = None,
       l_provider_rpd_reset_at = None, l_last_dispatch_at = None, l_last_rpd_persist = 0,
       l_rpd_dirty = False\<rparr>)"

subsection \<open>Durable state\<close>

definition lim_state :: "limiter \<Rightarrow> ctl_row" where
  "lim_state l = empty_row\<lparr>cr_effective := Some (l_effective l), cr_streak := Some (l_streak l),
     cr_floor := Some (l_floor l), cr_ceiling := Some (l_ceil l), cr_increases := Some (l_increases l),
     cr_decreases := Some (l_decreases l), cr_day := Some (l_day l), cr_day_count := Some (l_day_count l),
     cr_last_dispatch_at := l_last_dispatch_at l, cr_adopted_rpm := l_adopted_rpm l,
     cr_adopted_tpm := l_adopted_tpm l, cr_provider_rpd_limit := l_provider_rpd_limit l,
     cr_provider_rpd_remaining := l_provider_rpd_remaining l\<rparr>"

text \<open>The bound change callback: save the row under the lane's name.\<close>

definition lim_save :: "lim_world \<Rightarrow> limiter \<Rightarrow> lim_world" where
  "lim_save w l = (if l_bound l
     then w\<lparr>lw_store := map_option (cs_save (l_name l) (lim_state l)) (lw_store w)\<rparr> else w)"

definition or_zero :: "int option \<Rightarrow> int" where
  "or_zero x = (case x of None \<Rightarrow> 0 | Some v \<Rightarrow> v)"

definition adopt_restored :: "rat option \<Rightarrow> token_bucket option \<Rightarrow> token_bucket option" where
  "adopt_restored val b = (case val of
     Some v \<Rightarrow> if v \<noteq> 0 then map_option (\<lambda>b. snd (tb_adopt_capacity v b)) b else b | None \<Rightarrow> b)"

definition lim_restore :: "sys_env \<Rightarrow> instant \<Rightarrow> ctl_row option \<Rightarrow> limiter \<Rightarrow> bool \<times> limiter" where
  "lim_restore env now state l =
     (case state of
        None \<Rightarrow> (False, l)
      | Some row \<Rightarrow> (case cr_effective row of
            None \<Rightarrow> (False, l)
          | Some value \<Rightarrow>
              let eff = clamp (l_floor l) (l_ceil l) value;
                  today = utc_day env now;
                  same = (cr_day row = Some today);
                  take = (\<lambda>val b old. if val \<noteq> None \<and> val \<noteq> Some 0 \<and> b \<noteq> None then val else old) in
              (True, l\<lparr>l_effective := eff, l_streak := 0,
                 l_increases := or_zero (cr_increases row), l_decreases := or_zero (cr_decreases row),
                 l_day := (if same then today else l_day l),
                 l_day_count := (if same then or_zero (cr_day_count row) else l_day_count l),
                 l_last_dispatch_at := (if same
                    then (case cr_last_dispatch_at row of Some (c # cs) \<Rightarrow> Some (c # cs) | _ \<Rightarrow> None)
                    else l_last_dispatch_at l),
                 l_rpm := adopt_restored (cr_adopted_rpm row) (l_rpm l),
                 l_tpm := adopt_restored (cr_adopted_tpm row) (l_tpm l),
                 l_adopted_rpm := take (cr_adopted_rpm row) (l_rpm l) (l_adopted_rpm l),
                 l_adopted_tpm := take (cr_adopted_tpm row) (l_tpm l) (l_adopted_tpm l),
                 l_sem := sem_set_limit eff (l_sem l)\<rparr>)))"

subsection \<open>The read-only capacity view\<close>

record cap_snapshot =
  sn_remaining_rpd :: int
  sn_rolling_rpm :: int
  sn_tpm_used :: int
  sn_in_flight :: int
  sn_locked_until :: instant
  sn_breaker_open :: bool
  sn_day_count :: int
  sn_rpd_budget :: "int option"
  sn_provider_rpd_limit :: "rat option"
  sn_provider_rpd_remaining :: "rat option"

definition used_today :: "sys_env \<Rightarrow> instant \<Rightarrow> limiter \<Rightarrow> int" where
  "used_today env now l = (if l_day l = utc_day env now then l_day_count l else 0)"

definition snapshot_cap :: "rat option \<Rightarrow> int option \<Rightarrow> rat" where
  "snapshot_cap adopted cfg =
     (case adopted of Some v \<Rightarrow> if v \<noteq> 0 then v else of_int (or_int cfg 0) | None \<Rightarrow> of_int (or_int cfg 0))"

definition snapshot_used :: "rat \<Rightarrow> token_bucket option \<Rightarrow> int" where
  "snapshot_used cap b =
     (if cap = 0 then 0
      else max 0 (py_round (cap - (case b of None \<Rightarrow> 0 | Some b \<Rightarrow> tb_tokens b))))"

definition capacity_snapshot :: "sys_env \<Rightarrow> instant \<Rightarrow> limiter \<Rightarrow> cap_snapshot" where
  "capacity_snapshot env now l =
     (let day_count = used_today env now l;
          remaining = (if truthy_int (pl_rpd (l_spec l))
                       then or_int (pl_rpd (l_spec l)) 0 - day_count else 1000000000) in
      \<lparr>sn_remaining_rpd = max 0 remaining,
       sn_rolling_rpm = snapshot_used (snapshot_cap (l_adopted_rpm l) (pl_rpm (l_spec l))) (l_rpm l),
       sn_tpm_used = snapshot_used (snapshot_cap (l_adopted_tpm l) (pl_tpm (l_spec l))) (l_tpm l),
       sn_in_flight = sem_held (l_sem l), sn_locked_until = l_not_before l,
       sn_breaker_open = br_is_open (l_breaker l), sn_day_count = day_count,
       sn_rpd_budget = pl_rpd (l_spec l), sn_provider_rpd_limit = l_provider_rpd_limit l,
       sn_provider_rpd_remaining = l_provider_rpd_remaining l\<rparr>)"


subsection \<open>Admission\<close>

datatype refuse_reason =
    RETRY_AFTER | FAMILY_GATE | BREAKER | CONCURRENCY | RPM | TPM | RPD | PROVIDER_RPD

record limiter_decision =
  ld_admitted :: bool
  ld_reason :: "refuse_reason option"
  ld_retry_after :: "rat option"

definition ld_admit :: limiter_decision where
  "ld_admit = \<lparr>ld_admitted = True, ld_reason = None, ld_retry_after = None\<rparr>"

definition ld_refuse :: "refuse_reason \<Rightarrow> limiter_decision" where
  "ld_refuse r = \<lparr>ld_admitted = False, ld_reason = Some r, ld_retry_after = None\<rparr>"

definition honor_retry_after :: "sys_env \<Rightarrow> bool \<Rightarrow> instant \<Rightarrow> limiter \<Rightarrow> bool \<times> instant" where
  "honor_retry_after env block now l =
     (let delay = l_not_before l - now in
      if delay \<le> 0 then (True, now)
      else if \<not> block then (False, now)
      else (True, wake env now (min delay RETRY_AFTER_MAX_S)))"

partial_function (option) wait_for_breaker_loop ::
  "sys_env \<Rightarrow> instant \<Rightarrow> instant \<Rightarrow> breaker \<Rightarrow> (bool \<times> instant \<times> breaker) option" where
  "wait_for_breaker_loop env deadline now b =
     (if now < deadline then
        (let t = wake env now (min 1 (max (1 / 20) (BREAKER_COOLDOWN_S / 10))) in
         if fst (br_allow t b) then Some (True, t, snd (br_allow t b))
         else wait_for_breaker_loop env deadline t (snd (br_allow t b)))
      else Some (False, now, b))"

definition wait_for_breaker ::
  "sys_env \<Rightarrow> instant \<Rightarrow> breaker \<Rightarrow> (bool \<times> instant \<times> breaker) option" where
  "wait_for_breaker env now b = wait_for_breaker_loop env (now + BREAKER_WAIT_MAX_S) now b"

definition refund_rate :: "rat \<Rightarrow> limiter \<Rightarrow> limiter" where
  "refund_rate est l = l\<lparr>l_rpm := map_option (tb_refund 1) (l_rpm l),
     l_tpm := (if 0 < est then map_option (tb_refund est) (l_tpm l) else l_tpm l)\<rparr>"

definition provider_rpd_exhausted :: "instant \<Rightarrow> limiter \<Rightarrow> bool" where
  "provider_rpd_exhausted now l =
     (case l_provider_rpd_remaining l of
        None \<Rightarrow> False
      | Some r \<Rightarrow> (case l_provider_rpd_reset_at l of
            Some t \<Rightarrow> if t \<le> now then False else r \<le> 0
          | None \<Rightarrow> r \<le> 0))"

definition observe_provider_rpd ::
  "instant \<Rightarrow> rat option \<Rightarrow> rat option \<Rightarrow> rat option \<Rightarrow> limiter \<Rightarrow> limiter" where
  "observe_provider_rpd now limit remaining reset_secs l =
     (let epoch_expired = (case l_provider_rpd_reset_at l of None \<Rightarrow> False | Some t \<Rightarrow> t \<le> now);
          new_epoch = (l_provider_rpd_remaining l = None \<or> epoch_expired \<or>
                       (limit \<noteq> None \<and> limit \<noteq> l_provider_rpd_limit l)) in
      l\<lparr>l_provider_rpd_limit := (if limit \<noteq> None then limit else l_provider_rpd_limit l),
        l_provider_rpd_remaining := (case remaining of
            None \<Rightarrow> l_provider_rpd_remaining l
          | Some r \<Rightarrow> if new_epoch then Some r else map_option (\<lambda>old. min old r) (l_provider_rpd_remaining l)),
        l_provider_rpd_reset_at := (case reset_secs of
            None \<Rightarrow> l_provider_rpd_reset_at l | Some s \<Rightarrow> Some (now + s))\<rparr>)"

definition park_provider_day :: "instant \<Rightarrow> rat \<Rightarrow> limiter \<Rightarrow> limiter" where
  "park_provider_day now reset_secs l = observe_provider_rpd now None (Some 0) (Some reset_secs) l"

text \<open>The bucket stages of \<open>admit\<close> for a rate lane, in the order of the code.\<close>

definition admit_rpm ::
  "sys_env \<Rightarrow> bool \<Rightarrow> instant \<Rightarrow> limiter \<Rightarrow> (refuse_reason option \<times> instant \<times> limiter) option" where
  "admit_rpm env block now l =
     (case l_rpm l of
        None \<Rightarrow> Some (None, now, l)
      | Some b \<Rightarrow> map_option (\<lambda>(ok, now', b').
            (if ok then None else Some RPM, now', l\<lparr>l_rpm := Some b'\<rparr>))
          (tb_acquire (wake env) 1 block now b))"

definition admit_tpm ::
  "sys_env \<Rightarrow> rat \<Rightarrow> bool \<Rightarrow> instant \<Rightarrow> limiter \<Rightarrow> (refuse_reason option \<times> instant \<times> limiter) option" where
  "admit_tpm env est block now l =
     (case l_tpm l of
        None \<Rightarrow> Some (None, now, l)
      | Some b \<Rightarrow>
          if est \<le> 0 then Some (None, now, l)
          else map_option (\<lambda>(ok, now', b').
            if ok then (None, now', l\<lparr>l_tpm := Some b'\<rparr>)
            else (Some TPM, now', l\<lparr>l_tpm := Some b', l_rpm := map_option (tb_refund 1) (l_rpm l)\<rparr>))
          (tb_acquire (wake env) est block now b))"

definition admit_daily :: "sys_env \<Rightarrow> rat \<Rightarrow> instant \<Rightarrow> limiter \<Rightarrow> refuse_reason option \<times> limiter" where
  "admit_daily env est now l =
     (if provider_rpd_exhausted now l then (Some PROVIDER_RPD, refund_rate est l)
      else case pl_rpd (l_spec l) of
        None \<Rightarrow> (None, l)
      | Some rpd \<Rightarrow>
          if rpd = 0 then (None, l)
          else
            let today = utc_day env now;
                l1 = (if today \<noteq> l_day l then l\<lparr>l_day := today, l_day_count := 0\<rparr> else l) in
            if rpd \<le> l_day_count l1 then (Some RPD, refund_rate est l1)
            else (None, l1\<lparr>l_day_count := l_day_count l1 + 1,
                           l_last_dispatch_at := Some (utc_iso env now), l_rpd_dirty := True\<rparr>))"

definition admit_rate ::
  "sys_env \<Rightarrow> rat \<Rightarrow> bool \<Rightarrow> instant \<Rightarrow> limiter \<Rightarrow> (refuse_reason option \<times> instant \<times> limiter) option" where
  "admit_rate env est block now l =
     (case admit_rpm env block now l of
        None \<Rightarrow> None
      | Some (Some r, now1, l1) \<Rightarrow> Some (Some r, now1, l1)
      | Some (None, now1, l1) \<Rightarrow>
          (case admit_tpm env est block now1 l1 of
             None \<Rightarrow> None
           | Some (Some r, now2, l2) \<Rightarrow> Some (Some r, now2, l2)
           | Some (None, now2, l2) \<Rightarrow>
               let (r, l3) = admit_daily env est now2 l2 in Some (r, now2, l3)))"

definition persist_rpd_if_due :: "bool \<Rightarrow> lim_world \<Rightarrow> limiter \<Rightarrow> lim_world \<times> limiter" where
  "persist_rpd_if_due force w l =
     (if \<not> l_bound l then (w, l)
      else if \<not> l_rpd_dirty l then (w, l)
      else if \<not> force \<and> lw_now w - l_last_rpd_persist l < RPD_PERSIST_MIN_INTERVAL_S then (w, l)
      else let l' = l\<lparr>l_last_rpd_persist := lw_now w, l_rpd_dirty := False\<rparr> in (lim_save w l', l'))"

definition flush_rpd :: "lim_world \<Rightarrow> limiter \<Rightarrow> lim_world \<times> limiter" where
  "flush_rpd w l = persist_rpd_if_due True w l"

definition family_check :: "sys_env \<Rightarrow> instant \<Rightarrow> lim_world \<Rightarrow> limiter \<Rightarrow> bool \<times> family_gate" where
  "family_check env now w l =
     (case pl_family (l_spec l) of
        Some (c # cs) \<Rightarrow> fg_allowed now (wall_clock env now) (c # cs) (lw_store w) (lw_gate w)
      | _ \<Rightarrow> (True, lw_gate w))"

definition breaker_check ::
  "sys_env \<Rightarrow> bool \<Rightarrow> instant \<Rightarrow> breaker \<Rightarrow> (bool \<times> instant \<times> breaker) option" where
  "breaker_check env block now b =
     (let (a, b') = br_allow now b in
      if a then Some (True, now, b')
      else if \<not> block then Some (False, now, b')
      else wait_for_breaker env now b')"

definition sem_check :: "bool \<Rightarrow> dyn_sem \<Rightarrow> (bool \<times> dyn_sem) option" where
  "sem_check block s = (if block then map_option (Pair True) (sem_acquire s) else Some (sem_try_acquire s))"

definition admit_finish ::
  "sys_env \<Rightarrow> rat \<Rightarrow> bool \<Rightarrow> lim_world \<Rightarrow> limiter \<Rightarrow> (limiter_decision \<times> lim_world \<times> limiter) option" where
  "admit_finish env est block w l =
     (if pl_kind (l_spec l) = Rate then
        (case admit_rate env est block (lw_now w) l of
           None \<Rightarrow> None
         | Some (Some r, now, l') \<Rightarrow>
             Some (ld_refuse r, w\<lparr>lw_now := now\<rparr>,
               l'\<lparr>l_sem := sem_release (l_sem l'), l_breaker := br_release_probe (l_breaker l')\<rparr>)
         | Some (None, now, l') \<Rightarrow>
             Some (ld_admit, persist_rpd_if_due False (w\<lparr>lw_now := now\<rparr>) l'))
      else Some (ld_admit, persist_rpd_if_due False w l))"

definition admit ::
  "sys_env \<Rightarrow> rat \<Rightarrow> bool \<Rightarrow> lim_world \<Rightarrow> limiter \<Rightarrow> (limiter_decision \<times> lim_world \<times> limiter) option" where
  "admit env est block w l =
     (let (ok, now1) = honor_retry_after env block (lw_now w) l in
      if \<not> ok then
        Some ((ld_refuse RETRY_AFTER)\<lparr>ld_retry_after := Some (max 0 (l_not_before l - now1))\<rparr>, w, l)
      else
        let (fam, g) = family_check env now1 w l; w1 = w\<lparr>lw_now := now1, lw_gate := g\<rparr> in
        if \<not> fam then Some (ld_refuse FAMILY_GATE, w1, l)
        else case breaker_check env block now1 (l_breaker l) of
          None \<Rightarrow> None
        | Some (br, now2, b) \<Rightarrow>
            let w2 = w1\<lparr>lw_now := now2\<rparr>; l2 = l\<lparr>l_breaker := b\<rparr> in
            if \<not> br then Some (ld_refuse BREAKER, w2, l2)
            else case sem_check block (l_sem l2) of
              None \<Rightarrow> None
            | Some (slot, sem) \<Rightarrow>
                if \<not> slot then Some (ld_refuse CONCURRENCY, w2, l2\<lparr>l_breaker := br_release_probe b\<rparr>)
                else admit_finish env est block w2 (l2\<lparr>l_sem := sem\<rparr>))"

definition acquire :: "sys_env \<Rightarrow> rat \<Rightarrow> bool \<Rightarrow> lim_world \<Rightarrow> limiter \<Rightarrow> (bool \<times> lim_world \<times> limiter) option" where
  "acquire env est block w l = map_option (\<lambda>(d, r). (ld_admitted d, r)) (admit env est block w l)"

definition lim_release :: "limiter \<Rightarrow> limiter" where
  "lim_release l = l\<lparr>l_sem := sem_release (l_sem l)\<rparr>"

subsection \<open>Feedback\<close>

definition sync_ceiling :: "sys_env \<Rightarrow> headers \<Rightarrow> limiter \<Rightarrow> limiter" where
  "sync_ceiling env h l =
     (case (l_tpm l, pl_tpm (l_spec l), get_float env h ''x-ratelimit-limit-tokens'') of
        (Some b, Some tpm, Some declared) \<Rightarrow>
          let cap = min declared (of_int (tpm * CEILING_ADOPT_MAX_MULTIPLE));
              (grew, b') = tb_adopt_capacity cap b in
          l\<lparr>l_tpm := Some b', l_adopted_tpm := (if grew then Some cap else l_adopted_tpm l)\<rparr>
      | _ \<Rightarrow> l)"

definition sync_remaining_tokens :: "sys_env \<Rightarrow> headers \<Rightarrow> string \<Rightarrow> limiter \<Rightarrow> limiter" where
  "sync_remaining_tokens env h key l =
     (case get_float env h key of
        Some v \<Rightarrow> l\<lparr>l_tpm := map_option (tb_sync_remaining v) (l_tpm l)\<rparr>
      | None \<Rightarrow> l)"

definition sync_headers :: "sys_env \<Rightarrow> instant \<Rightarrow> headers \<Rightarrow> limiter \<Rightarrow> limiter" where
  "sync_headers env now h l =
     (if h = [] \<or> \<not> pl_use_headers (l_spec l) then l
      else
        let l1 = sync_ceiling env h l;
            l2 = sync_remaining_tokens env h ''x-ratelimit-remaining-tokens'' l1;
            l3 = sync_remaining_tokens env h ''anthropic-ratelimit-tokens-remaining'' l2;
            lim_v = get_float env h ''x-ratelimit-limit-requests'';
            rem_v = get_float env h ''x-ratelimit-remaining-requests'';
            reset_v = parse_reset_seconds env (map_of h ''x-ratelimit-reset-requests'') in
        if lim_v \<noteq> None \<or> rem_v \<noteq> None \<or> reset_v \<noteq> None
        then observe_provider_rpd now lim_v rem_v reset_v l3 else l3)"

definition success_move :: "instant \<Rightarrow> limiter \<Rightarrow> bool \<times> limiter" where
  "success_move now l =
     (let l1 = l\<lparr>l_breaker := br_record now True (l_breaker l), l_streak := l_streak l + 1\<rparr> in
      if pl_adaptive (l_spec l) \<and> SUCCESS_STREAK_FOR_INCREASE \<le> l_streak l1 \<and> l_effective l < l_ceil l
      then (True, l1\<lparr>l_effective := l_effective l + 1, l_streak := 0, l_increases := l_increases l + 1,
                     l_sem := sem_set_limit (l_effective l + 1) (l_sem l)\<rparr>)
      else (False, l1))"

definition record_success :: "sys_env \<Rightarrow> headers \<Rightarrow> lim_world \<Rightarrow> limiter \<Rightarrow> lim_world \<times> limiter" where
  "record_success env h w l =
     (let (changed, l1) = success_move (lw_now w) l; l2 = sync_headers env (lw_now w) h l1 in
      (if changed then lim_save w l2 else w, l2))"

definition failure_move :: "sys_env \<Rightarrow> instant \<Rightarrow> header_value option \<Rightarrow> limiter \<Rightarrow> bool \<times> limiter" where
  "failure_move env now retry_after l =
     (let l1 = l\<lparr>l_breaker := br_record now False (l_breaker l), l_streak := 0\<rparr>;
          new = max (l_floor l) (int_trunc (of_int (l_effective l) * DECREASE_FACTOR));
          l2 = (if pl_adaptive (l_spec l)
                then l1\<lparr>l_effective := new, l_decreases := l_decreases l + 1,
                       l_sem := sem_set_limit new (l_sem l)\<rparr> else l1);
          l3 = (case parse_retry_after env retry_after of
                  None \<Rightarrow> l2
                | Some s \<Rightarrow> l2\<lparr>l_not_before := max (l_not_before l) (now + min s RETRY_AFTER_MAX_S)\<rparr>) in
      (pl_adaptive (l_spec l) \<and> new \<noteq> l_effective l, l3))"

definition record_failure ::
  "sys_env \<Rightarrow> header_value option \<Rightarrow> headers \<Rightarrow> lim_world \<Rightarrow> limiter \<Rightarrow> lim_world \<times> limiter" where
  "record_failure env retry_after h w l =
     (let w1 = (case pl_family (l_spec l) of
                  Some (c # cs) \<Rightarrow>
                    (let (st, g) = fg_note_failure (lw_now w) (wall_clock env (lw_now w)) (c # cs)
                                     (lw_store w) (lw_gate w)
                     in w\<lparr>lw_store := st, lw_gate := g\<rparr>)
                | _ \<Rightarrow> w);
          (changed, l1) = failure_move env (lw_now w) retry_after l;
          l2 = sync_headers env (lw_now w) h l1 in
      (if changed then lim_save w1 l2 else w1, l2))"

end
