(* ===== verification/Limiter_Facts.thy ===== *)
theory Limiter_Facts
  imports Limiter
begin

text \<open>
  What the limiter promises: the controller stays inside its bounds whatever happens to it, a
  refused admission leaks nothing, the daily budget is never exceeded, a blocking admission
  waits only for slots that others hold, and the durable row survives a restart.
\<close>

section \<open>The invariant\<close>

definition bucket_ok :: "instant \<Rightarrow> token_bucket option \<Rightarrow> bool" where
  "bucket_ok now ob = (case ob of None \<Rightarrow> True | Some b \<Rightarrow> tb_wf b \<and> tb_ts b \<le> now)"

definition lim_sane :: "limiter \<Rightarrow> bool" where
  "lim_sane l \<longleftrightarrow> 0 \<le> l_floor l \<and> l_floor l \<le> l_ceil l"

definition lim_inv :: "instant \<Rightarrow> limiter \<Rightarrow> bool" where
  "lim_inv now l \<longleftrightarrow> lim_sane l \<and> l_floor l \<le> l_effective l \<and> l_effective l \<le> l_ceil l \<and>
     sem_limit (l_sem l) = l_effective l \<and> 0 \<le> sem_held (l_sem l) \<and> br_inv (l_breaker l) \<and>
     bucket_ok now (l_rpm l) \<and> bucket_ok now (l_tpm l)"

lemma bucket_ok_simps [simp]:
  "bucket_ok now None" "bucket_ok now (Some b) = (tb_wf b \<and> tb_ts b \<le> now)"
  by (simp_all add: bucket_ok_def)

lemma bucket_ok_mono: "bucket_ok now b \<Longrightarrow> now \<le> now' \<Longrightarrow> bucket_ok now' b"
  by (cases b) auto

lemma bucket_ok_adopt: "bucket_ok now b \<Longrightarrow> bucket_ok now (map_option (\<lambda>b. snd (tb_adopt_capacity c b)) b)"
  using tb_wf_adopt by (cases b) (auto simp: tb_adopt_capacity_def)

lemma bucket_ok_sync: "bucket_ok now b \<Longrightarrow> bucket_ok now (map_option (tb_sync_remaining r) b)"
  using tb_wf_sync by (cases b) (auto simp: tb_sync_remaining_def)

lemma bucket_ok_refund: "bucket_ok now b \<Longrightarrow> 0 \<le> n \<Longrightarrow> bucket_ok now (map_option (tb_refund n) b)"
  using tb_wf_refund by (cases b) (auto simp: tb_refund_def)

lemma lim_inv_mono: "lim_inv now l \<Longrightarrow> now \<le> now' \<Longrightarrow> lim_inv now' l"
  by (auto simp: lim_inv_def intro: bucket_ok_mono)

lemma lim_inv_init:
  assumes "0 \<le> pl_min spec" "\<forall>n. pl_rpm spec = Some n \<or> pl_tpm spec = Some n \<longrightarrow> 0 \<le> n"
  shows "lim_inv now (lim_init env now name spec)"
proof -
  have "bucket_ok now (if pl_kind spec = Rate \<and> truthy_int n then map_option (tb_init now) n else None)"
    if "n = pl_rpm spec \<or> n = pl_tpm spec" for n
  proof (cases n)
    case (Some k)
    then have "0 \<le> k" using assms(2) that by metis
    then show ?thesis by (simp add: Some truthy_int_def tb_init_def tb_wf_def)
  qed simp
  then show ?thesis
    using assms(1) by (auto simp: lim_inv_def lim_sane_def lim_init_def Let_def sem_init_def br_inv_init)
qed

lemma sync_ceiling_frame:
  "lim_inv now l \<Longrightarrow> lim_inv now (sync_ceiling env h l)"
  by (auto simp: sync_ceiling_def lim_inv_def lim_sane_def Let_def tb_adopt_capacity_def tb_wf_def
      split: option.splits prod.splits if_splits)

lemma sync_remaining_frame:
  "lim_inv now l \<Longrightarrow> lim_inv now (sync_remaining_tokens env h key l)"
  using bucket_ok_sync [of now "l_tpm l"]
  by (auto simp: sync_remaining_tokens_def lim_inv_def lim_sane_def split: option.splits)

lemma observe_frame:
  "lim_inv now (observe_provider_rpd t a b c l) = lim_inv now l"
  by (simp add: observe_provider_rpd_def lim_inv_def lim_sane_def Let_def)

lemma sync_headers_inv: "lim_inv now l \<Longrightarrow> lim_inv now (sync_headers env t h l)"
  by (simp add: sync_headers_def Let_def observe_frame sync_ceiling_frame sync_remaining_frame)

lemma success_move_inv: "lim_inv now l \<Longrightarrow> lim_inv now (snd (success_move t l))"
  by (auto simp: success_move_def lim_inv_def lim_sane_def Let_def sem_set_limit_def br_inv_record)

lemma halved_bounds:
  "0 \<le> lo \<Longrightarrow> lo \<le> hi \<Longrightarrow> lo \<le> e \<Longrightarrow> e \<le> hi \<Longrightarrow>
   lo \<le> max lo (int_trunc (of_int e * DECREASE_FACTOR)) \<and> max lo (int_trunc (of_int e * DECREASE_FACTOR)) \<le> hi"
proof -
  assume a: "0 \<le> lo" "lo \<le> hi" "lo \<le> e" "e \<le> hi"
  then have "int_trunc (of_int e * DECREASE_FACTOR) = e div 2"
    using int_trunc_half [of e] by (simp add: DECREASE_FACTOR_def)
  with a show ?thesis by auto
qed

lemma failure_move_inv: "lim_inv now l \<Longrightarrow> lim_inv now (snd (failure_move env t ra l))"
  using halved_bounds [of "l_floor l" "l_ceil l" "l_effective l"]
  by (auto simp: failure_move_def lim_inv_def lim_sane_def Let_def sem_set_limit_def br_inv_record
      split: option.splits)

lemma record_success_inv: "lim_inv now l \<Longrightarrow> lim_inv now (snd (record_success env h w l))"
  by (auto simp: record_success_def Let_def split: prod.splits
      intro!: sync_headers_inv dest: success_move_inv [of now l "lw_now w"])

lemma record_failure_inv: "lim_inv now l \<Longrightarrow> lim_inv now (snd (record_failure env ra h w l))"
  by (auto simp: record_failure_def Let_def split: prod.splits
      intro!: sync_headers_inv dest: failure_move_inv [of now l env "lw_now w" ra])

lemma adopt_restored_ok: "bucket_ok now b \<Longrightarrow> bucket_ok now (adopt_restored v b)"
  using bucket_ok_adopt by (auto simp: adopt_restored_def split: option.splits)

lemma lim_restore_inv: "lim_inv now l \<Longrightarrow> lim_inv now (snd (lim_restore env t row l))"
  using clamp_bounds [of "l_floor l" "l_ceil l"]
  by (auto simp: lim_restore_def lim_inv_def lim_sane_def Let_def sem_set_limit_def adopt_restored_ok
      split: option.splits)

lemma lim_release_inv: "lim_inv now l \<Longrightarrow> lim_inv now (lim_release l)"
  by (auto simp: lim_release_def lim_inv_def lim_sane_def sem_release_def)

lemma park_inv: "lim_inv now (park_provider_day t r l) = lim_inv now l"
  by (simp add: park_provider_day_def observe_frame)

lemma persist_inv: "lim_inv now (snd (persist_rpd_if_due force w l)) = lim_inv now l"
  by (simp add: persist_rpd_if_due_def lim_inv_def lim_sane_def Let_def)

lemma lw_now_save [simp]: "lw_now (lim_save w l) = lw_now w"
  by (simp add: lim_save_def)

lemma lw_now_persist [simp]: "lw_now (fst (persist_rpd_if_due force w l)) = lw_now w"
  by (simp add: persist_rpd_if_due_def Let_def)

section \<open>Admission keeps the invariant\<close>

abbreviation env_ok :: "sys_env \<Rightarrow> bool" where
  "env_ok env \<equiv> sleep_ok (wake env)"

lemma tb_acquire_ok:
  assumes "tb_acquire (wake env) n block now b = Some (ok, now', b')"
    and "env_ok env" "tb_wf b" "tb_ts b \<le> now" "0 \<le> n"
  shows "now \<le> now' \<and> tb_wf b' \<and> tb_ts b' = now'"
proof -
  let ?m = "min n (tb_capacity b)"
  have m: "0 \<le> ?m" using assms(3,5) by (auto simp: tb_wf_def)
  have o: "tb_outcome block ?m now b (ok, now', b')"
    using assms by (intro tb_acquire_loop_outcome) (auto simp: tb_acquire_def)
  then have "now \<le> now'" by (simp add: tb_outcome_def)
  then have "tb_wf (tb_refill_locked now' b)" using assms(3,4) by (intro tb_wf_refill) auto
  then show ?thesis using o m by (cases ok) (auto simp: tb_outcome_def Let_def tb_wf_def)
qed

lemma admit_rpm_inv:
  assumes "admit_rpm env block now l = Some (r, now', l')" "env_ok env" "lim_inv now l"
  shows "now \<le> now' \<and> lim_inv now' l'"
proof (cases "l_rpm l")
  case None
  then show ?thesis using assms by (simp add: admit_rpm_def)
next
  case (Some b)
  then obtain ok b' where a: "tb_acquire (wake env) 1 block now b = Some (ok, now', b')"
    and l': "l' = l\<lparr>l_rpm := Some b'\<rparr>" using assms(1) by (auto simp: admit_rpm_def)
  have "now \<le> now' \<and> tb_wf b' \<and> tb_ts b' = now'"
    using assms(2,3) Some by (intro tb_acquire_ok [OF a]) (auto simp: lim_inv_def)
  then show ?thesis using assms(3) l' by (auto simp: lim_inv_def lim_sane_def intro: bucket_ok_mono)
qed

lemma admit_tpm_inv:
  assumes "admit_tpm env est block now l = Some (r, now', l')" "env_ok env" "lim_inv now l"
  shows "now \<le> now' \<and> lim_inv now' l'"
proof (cases "l_tpm l = None \<or> est \<le> 0")
  case True
  then show ?thesis using assms by (auto simp: admit_tpm_def split: option.splits)
next
  case False
  then obtain b where b: "l_tpm l = Some b" by auto
  then obtain ok b' where a: "tb_acquire (wake env) est block now b = Some (ok, now', b')"
    and l': "l' = (if ok then l\<lparr>l_tpm := Some b'\<rparr>
                   else l\<lparr>l_tpm := Some b', l_rpm := map_option (tb_refund 1) (l_rpm l)\<rparr>)"
    using assms(1) False by (auto simp: admit_tpm_def split: if_splits)
  have t: "now \<le> now' \<and> tb_wf b' \<and> tb_ts b' = now'"
    using assms(2,3) b False by (intro tb_acquire_ok [OF a]) (auto simp: lim_inv_def)
  have "bucket_ok now' (map_option (tb_refund 1) (l_rpm l))"
    using assms(3) t by (intro bucket_ok_refund) (auto simp: lim_inv_def intro: bucket_ok_mono)
  then show ?thesis using assms(3) l' t by (auto simp: lim_inv_def lim_sane_def intro: bucket_ok_mono)
qed

lemma refund_rate_inv: "lim_inv now l \<Longrightarrow> lim_inv now (refund_rate est l)"
  by (auto simp: refund_rate_def lim_inv_def lim_sane_def intro: bucket_ok_refund)

lemma admit_daily_inv: "lim_inv now l \<Longrightarrow> lim_inv now (snd (admit_daily env est now l))"
proof -
  assume inv: "lim_inv now l"
  have "lim_inv now (l\<lparr>l_day := d, l_day_count := 0\<rparr>)" for d
    using inv by (simp add: lim_inv_def lim_sane_def)
  then show ?thesis using inv refund_rate_inv
    by (auto simp: admit_daily_def Let_def lim_inv_def lim_sane_def split: option.splits)
qed

lemma admit_rate_inv:
  assumes "admit_rate env est block now l = Some (r, now', l')" "env_ok env" "lim_inv now l"
  shows "now \<le> now' \<and> lim_inv now' l'"
proof -
  obtain r1 t1 l1 where 1: "admit_rpm env block now l = Some (r1, t1, l1)"
    using assms(1) by (auto simp: admit_rate_def split: option.splits)
  note i1 = admit_rpm_inv [OF 1 assms(2,3)]
  show ?thesis
  proof (cases r1)
    case (Some x)
    then show ?thesis using assms(1) 1 i1 by (auto simp: admit_rate_def)
  next
    case None
    obtain r2 t2 l2 where 2: "admit_tpm env est block t1 l1 = Some (r2, t2, l2)"
      using assms(1) 1 None by (auto simp: admit_rate_def split: option.splits)
    note i2 = admit_tpm_inv [OF 2 assms(2), OF i1 [THEN conjunct2]]
    then show ?thesis
      using assms(1) 1 2 None i1 admit_daily_inv [of t2 l2 env est]
      by (auto simp: admit_rate_def split: option.splits prod.splits)
  qed
qed


lemma breaker_poll: "min 1 (max (1 / 20) (BREAKER_COOLDOWN_S / 10)) = 1"
  by (simp add: BREAKER_COOLDOWN_S_def)

lemma wait_for_breaker_loop_returns:
  assumes "env_ok env" "br_inv b"
  shows "\<exists>a t b'. wait_for_breaker_loop env deadline now b = Some (a, t, b') \<and> now \<le> t \<and> br_inv b' \<and>
     (\<not> a \<longrightarrow> deadline \<le> t)"
  using assms
proof (induction "nat \<lceil>deadline - now\<rceil>" arbitrary: now b rule: less_induct)
  case less
  show ?case
  proof (cases "now < deadline")
    case False
    then show ?thesis using less.prems by (subst wait_for_breaker_loop.simps) auto
  next
    case True
    define t where "t = wake env now 1"
    have t: "now + 1 \<le> t" using less.prems(1) by (simp add: sleep_ok_def t_def)
    have inv: "br_inv (snd (br_allow t b))" using less.prems(2) by (rule br_inv_allow)
    have unfold: "wait_for_breaker_loop env deadline now b =
      (if fst (br_allow t b) then Some (True, t, snd (br_allow t b))
       else wait_for_breaker_loop env deadline t (snd (br_allow t b)))"
      using True by (subst wait_for_breaker_loop.simps) (simp add: Let_def breaker_poll t_def)
    show ?thesis
    proof (cases "fst (br_allow t b)")
      case True
      then show ?thesis using unfold inv t by auto
    next
      case False
      have "nat \<lceil>deadline - t\<rceil> < nat \<lceil>deadline - now\<rceil>" using t True by (simp add: nat_less_iff) linarith
      then obtain a u b' where "wait_for_breaker_loop env deadline t (snd (br_allow t b)) = Some (a, u, b')"
        "t \<le> u" "br_inv b'" "\<not> a \<longrightarrow> deadline \<le> u"
        using less.hyps less.prems(1) inv by blast
      then show ?thesis using False unfold t by auto
    qed
  qed
qed

lemma breaker_check_ok:
  assumes "breaker_check env block now b = Some (a, t, b')" "env_ok env" "br_inv b"
  shows "now \<le> t \<and> br_inv b'"
proof (cases "fst (br_allow now b) \<or> \<not> block")
  case True
  then show ?thesis using assms br_inv_allow [of b now]
    by (auto simp: breaker_check_def split: prod.splits if_splits)
next
  case False
  then have "wait_for_breaker_loop env (now + BREAKER_WAIT_MAX_S) now (snd (br_allow now b)) = Some (a, t, b')"
    using assms(1) by (auto simp: breaker_check_def wait_for_breaker_def split: prod.splits if_splits)
  then show ?thesis
    using wait_for_breaker_loop_returns [OF assms(2) br_inv_allow [OF assms(3), of now],
        of "now + BREAKER_WAIT_MAX_S" now] by auto
qed

lemma honor_retry_after_ok:
  "honor_retry_after env block now l = (ok, t) \<Longrightarrow> env_ok env \<Longrightarrow> now \<le> t"
  using sleep_ok_advances [of "wake env" "min (l_not_before l - now) RETRY_AFTER_MAX_S" now]
  by (auto simp: honor_retry_after_def Let_def RETRY_AFTER_MAX_S_def split: if_splits)

lemma sem_check_ok:
  "sem_check block s = Some (slot, s') \<Longrightarrow> sem_limit s' = sem_limit s \<and>
   (if slot then sem_held s < sem_limit s \<and> sem_held s' = sem_held s + 1 else s' = s \<and> \<not> block)"
  by (auto simp: sem_check_def sem_acquire_def sem_try_acquire_def split: if_splits)

lemma admit_finish_inv:
  assumes "admit_finish env est block w l = Some (d, w', l')" "env_ok env" "lim_inv (lw_now w) l"
  shows "lw_now w \<le> lw_now w' \<and> lim_inv (lw_now w') l'"
proof (cases "pl_kind (l_spec l) = Rate")
  case True
  obtain r t l1 where a: "admit_rate env est block (lw_now w) l = Some (r, t, l1)"
    using assms(1) True by (auto simp: admit_finish_def split: option.splits)
  note i = admit_rate_inv [OF a assms(2,3)]
  show ?thesis
  proof (cases r)
    case None
    then have "(w', l') = persist_rpd_if_due False (w\<lparr>lw_now := t\<rparr>) l1"
      using assms(1) a True by (auto simp: admit_finish_def)
    then show ?thesis using i persist_inv lw_now_persist by (metis fst_conv lim_world.select_convs(1)
          lim_world.surjective lim_world.update_convs(1) snd_conv)
  next
    case (Some x)
    then show ?thesis using assms(1) a True i
      by (auto simp: admit_finish_def lim_inv_def lim_sane_def sem_release_def br_inv_release_probe)
  qed
next
  case False
  then have "(w', l') = persist_rpd_if_due False w l" using assms(1) by (auto simp: admit_finish_def)
  then show ?thesis using assms(3) persist_inv lw_now_persist by (metis fst_conv order_refl snd_conv)
qed

text \<open>
  The stages of an admission, for case analysis: it ends at the first gate that refuses, or in
  the bucket stages.
\<close>

lemma admit_cases:
  assumes "admit env est block w l = Some (d, w', l')"
  obtains
    (retry) t where "honor_retry_after env block (lw_now w) l = (False, t)" "w' = w" "l' = l"
      "ld_reason d = Some RETRY_AFTER" "\<not> ld_admitted d"
  | (family) t g where "honor_retry_after env block (lw_now w) l = (True, t)"
      "family_check env t w l = (False, g)" "d = ld_refuse FAMILY_GATE"
      "w' = w\<lparr>lw_now := t, lw_gate := g\<rparr>" "l' = l"
  | (breaker) t g t2 b where "honor_retry_after env block (lw_now w) l = (True, t)"
      "family_check env t w l = (True, g)" "breaker_check env block t (l_breaker l) = Some (False, t2, b)"
      "d = ld_refuse BREAKER" "w' = w\<lparr>lw_gate := g, lw_now := t2\<rparr>" "l' = l\<lparr>l_breaker := b\<rparr>"
  | (slot) t g t2 b s where "honor_retry_after env block (lw_now w) l = (True, t)"
      "family_check env t w l = (True, g)" "breaker_check env block t (l_breaker l) = Some (True, t2, b)"
      "sem_check block (l_sem l) = Some (False, s)" "d = ld_refuse CONCURRENCY"
      "w' = w\<lparr>lw_gate := g, lw_now := t2\<rparr>" "l' = l\<lparr>l_breaker := br_release_probe b\<rparr>"
  | (finish) t g t2 b s where "honor_retry_after env block (lw_now w) l = (True, t)"
      "family_check env t w l = (True, g)" "breaker_check env block t (l_breaker l) = Some (True, t2, b)"
      "sem_check block (l_sem l) = Some (True, s)"
      "admit_finish env est block (w\<lparr>lw_gate := g, lw_now := t2\<rparr>) (l\<lparr>l_breaker := b, l_sem := s\<rparr>) =
        Some (d, w', l')"
  using assms unfolding admit_def
  by (cases "honor_retry_after env block (lw_now w) l")
    (auto simp: Let_def ld_refuse_def split: prod.splits option.splits if_splits)

lemma admit_inv:
  assumes "admit env est block w l = Some (d, w', l')" "env_ok env" "lim_inv (lw_now w) l"
  shows "lw_now w \<le> lw_now w' \<and> lim_inv (lw_now w') l'"
  using assms(1)
proof (cases rule: admit_cases)
  case retry
  then show ?thesis using assms(3) by simp
next
  case family
  then show ?thesis using assms(3) honor_retry_after_ok [OF family(1) assms(2)] lim_inv_mono by auto
next
  case (breaker t g t2 b)
  then have "t \<le> t2 \<and> br_inv b" using assms(2,3) by (intro breaker_check_ok) (auto simp: lim_inv_def)
  moreover have "lw_now w \<le> t" using breaker(1) assms(2) by (rule honor_retry_after_ok)
  ultimately show ?thesis using breaker assms(3) lim_inv_mono [of "lw_now w" l t2]
    by (auto simp: lim_inv_def lim_sane_def)
next
  case (slot t g t2 b s)
  then have "t \<le> t2 \<and> br_inv b" using assms(2,3) by (intro breaker_check_ok) (auto simp: lim_inv_def)
  moreover have "lw_now w \<le> t" using slot(1) assms(2) by (rule honor_retry_after_ok)
  ultimately show ?thesis using slot assms(3) lim_inv_mono [of "lw_now w" l t2] br_inv_release_probe
    by (auto simp: lim_inv_def lim_sane_def)
next
  case (finish t g t2 b s)
  then have b: "t \<le> t2 \<and> br_inv b" using assms(2,3) by (intro breaker_check_ok) (auto simp: lim_inv_def)
  moreover have t: "lw_now w \<le> t" using finish(1) assms(2) by (rule honor_retry_after_ok)
  ultimately have "lim_inv t2 (l\<lparr>l_breaker := b, l_sem := s\<rparr>)"
    using assms(3) lim_inv_mono [of "lw_now w" l t2] sem_check_ok [OF finish(4)]
    by (auto simp: lim_inv_def lim_sane_def)
  then show ?thesis using admit_finish_inv [OF finish(5) assms(2)] b t by auto
qed

section \<open>The limiter as a transition system\<close>

datatype lim_event =
    EvAdmit rat bool | EvRelease | EvSuccess headers | EvFailure "header_value option" headers
  | EvPark rat | EvRestore "ctl_row option" | EvFlush | EvElapse rat

fun lim_exec :: "sys_env \<Rightarrow> lim_event \<Rightarrow> lim_world \<times> limiter \<Rightarrow> (bool \<times> lim_world \<times> limiter) option" where
  "lim_exec env (EvAdmit est block) (w, l) = acquire env est block w l"
| "lim_exec env EvRelease (w, l) = Some (False, w, lim_release l)"
| "lim_exec env (EvSuccess h) (w, l) = Some (False, record_success env h w l)"
| "lim_exec env (EvFailure ra h) (w, l) = Some (False, record_failure env ra h w l)"
| "lim_exec env (EvPark r) (w, l) = Some (False, w, park_provider_day (lw_now w) r l)"
| "lim_exec env (EvRestore row) (w, l) = Some (False, w, snd (lim_restore env (lw_now w) row l))"
| "lim_exec env EvFlush (w, l) = Some (False, flush_rpd w l)"
| "lim_exec env (EvElapse d) (w, l) = Some (False, w\<lparr>lw_now := lw_now w + max 0 d\<rparr>, l)"

inductive lim_step :: "sys_env \<Rightarrow> lim_world \<times> limiter \<Rightarrow> lim_world \<times> limiter \<Rightarrow> bool" for env where
  event: "lim_exec env e s = Some (a, s') \<Longrightarrow> lim_step env s s'"

definition lim_good :: "sys_env \<Rightarrow> lim_world \<times> limiter \<Rightarrow> bool" where
  "lim_good env s \<longleftrightarrow> env_ok env \<and> lim_inv (lw_now (fst s)) (snd s)"

lemma lw_now_success [simp]: "lw_now (fst (record_success env h w l)) = lw_now w"
  by (simp add: record_success_def Let_def split: prod.splits)

lemma lw_now_failure [simp]: "lw_now (fst (record_failure env ra h w l)) = lw_now w"
  by (simp add: record_failure_def Let_def split: prod.splits option.splits list.splits)

lemma lim_exec_good:
  assumes "lim_exec env e (w, l) = Some (a, w', l')" "env_ok env" "lim_inv (lw_now w) l"
  shows "lw_now w \<le> lw_now w' \<and> lim_inv (lw_now w') l'"
proof (cases e)
  case (EvAdmit est block)
  then show ?thesis using assms admit_inv by (fastforce simp: acquire_def)
next
  case (EvSuccess h)
  then have "(w', l') = record_success env h w l" using assms(1) by simp
  then show ?thesis using record_success_inv [OF assms(3)] lw_now_success by (metis fst_conv order_refl snd_conv)
next
  case (EvFailure ra h)
  then have "(w', l') = record_failure env ra h w l" using assms(1) by simp
  then show ?thesis using record_failure_inv [OF assms(3)] lw_now_failure by (metis fst_conv order_refl snd_conv)
next
  case EvFlush
  then have "(w', l') = persist_rpd_if_due True w l" using assms(1) by (simp add: flush_rpd_def)
  then show ?thesis using assms(3) persist_inv lw_now_persist by (metis fst_conv order_refl snd_conv)
next
  case (EvElapse d)
  then show ?thesis using assms lim_inv_mono [of "lw_now w" l] by auto
qed (use assms lim_release_inv park_inv lim_restore_inv in auto)

interpretation limiter_steps: step_invariant "lim_step env" "lim_good env" for env
proof
  show "lim_step env s t \<Longrightarrow> lim_good env s \<Longrightarrow> lim_good env t" for s t
    using lim_exec_good by (cases s; cases t) (auto simp: lim_good_def elim!: lim_step.cases)
qed

text \<open>
  C7. The controller stays inside its bounds: from construction through any interleaving of
  admissions (blocking or not), releases, successes, failures, header syncs, parked days,
  restores from arbitrary durable rows and elapsing time, the effective limit lies between the
  configured floor and ceiling, the semaphore enforces exactly it, no slot count is negative,
  both buckets stay between zero and their capacity, and the breaker's flags are consistent.
\<close>

theorem limiter_always_within_bounds:
  assumes "(lim_step env)\<^sup>*\<^sup>* (w, lim_init env (lw_now w) name spec) (w', l)"
    and "sleep_ok (wake env)" "0 \<le> pl_min spec"
    and "\<forall>n. pl_rpm spec = Some n \<or> pl_tpm spec = Some n \<longrightarrow> 0 \<le> n"
  shows "l_floor l \<le> l_effective l \<and> l_effective l \<le> l_ceil l \<and> sem_limit (l_sem l) = l_effective l \<and>
    0 \<le> sem_held (l_sem l) \<and> br_inv (l_breaker l) \<and>
    (\<forall>b. l_rpm l = Some b \<or> l_tpm l = Some b \<longrightarrow> 0 \<le> tb_tokens b \<and> tb_tokens b \<le> tb_capacity b)"
proof -
  have "lim_good env (w, lim_init env (lw_now w) name spec)"
    using assms lim_inv_init by (auto simp: lim_good_def)
  with assms(1) have "lim_good env (w', l)" by (rule limiter_steps.run_keeps)
  then show ?thesis by (auto simp: lim_good_def lim_inv_def tb_wf_def)
qed


theorem limiter_always_within_bounds_witness:
  fixes env :: sys_env and w :: lim_world
  defines "env \<equiv> \<lparr>wake = exact_sleep, utc_day = (\<lambda>_. ''d''), utc_iso = (\<lambda>_. ''i''), wall_clock = (\<lambda>t. t),
      float_of = (\<lambda>_. None)\<rparr>"
    and "w \<equiv> \<lparr>lw_now = 5, lw_gate = fg_init, lw_store = None\<rparr>"
  shows "1 \<le> l_effective (snd (record_failure env None [] w (lim_init env 5 ''x'' (provider_limit_default Rate))))"
proof -
  let ?l = "lim_init env (lw_now w) ''x'' (provider_limit_default Rate)"
  let ?r = "record_failure env None [] w ?l"
  have "lim_step env (w, ?l) (fst ?r, snd ?r)"
    by (rule lim_step.event [where e = "EvFailure None []" and a = False]) simp
  then have run: "(lim_step env)\<^sup>*\<^sup>* (w, ?l) (fst ?r, snd ?r)" by blast
  have "l_floor (snd ?r) = 1"
    by (simp add: record_failure_def failure_move_def sync_headers_def lim_init_def provider_limit_default_def
        parse_retry_after_def Let_def)
  moreover have "l_floor (snd ?r) \<le> l_effective (snd ?r)"
    using limiter_always_within_bounds [OF run]
    by (auto simp: env_def sleep_ok_def exact_sleep_def provider_limit_default_def)
  ultimately show ?thesis by (simp add: w_def)
qed

section \<open>A refused admission leaks nothing\<close>

text \<open>Two limiters agree at an instant if their buckets do once brought up to date there.\<close>

definition same_rates :: "sys_env \<Rightarrow> instant \<Rightarrow> limiter \<Rightarrow> limiter \<Rightarrow> bool" where
  "same_rates env now l l' \<longleftrightarrow>
     map_option (tb_refill_locked now) (l_rpm l') = map_option (tb_refill_locked now) (l_rpm l) \<and>
     map_option (tb_refill_locked now) (l_tpm l') = map_option (tb_refill_locked now) (l_tpm l) \<and>
     used_today env now l' = used_today env now l"

lemma tb_refill_idem: "tb_wf b \<Longrightarrow> tb_ts b \<le> now \<Longrightarrow>
   tb_refill_locked now (tb_refill_locked now b) = tb_refill_locked now b"
  by (intro tb_refill_refill) (auto simp: tb_wf_def)

lemma take_give: "tb_wf b \<Longrightarrow> tb_ts b \<le> now \<Longrightarrow> 0 \<le> n \<Longrightarrow> fst (tb_take n now b) \<Longrightarrow>
   tb_refund n (snd (tb_take n now b)) = tb_refill_locked now b"
  by (intro bucket.given_back) (auto simp: prod_eq_iff)

lemma take_refused: "tb_wf b \<Longrightarrow> tb_ts b \<le> now \<Longrightarrow> \<not> fst (tb_take n now b) \<Longrightarrow>
   snd (tb_take n now b) = tb_refill_locked now b"
  by (intro bucket.refused) (auto simp: prod_eq_iff)

text \<open>The bucket taken by the rpm stage, and by the tpm stage, as one-bucket facts.\<close>

definition opt_taken :: "rat \<Rightarrow> instant \<Rightarrow> token_bucket option \<Rightarrow> token_bucket option \<Rightarrow> bool" where
  "opt_taken n now b b' \<longleftrightarrow> bucket_ok now b \<and>
     (case b of None \<Rightarrow> b' = None | Some x \<Rightarrow> fst (tb_take n now x) \<and> b' = Some (snd (tb_take n now x)))"

lemma opt_taken_refund:
  "opt_taken n now b b' \<Longrightarrow> 0 \<le> n \<Longrightarrow>
   map_option (tb_refill_locked now) (map_option (tb_refund n) b') = map_option (tb_refill_locked now) b"
  by (auto simp: opt_taken_def take_give tb_refill_idem split: option.splits)

text \<open>The fields no bucket stage writes.\<close>

definition lim_frame :: "limiter \<Rightarrow> limiter \<Rightarrow> bool" where
  "lim_frame l l' \<longleftrightarrow> l_sem l' = l_sem l \<and> l_breaker l' = l_breaker l \<and> l_day l' = l_day l \<and>
     l_day_count l' = l_day_count l \<and> l_spec l' = l_spec l"

lemma admit_rpm_nonblock:
  assumes "admit_rpm env False now l = Some (r, now', l')" "bucket_ok now (l_rpm l)"
  shows "now' = now \<and> lim_frame l l' \<and> l_tpm l' = l_tpm l \<and>
    (if r = None then opt_taken 1 now (l_rpm l) (l_rpm l')
     else map_option (tb_refill_locked now) (l_rpm l') = map_option (tb_refill_locked now) (l_rpm l))"
proof (cases "l_rpm l")
  case None
  then show ?thesis using assms by (auto simp: admit_rpm_def opt_taken_def lim_frame_def)
next
  case (Some b)
  define k where "k = tb_take 1 now b"
  have eq: "r = (if fst k then None else Some RPM)" "now' = now" "l' = l\<lparr>l_rpm := Some (snd k)\<rparr>"
    using assms(1) Some by (auto simp: admit_rpm_def tb_acquire_take k_def)
  show ?thesis using assms(2) Some take_refused [of b now 1] tb_refill_idem [of b now]
    by (simp add: eq opt_taken_def lim_frame_def k_def)
qed

lemma admit_tpm_nonblock:
  assumes "admit_tpm env est False now l = Some (r, now', l')" "bucket_ok now (l_tpm l)"
  shows "now' = now \<and> lim_frame l l' \<and>
    (if r = None then l_rpm l' = l_rpm l \<and>
        (if 0 < est then opt_taken est now (l_tpm l) (l_tpm l') else l_tpm l' = l_tpm l)
     else l_rpm l' = map_option (tb_refund 1) (l_rpm l) \<and>
        map_option (tb_refill_locked now) (l_tpm l') = map_option (tb_refill_locked now) (l_tpm l))"
proof (cases "l_tpm l = None \<or> est \<le> 0")
  case True
  then have "r = None" "now' = now" "l' = l" using assms(1) by (auto simp: admit_tpm_def split: option.splits)
  then show ?thesis using True by (auto simp: opt_taken_def lim_frame_def)
next
  case False
  then obtain b where b: "l_tpm l = Some b" by auto
  define k where "k = tb_take est now b"
  have eq: "now' = now" "r = (if fst k then None else Some TPM)"
    "l' = (if fst k then l\<lparr>l_tpm := Some (snd k)\<rparr>
           else l\<lparr>l_tpm := Some (snd k), l_rpm := map_option (tb_refund 1) (l_rpm l)\<rparr>)"
    using assms(1) False b by (auto simp: admit_tpm_def tb_acquire_take k_def split: if_splits)
  show ?thesis using assms(2) False b take_refused [of b now est] tb_refill_idem [of b now]
    by (simp add: eq opt_taken_def lim_frame_def k_def)
qed

lemma admit_daily_refused:
  assumes "admit_daily env est now l = (Some r, l')"
  shows "l_sem l' = l_sem l \<and> l_breaker l' = l_breaker l \<and> used_today env now l' = used_today env now l \<and>
    l_rpm l' = map_option (tb_refund 1) (l_rpm l) \<and>
    l_tpm l' = (if 0 < est then map_option (tb_refund est) (l_tpm l) else l_tpm l)"
  using assms by (auto simp: admit_daily_def refund_rate_def Let_def used_today_def split: if_splits option.splits)

lemma admit_rate_refused:
  assumes "admit_rate env est False now l = Some (Some r, now', l')"
    and "bucket_ok now (l_rpm l)" "bucket_ok now (l_tpm l)"
  shows "now' = now \<and> same_rates env now l l' \<and> l_sem l' = l_sem l \<and> l_breaker l' = l_breaker l"
proof -
  obtain r1 t1 l1 where 1: "admit_rpm env False now l = Some (r1, t1, l1)"
    using assms(1) by (auto simp: admit_rate_def split: option.splits)
  note f1 = admit_rpm_nonblock [OF 1 assms(2)]
  show ?thesis
  proof (cases r1)
    case (Some x)
    then have "l' = l1" "now' = t1" using assms(1) 1 by (auto simp: admit_rate_def)
    then show ?thesis using f1 Some by (simp add: same_rates_def used_today_def lim_frame_def)
  next
    case None
    then have tk: "opt_taken 1 now (l_rpm l) (l_rpm l1)" and t1: "t1 = now" using f1 by auto
    obtain r2 t2 l2 where 2: "admit_tpm env est False now l1 = Some (r2, t2, l2)"
      using assms(1) 1 None t1 by (auto simp: admit_rate_def split: option.splits)
    have "bucket_ok now (l_tpm l1)" using assms(3) f1 by simp
    note f2 = admit_tpm_nonblock [OF 2 this]
    show ?thesis
    proof (cases r2)
      case (Some x)
      then have "l' = l2" "now' = t2" using assms(1) 1 2 None t1 by (auto simp: admit_rate_def)
      then show ?thesis using f1 f2 Some opt_taken_refund [OF tk]
        by (simp add: same_rates_def used_today_def lim_frame_def)
    next
      case r2: None
      have "t2 = now" using f2 by simp
      then have a: "admit_daily env est now l2 = (Some r, l')" "now' = now"
        using assms(1) 1 2 None t1 r2 by (auto simp: admit_rate_def split: prod.splits)
      note d = admit_daily_refused [OF a(1)]
      have "map_option (tb_refill_locked now) (l_tpm l') = map_option (tb_refill_locked now) (l_tpm l)"
        using d f1 f2 r2 opt_taken_refund [of est now "l_tpm l" "l_tpm l2"] by (simp split: if_splits)
      moreover have "used_today env now l2 = used_today env now l"
        using f1 f2 by (simp add: used_today_def lim_frame_def)
      ultimately show ?thesis using d a(2) f1 f2 r2 opt_taken_refund [OF tk]
        by (simp add: same_rates_def lim_frame_def)
    qed
  qed
qed

definition same_breaker :: "breaker \<Rightarrow> breaker \<Rightarrow> bool" where
  "same_breaker b b' \<longleftrightarrow> br_opened_at b' = br_opened_at b \<and>
     br_probe_in_flight b' = br_probe_in_flight b \<and> br_outcomes b' = br_outcomes b"

lemma breaker_check_nonblock:
  "breaker_check env False t b = Some (a, t2, b') \<Longrightarrow> br_inv b \<Longrightarrow>
   t2 = t \<and> (if a then same_breaker b (br_release_probe b') else b' = b)"
  by (auto simp: breaker_check_def br_allow_def br_release_probe_def same_breaker_def br_inv_def br_is_open_def
      split: if_splits option.splits)

lemma honor_nonblock: "honor_retry_after env False now l = (True, t) \<Longrightarrow> t = now"
  by (auto simp: honor_retry_after_def Let_def split: if_splits)

lemma same_rates_frame:
  "l_rpm l' = l_rpm l \<Longrightarrow> l_tpm l' = l_tpm l \<Longrightarrow> l_day l' = l_day l \<Longrightarrow> l_day_count l' = l_day_count l \<Longrightarrow>
   same_rates env now l l'"
  by (simp add: same_rates_def used_today_def)

text \<open>
  C4. Refusals leak nothing: whichever gate refuses a non-blocking admission, afterwards no
  concurrency slot is held for it, both rate buckets hold what they would have held without the
  call, the number of dispatches charged to today's budget is unchanged, the breaker is as open
  as before, its window is unchanged and its probe slot is as taken as before.
\<close>

theorem admit_refused_no_leak:
  assumes "admit env est False w l = Some (d, w', l')" "\<not> ld_admitted d" "lim_inv (lw_now w) l"
  shows "lw_now w' = lw_now w \<and> l_sem l' = l_sem l \<and> same_rates env (lw_now w) l l' \<and>
    same_breaker (l_breaker l) (l_breaker l')"
proof -
  have inv: "br_inv (l_breaker l)" using assms(3) by (simp add: lim_inv_def)
  from assms(1) show ?thesis
  proof (cases rule: admit_cases)
    case retry
    then show ?thesis by (simp add: same_rates_frame same_breaker_def)
  next
    case family
    then show ?thesis using honor_nonblock [OF family(1)] by (simp add: same_rates_frame same_breaker_def)
  next
    case (breaker t g t2 b)
    then show ?thesis using honor_nonblock [OF breaker(1)] breaker_check_nonblock [OF breaker(3) inv]
      by (simp add: same_rates_frame same_breaker_def)
  next
    case (slot t g t2 b s)
    then show ?thesis using honor_nonblock [OF slot(1)] breaker_check_nonblock [OF slot(3) inv]
      by (simp add: same_rates_frame)
  next
    case (finish t g t2 b s)
    have t: "t2 = lw_now w" and b: "same_breaker (l_breaker l) (br_release_probe b)"
      using honor_nonblock [OF finish(1)] breaker_check_nonblock [OF finish(3) inv] by auto
    have s: "sem_release s = l_sem l" using sem_check_ok [OF finish(4)] assms(3)
      by (cases s; cases "l_sem l") (auto simp: sem_release_def lim_inv_def)
    show ?thesis
    proof (cases "pl_kind (l_spec l) = Rate")
      case True
      obtain r now' l1 where a: "admit_rate env est False t2 (l\<lparr>l_breaker := b, l_sem := s\<rparr>) = Some (Some r, now', l1)"
        and w': "w' = w\<lparr>lw_gate := g, lw_now := now'\<rparr>"
        and l': "l' = l1\<lparr>l_sem := sem_release (l_sem l1), l_breaker := br_release_probe (l_breaker l1)\<rparr>"
        using finish(5) True assms(2) by (auto simp: admit_finish_def ld_admit_def split: option.splits)
      have "now' = t2 \<and> same_rates env t2 (l\<lparr>l_breaker := b, l_sem := s\<rparr>) l1 \<and> l_sem l1 = s \<and> l_breaker l1 = b"
        using admit_rate_refused [OF a] assms(3) t by (auto simp: lim_inv_def)
      moreover have "used_today env t2 (l\<lparr>l_breaker := b, l_sem := s\<rparr>) = used_today env t2 l"
        by (simp add: used_today_def)
      moreover have "used_today env t2 l' = used_today env t2 l1" by (simp add: used_today_def l')
      ultimately show ?thesis using w' l' t s b by (simp add: same_rates_def)
    next
      case False
      then show ?thesis using finish(5) assms(2) by (auto simp: admit_finish_def ld_admit_def)
    qed
  qed
qed


definition demo_env :: sys_env where
  "demo_env = \<lparr>wake = exact_sleep, utc_day = (\<lambda>t. if t < 86400 then ''d1'' else ''d2''), utc_iso = (\<lambda>_. ''iso''),
     wall_clock = (\<lambda>t. t), float_of = (\<lambda>s. if s = ''0'' then Some 0 else None)\<rparr>"

definition demo_world :: lim_world where
  "demo_world = \<lparr>lw_now = 5, lw_gate = fg_init, lw_store = None\<rparr>"

definition demo_spec :: provider_limit where
  "demo_spec = (provider_limit_default Rate)\<lparr>pl_rpm := Some 60, pl_tpm := Some 1000, pl_rpd := Some 2,
     pl_use_headers := True\<rparr>"

lemma demo_env_ok: "sleep_ok (wake demo_env)"
  by (simp add: demo_env_def sleep_ok_def exact_sleep_def)

lemma demo_inv: "lim_inv 5 (lim_init demo_env 5 name demo_spec)"
  by (rule lim_inv_init) (auto simp: demo_spec_def provider_limit_default_def)

theorem admit_refused_no_leak_witness:
  "\<exists>w' l'. admit demo_env 5000 False demo_world
      ((lim_init demo_env 5 ''x'' demo_spec)\<lparr>l_day_count := 2\<rparr>) = Some (ld_refuse RPD, w', l') \<and>
    l_sem l' = l_sem (lim_init demo_env 5 ''x'' demo_spec)"
proof -
  let ?l = "(lim_init demo_env 5 ''x'' demo_spec)\<lparr>l_day_count := 2\<rparr>"
  have "lim_inv (lw_now demo_world) ?l" using demo_inv [of "''x''"] by (simp add: lim_inv_def lim_sane_def demo_world_def)
  moreover obtain w' l' where a: "admit demo_env 5000 False demo_world ?l = Some (ld_refuse RPD, w', l')"
    by (simp add: admit_def honor_retry_after_def family_check_def breaker_check_def sem_check_def admit_finish_def
        admit_rate_def admit_rpm_def admit_tpm_def admit_daily_def lim_init_def demo_spec_def provider_limit_default_def
        demo_world_def demo_env_def or_int_def truthy_int_def tb_init_def tb_acquire_nonblock tb_refill_locked_def
        Let_def br_allow_def br_init_def sem_init_def sem_try_acquire_def provider_rpd_exhausted_def)
  ultimately show ?thesis
    using admit_refused_no_leak [OF a] by (auto simp: ld_refuse_def)
qed

section \<open>What an admission charges\<close>

lemma admit_daily_admitted:
  assumes "admit_daily env est now l = (None, l')" "pl_rpd (l_spec l) = Some rpd" "rpd \<noteq> 0"
  shows "used_today env now l' = used_today env now l + 1 \<and> used_today env now l < rpd \<and>
    l_spec l' = l_spec l"
  using assms by (auto simp: admit_daily_def Let_def used_today_def split: if_splits)

lemma admit_rpm_keeps:
  "admit_rpm env block now l = Some (r, now', l') \<Longrightarrow>
   l_day l' = l_day l \<and> l_day_count l' = l_day_count l \<and> l_spec l' = l_spec l \<and> l_sem l' = l_sem l"
  by (auto simp: admit_rpm_def split: option.splits)

lemma admit_tpm_keeps:
  "admit_tpm env est block now l = Some (r, now', l') \<Longrightarrow>
   l_day l' = l_day l \<and> l_day_count l' = l_day_count l \<and> l_spec l' = l_spec l \<and> l_sem l' = l_sem l"
  by (auto simp: admit_tpm_def split: option.splits if_splits)

lemma admit_daily_keeps: "l_sem (snd (admit_daily env est now l)) = l_sem l \<and> l_spec (snd (admit_daily env est now l)) = l_spec l"
  by (auto simp: admit_daily_def refund_rate_def Let_def split: option.splits)

lemma persist_keeps:
  "l_sem (snd (persist_rpd_if_due f w l)) = l_sem l" "l_spec (snd (persist_rpd_if_due f w l)) = l_spec l"
  "l_day (snd (persist_rpd_if_due f w l)) = l_day l" "l_day_count (snd (persist_rpd_if_due f w l)) = l_day_count l"
  by (simp_all add: persist_rpd_if_due_def Let_def)

lemma persist_result:
  "persist_rpd_if_due f w l = (w', l') \<Longrightarrow> l_sem l' = l_sem l \<and> l_spec l' = l_spec l \<and> l_day l' = l_day l \<and>
   l_day_count l' = l_day_count l \<and> lw_now w' = lw_now w"
  using persist_keeps [of f w l] lw_now_persist [of f w l] by simp

lemma admit_rate_stages:
  assumes "admit_rate env est block now l = Some (None, now', l')"
  obtains t1 l1 l2 where "admit_rpm env block now l = Some (None, t1, l1)"
    "admit_tpm env est block t1 l1 = Some (None, now', l2)" "admit_daily env est now' l2 = (None, l')"
  using assms by (auto simp: admit_rate_def split: option.splits prod.splits)

lemma admit_rate_sem:
  assumes "admit_rate env est block now l = Some (None, now', l')"
  shows "l_sem l' = l_sem l"
proof -
  obtain t1 l1 l2 where "admit_rpm env block now l = Some (None, t1, l1)"
    "admit_tpm env est block t1 l1 = Some (None, now', l2)" "admit_daily env est now' l2 = (None, l')"
    using assms by (rule admit_rate_stages)
  then show ?thesis using admit_rpm_keeps admit_tpm_keeps admit_daily_keeps [of env est now' l2] by fastforce
qed

lemma admit_rate_admitted:
  assumes "admit_rate env est block now l = Some (None, now', l')" "pl_rpd (l_spec l) = Some rpd" "rpd \<noteq> 0"
  shows "used_today env now' l' = used_today env now' l + 1 \<and> used_today env now' l < rpd \<and> l_sem l' = l_sem l"
proof -
  obtain t1 l1 l2 where 1: "admit_rpm env block now l = Some (None, t1, l1)"
    and 2: "admit_tpm env est block t1 l1 = Some (None, now', l2)"
    and 3: "admit_daily env est now' l2 = (None, l')"
    using assms(1) by (rule admit_rate_stages)
  have "used_today env now' l2 = used_today env now' l" "pl_rpd (l_spec l2) = Some rpd" "l_sem l2 = l_sem l"
    using admit_rpm_keeps [OF 1] admit_tpm_keeps [OF 2] assms(2) by (auto simp: used_today_def)
  then show ?thesis using admit_daily_admitted [OF 3 _ assms(3)] admit_daily_keeps [of env est now' l2] 3 by simp
qed

text \<open>
  What an admission takes: a concurrency slot that was free (so the slots held never exceed
  the effective limit) and, on a rate lane with a daily budget, one dispatch of today's budget,
  which was not spent.
\<close>

theorem admit_admitted_charges:
  assumes "admit env est block w l = Some (d, w', l')" "ld_admitted d"
  shows "sem_held (l_sem l') = sem_held (l_sem l) + 1 \<and> sem_held (l_sem l') \<le> sem_limit (l_sem l') \<and>
    sem_limit (l_sem l') = sem_limit (l_sem l) \<and>
    (\<forall>rpd. pl_kind (l_spec l) = Rate \<longrightarrow> pl_rpd (l_spec l) = Some rpd \<longrightarrow> rpd \<noteq> 0 \<longrightarrow>
       used_today env (lw_now w') l' = used_today env (lw_now w') l + 1 \<and> used_today env (lw_now w') l < rpd)"
  using assms(1)
proof (cases rule: admit_cases)
  case (finish t g t2 b s)
  let ?w = "w\<lparr>lw_gate := g, lw_now := t2\<rparr>" and ?l = "l\<lparr>l_breaker := b, l_sem := s\<rparr>"
  note sem = sem_check_ok [OF finish(4)]
  show ?thesis
  proof (cases "pl_kind (l_spec l) = Rate")
    case True
    then obtain now' l1 where a: "admit_rate env est block t2 ?l = Some (None, now', l1)"
      and p: "persist_rpd_if_due False (?w\<lparr>lw_now := now'\<rparr>) l1 = (w', l')"
      using finish(5) assms(2) by (auto simp: admit_finish_def ld_refuse_def split: option.splits)
    note q = persist_result [OF p]
    have "used_today env (lw_now w') l' = used_today env (lw_now w') l1" "lw_now w' = now'"
      using q by (simp_all add: used_today_def)
    moreover have "l_sem l' = s" using q admit_rate_sem [OF a] by simp
    moreover have "used_today env t ?l = used_today env t l" for t by (simp add: used_today_def)
    ultimately show ?thesis using sem admit_rate_admitted [OF a] by simp
  next
    case False
    then have "persist_rpd_if_due False ?w ?l = (w', l')" using finish(5) by (auto simp: admit_finish_def)
    then have "l_sem l' = s" using persist_result by fastforce
    then show ?thesis using sem False by auto
  qed
qed (use assms(2) in \<open>auto simp: ld_refuse_def\<close>)


lemmas admit_eval =
  admit_def honor_retry_after_def family_check_def breaker_check_def sem_check_def admit_finish_def
  admit_rate_def admit_rpm_def admit_tpm_def admit_daily_def lim_init_def demo_spec_def provider_limit_default_def
  demo_world_def demo_env_def or_int_def truthy_int_def tb_init_def tb_acquire_nonblock tb_refill_locked_def
  Let_def br_allow_def br_init_def sem_init_def sem_try_acquire_def provider_rpd_exhausted_def
  persist_rpd_if_due_def

theorem admit_admitted_charges_witness:
  "\<exists>w' l'. admit demo_env 500 False demo_world (lim_init demo_env 5 ''x'' demo_spec) = Some (ld_admit, w', l') \<and>
     sem_held (l_sem l') = 1 \<and> used_today demo_env (lw_now w') l' = 1"
proof -
  let ?l = "lim_init demo_env 5 ''x'' demo_spec"
  obtain w' l' where a: "admit demo_env 500 False demo_world ?l = Some (ld_admit, w', l')"
    by (simp add: admit_eval)
  have "used_today demo_env t ?l = 0" for t by (simp add: used_today_def lim_init_def Let_def)
  then show ?thesis
    using a admit_admitted_charges [OF a]
    by (auto simp: ld_admit_def lim_init_def Let_def sem_init_def demo_spec_def provider_limit_default_def)
qed

section \<open>The daily budget\<close>

fun lim_trace :: "sys_env \<Rightarrow> lim_event list \<Rightarrow> lim_world \<times> limiter \<Rightarrow> (nat \<times> lim_world \<times> limiter) option" where
  "lim_trace env [] s = Some (0, s)"
| "lim_trace env (e # es) s =
     (case lim_exec env e s of
        None \<Rightarrow> None
      | Some (a, s') \<Rightarrow> map_option (\<lambda>(n, s''). ((if a then 1 else 0) + n, s'')) (lim_trace env es s'))"

lemma sync_headers_keeps:
  "l_day (sync_headers env t h l) = l_day l \<and> l_day_count (sync_headers env t h l) = l_day_count l \<and>
   l_spec (sync_headers env t h l) = l_spec l \<and> l_effective (sync_headers env t h l) = l_effective l \<and>
   l_floor (sync_headers env t h l) = l_floor l \<and> l_ceil (sync_headers env t h l) = l_ceil l \<and>
   l_name (sync_headers env t h l) = l_name l"
proof -
  have c: "l_day (sync_ceiling env h l) = l_day l \<and> l_day_count (sync_ceiling env h l) = l_day_count l \<and>
     l_spec (sync_ceiling env h l) = l_spec l \<and> l_effective (sync_ceiling env h l) = l_effective l \<and>
     l_floor (sync_ceiling env h l) = l_floor l \<and> l_ceil (sync_ceiling env h l) = l_ceil l \<and>
     l_name (sync_ceiling env h l) = l_name l"
    by (simp add: sync_ceiling_def Let_def split: option.splits prod.splits)
  have r: "l_day (sync_remaining_tokens env h k m) = l_day m \<and> l_day_count (sync_remaining_tokens env h k m) = l_day_count m \<and>
     l_spec (sync_remaining_tokens env h k m) = l_spec m \<and> l_effective (sync_remaining_tokens env h k m) = l_effective m \<and>
     l_floor (sync_remaining_tokens env h k m) = l_floor m \<and> l_ceil (sync_remaining_tokens env h k m) = l_ceil m \<and>
     l_name (sync_remaining_tokens env h k m) = l_name m"
    for k m by (simp add: sync_remaining_tokens_def split: option.splits)
  show ?thesis by (simp add: sync_headers_def observe_provider_rpd_def Let_def c r)
qed

lemma record_success_keeps:
  "snd (record_success env h w l) = l' \<Longrightarrow> l_day l' = l_day l \<and> l_day_count l' = l_day_count l \<and>
   l_spec l' = l_spec l \<and> l_floor l' = l_floor l \<and> l_ceil l' = l_ceil l \<and> l_name l' = l_name l"
  by (auto simp: record_success_def success_move_def Let_def sync_headers_keeps split: if_splits)

lemma record_failure_keeps:
  "snd (record_failure env ra h w l) = l' \<Longrightarrow> l_day l' = l_day l \<and> l_day_count l' = l_day_count l \<and>
   l_spec l' = l_spec l \<and> l_floor l' = l_floor l \<and> l_ceil l' = l_ceil l \<and> l_name l' = l_name l"
  by (auto simp: record_failure_def failure_move_def Let_def sync_headers_keeps split: option.splits)

lemma admit_rate_refused_used:
  assumes "admit_rate env est block now l = Some (Some r, now', l')"
  shows "used_today env now' l' = used_today env now' l \<and> l_spec l' = l_spec l"
proof -
  obtain r1 t1 l1 where 1: "admit_rpm env block now l = Some (r1, t1, l1)"
    using assms by (auto simp: admit_rate_def split: option.splits)
  show ?thesis
  proof (cases r1)
    case (Some x)
    then show ?thesis using assms 1 admit_rpm_keeps [OF 1] by (auto simp: admit_rate_def used_today_def)
  next
    case None
    obtain r2 t2 l2 where 2: "admit_tpm env est block t1 l1 = Some (r2, t2, l2)"
      using assms 1 None by (auto simp: admit_rate_def split: option.splits)
    have k: "used_today env t l2 = used_today env t l" "l_spec l2 = l_spec l" for t
      using admit_rpm_keeps [OF 1] admit_tpm_keeps [OF 2] by (auto simp: used_today_def)
    show ?thesis
    proof (cases r2)
      case (Some x)
      then show ?thesis using assms 1 2 None k by (auto simp: admit_rate_def)
    next
      case r2: None
      then have "admit_daily env est t2 l2 = (Some r, l')" "now' = t2"
        using assms 1 2 None by (auto simp: admit_rate_def split: prod.splits)
      then show ?thesis using admit_daily_refused k admit_daily_keeps [of env est t2 l2] by fastforce
    qed
  qed
qed

text \<open>The fields only feedback moves.\<close>

definition lim_fixed :: "limiter \<Rightarrow> limiter \<Rightarrow> bool" where
  "lim_fixed l l' \<longleftrightarrow> l_spec l' = l_spec l \<and> l_floor l' = l_floor l \<and> l_ceil l' = l_ceil l \<and>
     l_effective l' = l_effective l \<and> l_name l' = l_name l \<and> l_bound l' = l_bound l"

lemma lim_fixed_trans: "lim_fixed a b \<Longrightarrow> lim_fixed b c \<Longrightarrow> lim_fixed a c"
  by (simp add: lim_fixed_def)

lemma admit_stage_fixed:
  "admit_rpm env block now l = Some (r, now', l') \<Longrightarrow> lim_fixed l l'"
  "admit_tpm env est block now l = Some (r, now', l') \<Longrightarrow> lim_fixed l l'"
  "lim_fixed l (snd (admit_daily env est now l))"
  "lim_fixed l (snd (persist_rpd_if_due force w l))"
  by (auto simp: admit_rpm_def admit_tpm_def admit_daily_def persist_rpd_if_due_def refund_rate_def lim_fixed_def
      Let_def split: option.splits if_splits)

lemma admit_rate_fixed:
  assumes "admit_rate env est block now l = Some (r, now', l')"
  shows "lim_fixed l l'"
proof -
  obtain r1 t1 l1 where 1: "admit_rpm env block now l = Some (r1, t1, l1)"
    using assms by (auto simp: admit_rate_def split: option.splits)
  show ?thesis
  proof (cases r1)
    case (Some x)
    then show ?thesis using assms 1 admit_stage_fixed(1) [OF 1] by (simp add: admit_rate_def)
  next
    case None
    obtain r2 t2 l2 where 2: "admit_tpm env est block t1 l1 = Some (r2, t2, l2)"
      using assms 1 None by (auto simp: admit_rate_def split: option.splits)
    have k: "lim_fixed l l2" using admit_stage_fixed(1) [OF 1] admit_stage_fixed(2) [OF 2] by (rule lim_fixed_trans)
    show ?thesis
    proof (cases r2)
      case (Some x)
      then show ?thesis using assms 1 2 None k by (simp add: admit_rate_def)
    next
      case r2: None
      then have "l' = snd (admit_daily env est t2 l2)"
        using assms 1 2 None by (auto simp: admit_rate_def split: prod.splits)
      then show ?thesis using k admit_stage_fixed(3) lim_fixed_trans by metis
    qed
  qed
qed

lemma admit_finish_fixed:
  assumes "admit_finish env est block w l = Some (d, w', l')"
  shows "lim_fixed l l'"
proof (cases "pl_kind (l_spec l) = Rate")
  case True
  then obtain r t l1 where a: "admit_rate env est block (lw_now w) l = Some (r, t, l1)"
    using assms by (auto simp: admit_finish_def split: option.splits)
  note k = admit_rate_fixed [OF a]
  show ?thesis
  proof (cases r)
    case None
    then have "l' = snd (persist_rpd_if_due False (w\<lparr>lw_now := t\<rparr>) l1)"
      using assms a True by (auto simp: admit_finish_def)
    then show ?thesis using k admit_stage_fixed(4) lim_fixed_trans by metis
  next
    case (Some x)
    then show ?thesis using assms a True k by (auto simp: admit_finish_def lim_fixed_def)
  qed
next
  case False
  then have "l' = snd (persist_rpd_if_due False w l)" using assms by (auto simp: admit_finish_def)
  then show ?thesis using admit_stage_fixed(4) by simp
qed

lemma admit_fixed:
  assumes "admit env est block w l = Some (d, w', l')"
  shows "lim_fixed l l'"
  using assms
proof (cases rule: admit_cases)
  case (finish t g t2 b s)
  have "lim_fixed l (l\<lparr>l_breaker := b, l_sem := s\<rparr>)" by (simp add: lim_fixed_def)
  then show ?thesis using admit_finish_fixed [OF finish(5)] by (rule lim_fixed_trans)
qed (simp_all add: lim_fixed_def)

lemma used_today_upd [simp]:
  "used_today env t (l\<lparr>l_breaker := b\<rparr>) = used_today env t l"
  "used_today env t (l\<lparr>l_sem := x\<rparr>) = used_today env t l"
  by (simp_all add: used_today_def)

lemma admit_refused_used:
  assumes "admit env est block w l = Some (d, w', l')" "\<not> ld_admitted d"
  shows "used_today env (lw_now w') l' = used_today env (lw_now w') l"
  using assms(1)
proof (cases rule: admit_cases)
  case (finish t g t2 b s)
  let ?l = "l\<lparr>l_breaker := b, l_sem := s\<rparr>"
  obtain r now' l1 where a: "admit_rate env est block t2 ?l = Some (Some r, now', l1)"
    and w': "w' = w\<lparr>lw_gate := g, lw_now := now'\<rparr>"
    and l': "l' = l1\<lparr>l_sem := sem_release (l_sem l1), l_breaker := br_release_probe (l_breaker l1)\<rparr>"
    using finish(5) assms(2) by (auto simp: admit_finish_def ld_admit_def split: option.splits if_splits)
  have "used_today env now' l1 = used_today env now' ?l" using admit_rate_refused_used [OF a] by simp
  then show ?thesis by (simp add: w' l')
qed simp_all

definition no_restore :: "lim_event \<Rightarrow> bool" where
  "no_restore e = (case e of EvRestore _ \<Rightarrow> False | _ \<Rightarrow> True)"

text \<open>One event, seen by the day's budget: admissions are charged, nothing else is.\<close>

lemma lim_exec_used:
  assumes "lim_exec env e (w, l) = Some (a, w', l')" "no_restore e" "utc_day env (lw_now w') = utc_day env (lw_now w)"
    and "pl_kind (l_spec l) = Rate" "pl_rpd (l_spec l) = Some rpd" "rpd \<noteq> 0"
  shows "l_spec l' = l_spec l \<and>
    used_today env (lw_now w') l' = used_today env (lw_now w) l + (if a then 1 else 0) \<and>
    (a \<longrightarrow> used_today env (lw_now w) l < rpd)"
proof (cases e)
  case (EvAdmit est block)
  then obtain d where d: "admit env est block w l = Some (d, w', l')" "a = ld_admitted d"
    using assms(1) by (auto simp: acquire_def)
  have same: "used_today env (lw_now w') l = used_today env (lw_now w) l" by (simp add: used_today_def assms(3))
  show ?thesis
    using admit_fixed [OF d(1)] admit_refused_used [OF d(1)] admit_admitted_charges [OF d(1)] assms(4-6) d(2) same
    by (cases a) (auto simp: lim_fixed_def)
next
  case (EvSuccess h)
  then have "snd (record_success env h w l) = l'" "a = False" "lw_now w' = lw_now w"
    using assms(1) lw_now_success [of env h w l] by auto
  then show ?thesis using record_success_keeps by (fastforce simp: used_today_def)
next
  case (EvFailure ra h)
  then have "snd (record_failure env ra h w l) = l'" "a = False" "lw_now w' = lw_now w"
    using assms(1) lw_now_failure [of env ra h w l] by auto
  then show ?thesis using record_failure_keeps by (fastforce simp: used_today_def)
next
  case EvFlush
  then have "persist_rpd_if_due True w l = (w', l')" "a = False" using assms(1) by (auto simp: flush_rpd_def)
  then show ?thesis using persist_result by (fastforce simp: used_today_def)
next
  case EvRelease
  then show ?thesis using assms(1) by (auto simp: lim_release_def used_today_def)
next
  case (EvPark r)
  then show ?thesis using assms(1)
    by (auto simp: park_provider_day_def observe_provider_rpd_def used_today_def Let_def)
next
  case (EvElapse r)
  then show ?thesis using assms(1,3) by (auto simp: used_today_def)
next
  case (EvRestore r)
  then show ?thesis using assms(2) by (simp add: no_restore_def)
qed


lemma lim_exec_advances:
  assumes "lim_exec env e (w, l) = Some (a, w', l')" "lim_good env (w, l)"
  shows "lw_now w \<le> lw_now w' \<and> lim_good env (w', l')"
  using lim_exec_good [OF assms(1)] assms(2) by (auto simp: lim_good_def)

lemma lim_trace_advances:
  "lim_trace env es (w, l) = Some (n, w', l') \<Longrightarrow> lim_good env (w, l) \<Longrightarrow> lw_now w \<le> lw_now w'"
proof (induction es arbitrary: w l n)
  case (Cons e es)
  then obtain a w1 l1 m where e: "lim_exec env e (w, l) = Some (a, w1, l1)"
    and t: "lim_trace env es (w1, l1) = Some (m, w', l')"
    by (auto split: option.splits)
  show ?case using lim_exec_advances [OF e Cons.prems(2)] Cons.IH [OF t] by auto
qed simp



section \<open>A blocking admission returns\<close>

lemma admit_rpm_blocking:
  assumes "env_ok env" "lim_inv now l"
  shows "\<exists>now' l'. admit_rpm env True now l = Some (None, now', l')"
proof (cases "l_rpm l")
  case (Some b)
  then have "tb_wf b" "tb_ts b \<le> now" using assms(2) by (auto simp: lim_inv_def)
  then obtain t b' where "tb_acquire (wake env) 1 True now b = Some (True, t, b')"
    using tb_acquire_returns assms(1) by blast
  then show ?thesis by (simp add: admit_rpm_def Some)
qed (simp add: admit_rpm_def)

lemma admit_tpm_blocking:
  assumes "env_ok env" "lim_inv now l"
  shows "\<exists>now' l'. admit_tpm env est True now l = Some (None, now', l')"
proof (cases "l_tpm l")
  case (Some b)
  then have "tb_wf b" "tb_ts b \<le> now" using assms(2) by (auto simp: lim_inv_def)
  then obtain t b' where "tb_acquire (wake env) est True now b = Some (True, t, b')"
    using tb_acquire_returns assms(1) by blast
  then show ?thesis by (simp add: admit_tpm_def Some)
qed (simp add: admit_tpm_def)

lemma admit_rate_blocking:
  assumes "env_ok env" "lim_inv now l"
  shows "\<exists>r now' l'. admit_rate env est True now l = Some (r, now', l') \<and> r \<in> {None, Some PROVIDER_RPD, Some RPD}"
proof -
  obtain t1 l1 where 1: "admit_rpm env True now l = Some (None, t1, l1)"
    using admit_rpm_blocking [OF assms] by blast
  obtain t2 l2 where 2: "admit_tpm env est True t1 l1 = Some (None, t2, l2)"
    using admit_tpm_blocking [OF assms(1)] admit_rpm_inv [OF 1 assms] by blast
  have "fst (admit_daily env est t2 l2) \<in> {None, Some PROVIDER_RPD, Some RPD}"
    by (auto simp: admit_daily_def Let_def split: option.splits)
  then show ?thesis using 1 2 by (auto simp: admit_rate_def split: prod.splits)
qed

text \<open>
  C35. A blocking admission only ever waits for a slot: whenever one is free it returns (after
  honouring the retry-after horizon, waiting out the breaker's cooldown and the buckets), and it
  is never refused for retry-after, concurrency or rate; only the family gate, a breaker that stays
  open past its maximal wait, or a spent daily budget refuse it.
\<close>

theorem blocking_admit_returns:
  assumes "sleep_ok (wake env)" "lim_inv (lw_now w) l" "sem_held (l_sem l) < sem_limit (l_sem l)"
  shows "\<exists>d w' l'. admit env est True w l = Some (d, w', l') \<and>
    ld_reason d \<in> {None, Some FAMILY_GATE, Some BREAKER, Some PROVIDER_RPD, Some RPD}"
proof -
  obtain t where h: "honor_retry_after env True (lw_now w) l = (True, t)"
    by (cases "l_not_before l \<le> lw_now w") (auto simp: honor_retry_after_def Let_def)
  have t: "lw_now w \<le> t" using h assms(1) by (rule honor_retry_after_ok)
  obtain fam g where f: "family_check env t w l = (fam, g)" by (cases "family_check env t w l")
  have inv: "br_inv (l_breaker l)" using assms(2) by (simp add: lim_inv_def)
  have "\<exists>r. breaker_check env True t (l_breaker l) = Some r"
    using wait_for_breaker_loop_returns [OF assms(1) br_inv_allow [OF inv, of t], of "t + BREAKER_WAIT_MAX_S" t]
    by (cases "br_allow t (l_breaker l)") (auto simp: breaker_check_def wait_for_breaker_def)
  then obtain a t2 b where c: "breaker_check env True t (l_breaker l) = Some (a, t2, b)" by auto
  have t2: "t \<le> t2 \<and> br_inv b" using breaker_check_ok [OF c assms(1) inv] .
  obtain s where s: "sem_check True (l_sem l) = Some (True, s)"
    using assms(3) by (auto simp: sem_check_def sem_acquire_def)
  let ?l = "l\<lparr>l_breaker := b, l_sem := s\<rparr>" and ?w = "w\<lparr>lw_gate := g, lw_now := t2\<rparr>"
  have "lim_inv t2 ?l"
    using assms(2) lim_inv_mono [of "lw_now w" l t2] t t2 sem_check_ok [OF s] by (auto simp: lim_inv_def lim_sane_def)
  then obtain r t3 l3 where "admit_rate env est True t2 ?l = Some (r, t3, l3)" "r \<in> {None, Some PROVIDER_RPD, Some RPD}"
    using admit_rate_blocking [OF assms(1)] by blast
  then have "\<exists>d w' l'. admit_finish env est True ?w ?l = Some (d, w', l') \<and>
      ld_reason d \<in> {None, Some PROVIDER_RPD, Some RPD}"
    by (cases "persist_rpd_if_due False (?w\<lparr>lw_now := t3\<rparr>) l3"; cases "persist_rpd_if_due False ?w ?l")
      (auto simp: admit_finish_def ld_refuse_def ld_admit_def)
  then show ?thesis using h f c s
    by (cases fam; cases a) (auto simp: admit_def ld_refuse_def Let_def)
qed

theorem blocking_admit_returns_witness:
  "\<exists>d w' l'. admit demo_env 5000 True demo_world (lim_init demo_env 5 ''x'' demo_spec) = Some (d, w', l') \<and>
    ld_reason d \<in> {None, Some FAMILY_GATE, Some BREAKER, Some PROVIDER_RPD, Some RPD}"
  using demo_env_ok demo_inv [of "''x''"]
  by (intro blocking_admit_returns) (auto simp: demo_world_def lim_init_def Let_def sem_init_def demo_spec_def
      provider_limit_default_def or_int_def)

section \<open>Additive increase, multiplicative decrease\<close>

lemma lim_exec_controller:
  assumes "lim_exec env e (w, l) = Some (a, w', l')"
  shows "l_floor l' = l_floor l \<and> l_ceil l' = l_ceil l \<and>
    (lim_sane l \<longrightarrow> l_floor l \<le> l_effective l \<longrightarrow> l_effective l \<le> l_ceil l \<longrightarrow>
       l_floor l \<le> l_effective l' \<and> l_effective l' \<le> l_ceil l)"
proof (cases e)
  case (EvAdmit est block)
  then show ?thesis using assms admit_fixed by (fastforce simp: acquire_def lim_fixed_def)
next
  case (EvSuccess h)
  then have "snd (record_success env h w l) = l'" using assms by simp
  then show ?thesis
    by (auto simp: record_success_def success_move_def Let_def sync_headers_keeps split: if_splits)
next
  case (EvFailure ra h)
  then have "snd (record_failure env ra h w l) = l'" using assms by simp
  then show ?thesis using halved_bounds [of "l_floor l" "l_ceil l" "l_effective l"]
    by (auto simp: record_failure_def failure_move_def Let_def sync_headers_keeps lim_sane_def split: option.splits)
next
  case EvFlush
  then show ?thesis using assms admit_stage_fixed(4) [of l True w] by (auto simp: flush_rpd_def lim_fixed_def)
next
  case (EvRestore row)
  then show ?thesis using assms clamp_bounds [of "l_floor l" "l_ceil l"]
    by (auto simp: lim_restore_def lim_sane_def Let_def split: option.splits)
qed (use assms in \<open>auto simp: lim_release_def park_provider_day_def observe_provider_rpd_def Let_def\<close>)

definition lim_apply :: "sys_env \<Rightarrow> lim_event \<Rightarrow> lim_world \<times> limiter \<Rightarrow> lim_world \<times> limiter" where
  "lim_apply env e s = (case lim_exec env e s of None \<Rightarrow> s | Some (_, s') \<Rightarrow> s')"

interpretation lim_ctl: bounded_controller "lim_apply env" "\<lambda>s. l_effective (snd s)"
  "\<lambda>s. l_floor (snd s)" "\<lambda>s. l_ceil (snd s)" "\<lambda>s. lim_sane (snd s)" for env
proof unfold_locales
  fix e :: lim_event and s :: "lim_world \<times> limiter"
  obtain w l where s: "s = (w, l)" by (cases s)
  show "l_floor (snd (lim_apply env e s)) = l_floor (snd s)"
    and "l_ceil (snd (lim_apply env e s)) = l_ceil (snd s)"
    and "lim_sane (snd (lim_apply env e s)) = lim_sane (snd s)"
    using lim_exec_controller [of env e w l] by (auto simp: s lim_apply_def lim_sane_def split: option.splits)
  assume "lim_sane (snd s)" "l_floor (snd s) \<le> l_effective (snd s)" "l_effective (snd s) \<le> l_ceil (snd s)"
  then show "l_floor (snd s) \<le> l_effective (snd (lim_apply env e s)) \<and>
      l_effective (snd (lim_apply env e s)) \<le> l_ceil (snd s)"
    using lim_exec_controller [of env e w l] by (auto simp: s lim_apply_def split: option.splits)
qed

fun success_run :: "sys_env \<Rightarrow> nat \<Rightarrow> lim_world \<times> limiter \<Rightarrow> lim_world \<times> limiter" where
  "success_run env 0 s = s"
| "success_run env (Suc n) s = success_run env n (record_success env [] (fst s) (snd s))"

definition climb_left :: "limiter \<Rightarrow> int" where
  "climb_left l = (if l_effective l < l_ceil l
     then SUCCESS_STREAK_FOR_INCREASE * (l_ceil l - l_effective l) - min (l_streak l) 3 else 0)"

lemma record_success_climbs:
  fixes env :: sys_env and w :: lim_world
  assumes "pl_adaptive (l_spec l)" "0 \<le> l_streak l" "l_effective l \<le> l_ceil l"
  defines "l' \<equiv> snd (record_success env [] w l)"
  shows "pl_adaptive (l_spec l') \<and> 0 \<le> l_streak l' \<and> l_effective l' \<le> l_ceil l' \<and> l_ceil l' = l_ceil l \<and>
    climb_left l' \<le> max 0 (climb_left l - 1)"
  using assms(1-3)
  by (auto simp: l'_def record_success_def success_move_def sync_headers_def Let_def climb_left_def
      SUCCESS_STREAK_FOR_INCREASE_def min_def max_def)

text \<open>
  C36. The controller recovers: on an adaptive lane, any run of at least four clean successes per
  missing slot brings the effective limit back to the ceiling, whatever it was and whatever the
  current streak.
\<close>

theorem successes_reach_ceiling:
  assumes "pl_adaptive (l_spec l)" "0 \<le> l_streak l" "l_effective l \<le> l_ceil l"
    and "SUCCESS_STREAK_FOR_INCREASE * (l_ceil l - l_effective l) \<le> int n"
  shows "l_effective (snd (success_run env n (w, l))) = l_ceil l"
proof -
  have "l_effective (snd (success_run env n (w, l))) = l_ceil l"
    if "pl_adaptive (l_spec l)" "0 \<le> l_streak l" "l_effective l \<le> l_ceil l" "climb_left l \<le> int n" for w l
    using that
  proof (induction n arbitrary: w l)
    case 0
    then show ?case by (auto simp: climb_left_def SUCCESS_STREAK_FOR_INCREASE_def split: if_splits)
  next
    case (Suc n)
    obtain w1 l1 where r: "record_success env [] w l = (w1, l1)" by (cases "record_success env [] w l")
    have "pl_adaptive (l_spec l1) \<and> 0 \<le> l_streak l1 \<and> l_effective l1 \<le> l_ceil l1 \<and> l_ceil l1 = l_ceil l \<and>
        climb_left l1 \<le> max 0 (climb_left l - 1)"
      using record_success_climbs [OF Suc.prems(1-3), of env w] r by simp
    moreover have "climb_left l1 \<le> int n" using calculation Suc.prems(4) by auto
    ultimately show ?case using Suc.IH [of l1 w1] r by simp
  qed
  moreover have "climb_left l \<le> int n"
    using assms(2,3,4) by (auto simp: climb_left_def SUCCESS_STREAK_FOR_INCREASE_def)
  ultimately show ?thesis using assms by blast
qed

theorem successes_reach_ceiling_witness:
  "l_effective (snd (success_run demo_env 16 (demo_world, lim_init demo_env 5 ''x'' demo_spec))) = 6"
proof -
  let ?l = "lim_init demo_env 5 ''x'' demo_spec"
  have "l_ceil ?l = 6" "l_effective ?l = 2" "l_streak ?l = 0" "pl_adaptive (l_spec ?l)"
    by (simp_all add: lim_init_def Let_def demo_spec_def provider_limit_default_def or_int_def)
  then show ?thesis using successes_reach_ceiling [of ?l 16 demo_env demo_world]
    by (simp add: SUCCESS_STREAK_FOR_INCREASE_def)
qed


section \<open>Restart\<close>

lemma lim_run_fixed:
  assumes "(lim_step env)\<^sup>*\<^sup>* s t"
  shows "l_floor (snd t) = l_floor (snd s) \<and> l_ceil (snd t) = l_ceil (snd s)"
  using assms
proof (induction rule: rtranclp_induct)
  case (step y z)
  then obtain e a where e: "lim_exec env e y = Some (a, z)" by (auto elim: lim_step.cases)
  then show ?case using step.IH lim_exec_controller [of env e "fst y" "snd y" a "fst z" "snd z"] by simp
qed simp

text \<open>
  What the controller has found survives a restart: restoring the state a lane persisted at any
  reachable moment into a freshly constructed lane of the same configuration reinstates the same
  effective limit (enforced by the semaphore) and the same number of dispatches charged to the
  current UTC day; a day that has passed since is not carried over.
\<close>

theorem restart_restores_controller:
  fixes t :: instant
  assumes "(lim_step env)\<^sup>*\<^sup>* (w, lim_init env (lw_now w) name spec) (w', l)"
    and "sleep_ok (wake env)" "0 \<le> pl_min spec"
    and "\<forall>n. pl_rpm spec = Some n \<or> pl_tpm spec = Some n \<longrightarrow> 0 \<le> n"
  defines "l' \<equiv> snd (lim_restore env t (Some (lim_state l)) (lim_init env t name spec))"
  shows "l_effective l' = l_effective l \<and> sem_limit (l_sem l') = l_effective l \<and>
    used_today env t l' = used_today env t l"
proof -
  let ?i = "lim_init env (lw_now w) name spec" and ?f = "lim_init env t name spec"
  have good: "lim_good env (w, ?i)" using assms lim_inv_init by (auto simp: lim_good_def)
  then have "lim_good env (w', l)" using limiter_steps.run_keeps [OF assms(1)] by blast
  then have b: "l_floor l \<le> l_effective l" "l_effective l \<le> l_ceil l" by (auto simp: lim_good_def lim_inv_def)
  have "l_floor l = l_floor ?i" "l_ceil l = l_ceil ?i" using lim_run_fixed [OF assms(1)] by simp_all
  moreover have "l_floor ?f = l_floor ?i" "l_ceil ?f = l_ceil ?i" by (simp_all add: lim_init_def Let_def)
  ultimately have eff: "clamp (l_floor ?f) (l_ceil ?f) (l_effective l) = l_effective l"
    using b clamp_id by metis
  have d: "l_day ?f = utc_day env t" "l_day_count ?f = 0" by (simp_all add: lim_init_def Let_def)
  show ?thesis
    unfolding l'_def using eff d
    by (simp add: lim_restore_def lim_state_def empty_row_def Let_def sem_set_limit_def used_today_def or_zero_def)
qed

theorem restart_restores_controller_witness:
  "l_effective (snd (lim_restore demo_env 9 (Some (lim_state (lim_init demo_env 5 ''x'' demo_spec)))
     (lim_init demo_env 9 ''x'' demo_spec))) = 2"
proof -
  let ?l = "lim_init demo_env 5 ''x'' demo_spec"
  have run: "(lim_step demo_env)\<^sup>*\<^sup>* (demo_world, lim_init demo_env (lw_now demo_world) ''x'' demo_spec) (demo_world, ?l)"
    by (simp add: demo_world_def)
  have "l_effective ?l = 2" by (simp add: lim_init_def Let_def demo_spec_def provider_limit_default_def or_int_def)
  then show ?thesis
    using restart_restores_controller [OF run demo_env_ok, of 9]
    by (auto simp: demo_spec_def provider_limit_default_def)
qed

section \<open>The provider's own daily budget\<close>

text \<open>
  Within one reset epoch of one declared limit the observed remaining budget never rises: a late,
  reordered response cannot re-open a day the provider already declared spent, and while the epoch
  lasts a lane whose remaining budget has reached zero is refused.
\<close>

theorem provider_remaining_never_rises:
  assumes "l_provider_rpd_remaining l = Some old"
    and "\<forall>t. l_provider_rpd_reset_at l = Some t \<longrightarrow> now < t"
    and "limit = None \<or> limit = l_provider_rpd_limit l"
    and "observe_provider_rpd now limit (Some r) reset l = l'"
  shows "l_provider_rpd_remaining l' = Some (min old r) \<and>
    (old \<le> 0 \<longrightarrow> reset = Some s \<longrightarrow> 0 < s \<longrightarrow> now' < now + s \<longrightarrow> provider_rpd_exhausted now' l')"
proof -
  have rem: "l_provider_rpd_remaining l' = Some (min old r)"
    using assms by (force simp: observe_provider_rpd_def Let_def split: option.splits)
  have "l_provider_rpd_reset_at l' = Some (now + s)" if "reset = Some s"
    using assms(4) that by (auto simp: observe_provider_rpd_def Let_def)
  then show ?thesis using rem by (auto simp: provider_rpd_exhausted_def)
qed

theorem provider_remaining_never_rises_witness:
  "l_provider_rpd_remaining (observe_provider_rpd 10 None (Some 90) (Some 60)
     (park_provider_day 5 3600 (lim_init demo_env 5 ''x'' demo_spec))) = Some 0"
proof -
  let ?l = "park_provider_day 5 3600 (lim_init demo_env 5 ''x'' demo_spec)"
  have l: "l_provider_rpd_remaining ?l = Some 0" "l_provider_rpd_reset_at ?l = Some 3605"
    by (simp_all add: park_provider_day_def observe_provider_rpd_def lim_init_def Let_def)
  show ?thesis
    using provider_remaining_never_rises [OF l(1), of 10 None 90 "Some 60"] l(2) by simp
qed

end
