(* ===== verification/Registry.thy ===== *)
theory Registry
  imports Limiter_Facts
begin

text \<open>
  The rest of \<open>limiter.py\<close>: \<open>AdaptiveBudget\<close> (the token budget of a local batched call, moved by
  clean batches and GPU out-of-memory reports) and \<open>LimiterRegistry\<close> (one lane per
  provider and key, one budget per key, all bound to one durable store). A controller's
  \<open>_on_change\<close> callback is the save into the store it was bound to, so operations that emit a
  change take and return the registry.
\<close>

section \<open>AdaptiveBudget\<close>

record adaptive_budget =
  ab_name :: string
  ab_floor :: int
  ab_ceil :: int
  ab_step :: int
  ab_effective :: int
  ab_streak :: int
  ab_increases :: int
  ab_ooms :: int
  ab_last_logged_ooms :: int
  ab_bound :: bool

definition BUDGET_STREAK_FOR_INCREASE :: int where
  "BUDGET_STREAK_FOR_INCREASE = 4"

definition ab_init :: "string \<Rightarrow> int \<Rightarrow> int \<Rightarrow> int \<Rightarrow> int \<Rightarrow> adaptive_budget" where
  "ab_init name seed flo cei step =
     (let lo = max 1 flo; hi = max lo cei in
      \<lparr>ab_name = name, ab_floor = lo, ab_ceil = hi, ab_step = max 1 step, ab_effective = clamp lo hi seed,
       ab_streak = 0, ab_increases = 0, ab_ooms = 0, ab_last_logged_ooms = 0, ab_bound = False\<rparr>)"

definition ab_state :: "adaptive_budget \<Rightarrow> ctl_row" where
  "ab_state b = empty_row\<lparr>cr_effective := Some (ab_effective b), cr_streak := Some (ab_streak b),
     cr_floor := Some (ab_floor b), cr_ceiling := Some (ab_ceil b), cr_step := Some (ab_step b),
     cr_increases := Some (ab_increases b), cr_ooms := Some (ab_ooms b)\<rparr>"

definition ab_record_success :: "adaptive_budget \<Rightarrow> bool \<times> adaptive_budget" where
  "ab_record_success b =
     (let b1 = b\<lparr>ab_streak := ab_streak b + 1\<rparr> in
      if BUDGET_STREAK_FOR_INCREASE \<le> ab_streak b1 \<and> ab_effective b < ab_ceil b
      then (True, b1\<lparr>ab_effective := min (ab_ceil b) (ab_effective b + ab_step b), ab_streak := 0,
                     ab_increases := ab_increases b + 1\<rparr>)
      else (False, b1))"

definition ab_record_oom :: "adaptive_budget \<Rightarrow> adaptive_budget" where
  "ab_record_oom b = b\<lparr>
     ab_effective := max (ab_floor b) (int_trunc (of_int (ab_effective b) * DECREASE_FACTOR)),
     ab_streak := 0, ab_ooms := ab_ooms b + 1\<rparr>"

definition ab_restore :: "ctl_row option \<Rightarrow> adaptive_budget \<Rightarrow> bool \<times> adaptive_budget" where
  "ab_restore state b =
     (case state of
        None \<Rightarrow> (False, b)
      | Some row \<Rightarrow> (case cr_effective row of
            None \<Rightarrow> (False, b)
          | Some value \<Rightarrow> (True, b\<lparr>ab_effective := clamp (ab_floor b) (ab_ceil b) value, ab_streak := 0,
                ab_increases := or_zero (cr_increases row), ab_ooms := or_zero (cr_ooms row)\<rparr>)))"

text \<open>\<open>_emit_change\<close>: the log level follows the out-of-memory count; the callback saves the state.\<close>

datatype log_level = Log_Info | Log_Warning

definition ab_emit_change ::
  "ctl_store option \<Rightarrow> adaptive_budget \<Rightarrow> log_level \<times> ctl_store option \<times> adaptive_budget" where
  "ab_emit_change st b =
     (if ab_last_logged_ooms b < ab_ooms b then Log_Warning else Log_Info,
      (if ab_bound b then map_option (cs_save (ab_name b) (ab_state b)) st else st),
      b\<lparr>ab_last_logged_ooms := ab_ooms b\<rparr>)"

section \<open>LimiterRegistry\<close>

type_synonym lane_key = "string \<times> string"

record limiter_registry =
  rg_lanes :: "(lane_key, limiter) dict"
  rg_budgets :: "(string, adaptive_budget) dict"
  rg_store :: "ctl_store option"

definition rg_init :: limiter_registry where
  "rg_init = \<lparr>rg_lanes = [], rg_budgets = [], rg_store = None\<rparr>"

definition store_attached :: "limiter_registry \<Rightarrow> bool" where
  "store_attached r = (rg_store r \<noteq> None)"

definition bind_lane :: "sys_env \<Rightarrow> instant \<Rightarrow> ctl_store option \<Rightarrow> limiter \<Rightarrow> limiter" where
  "bind_lane env now st l =
     (case st of None \<Rightarrow> l
      | Some s \<Rightarrow> (snd (lim_restore env now (cs_load (l_name l) s) l))\<lparr>l_bound := True\<rparr>)"

definition bind_budget :: "string \<Rightarrow> ctl_store option \<Rightarrow> adaptive_budget \<Rightarrow> adaptive_budget" where
  "bind_budget key st b =
     (case st of None \<Rightarrow> b | Some s \<Rightarrow> (snd (ab_restore (cs_load key s) b))\<lparr>ab_bound := True\<rparr>)"

definition attach_store :: "sys_env \<Rightarrow> instant \<Rightarrow> ctl_store \<Rightarrow> limiter_registry \<Rightarrow> limiter_registry" where
  "attach_store env now s r = r\<lparr>rg_store := Some s,
     rg_lanes := map (\<lambda>(k, l). (k, bind_lane env now (Some s) l)) (rg_lanes r),
     rg_budgets := map (\<lambda>(k, b). (k, bind_budget k (Some s) b)) (rg_budgets r)\<rparr>"

text \<open>
  \<open>ensure_store\<close>: \<open>dsn\<close> is the value of \<open>POLYMATH_PG_DSN\<close> (empty when unset) and \<open>connect\<close> the
  construction of the Postgres store (\<open>None\<close> when it raises).
\<close>

definition ensure_store ::
  "sys_env \<Rightarrow> instant \<Rightarrow> string \<Rightarrow> (string \<Rightarrow> ctl_store option) \<Rightarrow> limiter_registry \<Rightarrow> limiter_registry" where
  "ensure_store env now dsn connect r =
     (if rg_store r \<noteq> None then r
      else if py_strip dsn = [] then r
      else case connect (py_strip dsn) of None \<Rightarrow> r | Some s \<Rightarrow> attach_store env now s r)"

definition lane_id :: "string \<Rightarrow> string \<Rightarrow> lane_key" where
  "lane_id provider key = (provider, if key = [] then ''default'' else key)"

definition lane ::
  "sys_env \<Rightarrow> instant \<Rightarrow> string \<Rightarrow> string \<Rightarrow> provider_limit \<Rightarrow> limiter_registry \<Rightarrow> limiter \<times> limiter_registry" where
  "lane env now provider key spec r =
     (let k = lane_id provider key in
      case map_of (rg_lanes r) k of
        Some l \<Rightarrow> (l, r)
      | None \<Rightarrow>
          let l = bind_lane env now (rg_store r)
                    (lim_init env now (provider @ ''['' @ snd k @ '']'') spec) in
          (l, r\<lparr>rg_lanes := dict_set k l (rg_lanes r)\<rparr>))"

definition get_lane :: "string \<Rightarrow> string \<Rightarrow> limiter_registry \<Rightarrow> limiter option" where
  "get_lane provider key r = map_of (rg_lanes r) (lane_id provider key)"

definition budget ::
  "string \<Rightarrow> int \<Rightarrow> int \<Rightarrow> int \<Rightarrow> int \<Rightarrow> limiter_registry \<Rightarrow> adaptive_budget \<times> limiter_registry" where
  "budget key seed flo cei step r =
     (case map_of (rg_budgets r) key of
        Some b \<Rightarrow> (b, r)
      | None \<Rightarrow>
          let b = bind_budget key (rg_store r) (ab_init key seed flo cei step) in
          (b, r\<lparr>rg_budgets := dict_set key b (rg_budgets r)\<rparr>))"

section \<open>Budget reports through the registry\<close>

datatype ab_op = Ab_Success | Ab_Oom

definition ab_apply :: "ab_op \<Rightarrow> adaptive_budget \<Rightarrow> adaptive_budget" where
  "ab_apply op b = (case op of Ab_Success \<Rightarrow> snd (ab_record_success b) | Ab_Oom \<Rightarrow> ab_record_oom b)"

definition ab_changes :: "ab_op \<Rightarrow> adaptive_budget \<Rightarrow> bool" where
  "ab_changes op b = (case op of Ab_Success \<Rightarrow> fst (ab_record_success b) | Ab_Oom \<Rightarrow> True)"

text \<open>One report on the budget registered under a key: the move, then the emitted change.\<close>

definition report :: "string \<Rightarrow> ab_op \<Rightarrow> limiter_registry \<Rightarrow> limiter_registry" where
  "report key op r =
     (case map_of (rg_budgets r) key of
        None \<Rightarrow> r
      | Some b \<Rightarrow>
          if ab_changes op b then
            let (_, st, b') = ab_emit_change (rg_store r) (ab_apply op b) in
            r\<lparr>rg_store := st, rg_budgets := dict_set key b' (rg_budgets r)\<rparr>
          else r\<lparr>rg_budgets := dict_set key (ab_apply op b) (rg_budgets r)\<rparr>)"

interpretation budget_ctl: bounded_controller ab_apply ab_effective ab_floor ab_ceil
  "\<lambda>b. ab_floor b \<le> ab_ceil b \<and> 0 \<le> ab_floor b \<and> 0 \<le> ab_step b"
proof unfold_locales
  fix e and s :: adaptive_budget
  show "ab_floor (ab_apply e s) = ab_floor s" "ab_ceil (ab_apply e s) = ab_ceil s"
    "(ab_floor (ab_apply e s) \<le> ab_ceil (ab_apply e s) \<and> 0 \<le> ab_floor (ab_apply e s) \<and> 0 \<le> ab_step (ab_apply e s)) =
     (ab_floor s \<le> ab_ceil s \<and> 0 \<le> ab_floor s \<and> 0 \<le> ab_step s)"
    by (auto simp: ab_apply_def ab_record_success_def ab_record_oom_def Let_def split: ab_op.splits)
  assume "ab_floor s \<le> ab_ceil s \<and> 0 \<le> ab_floor s \<and> 0 \<le> ab_step s"
    "ab_floor s \<le> ab_effective s" "ab_effective s \<le> ab_ceil s"
  then show "ab_floor s \<le> ab_effective (ab_apply e s) \<and> ab_effective (ab_apply e s) \<le> ab_ceil s"
    using halved_bounds [of "ab_floor s" "ab_ceil s" "ab_effective s"]
    by (auto simp: ab_apply_def ab_record_success_def ab_record_oom_def Let_def split: ab_op.splits)
qed


lemma ab_init_sane:
  "ab_floor (ab_init k sd f c st) \<le> ab_ceil (ab_init k sd f c st) \<and> 0 < ab_floor (ab_init k sd f c st) \<and>
   0 < ab_step (ab_init k sd f c st) \<and> ab_floor (ab_init k sd f c st) \<le> ab_effective (ab_init k sd f c st) \<and>
   ab_effective (ab_init k sd f c st) \<le> ab_ceil (ab_init k sd f c st)"
  by (auto simp: ab_init_def Let_def clamp_def)

lemma ab_oom_halves:
  "0 \<le> ab_effective b \<Longrightarrow> ab_effective (ab_record_oom b) = max (ab_floor b) (ab_effective b div 2)"
  using int_trunc_half [of "ab_effective b"] by (simp add: ab_record_oom_def DECREASE_FACTOR_def)

lemma ab_oom_floor [simp]: "ab_floor (ab_record_oom b) = ab_floor b"
  by (simp add: ab_record_oom_def)

lemma max_div: "0 \<le> (a::int) \<Longrightarrow> max a (max a (e div 2 ^ n) div 2) = max a (e div 2 ^ Suc n)"
proof -
  assume a: "0 \<le> a"
  have "e div 2 ^ Suc n = e div 2 ^ n div 2" using zdiv_zmult2_eq [of 2 e "2 ^ n"] by (simp add: mult.commute)
  then show ?thesis using a by (cases "a \<le> e div 2 ^ n") (auto simp: max_def)
qed

text \<open>
  The batch budget of a local lane is bounded and its decrease is geometric: from any
  configuration (even a nonsensical one, which construction repairs), after any history of clean
  batches and out-of-memory reports the budget is between its floor and its ceiling, and \<open>n\<close> further
  out-of-memory reports in a row leave exactly the budget halved \<open>n\<close> times, but never below the floor.
\<close>

theorem budget_bounded_and_geometric:
  fixes seed flo cei step :: int and ops :: "ab_op list" and key :: string
  defines "b \<equiv> fold ab_apply ops (ab_init key seed flo cei step)"
  shows "max 1 flo \<le> ab_effective b \<and> ab_effective b \<le> max (max 1 flo) cei \<and>
    ab_effective ((ab_record_oom ^^ n) b) = max (max 1 flo) (ab_effective b div 2 ^ n)"
proof -
  let ?i = "ab_init key seed flo cei step"
  have i: "ab_floor ?i = max 1 flo" "ab_ceil ?i = max (max 1 flo) cei" by (simp_all add: ab_init_def Let_def)
  have fx: "ab_floor b = max 1 flo" "ab_ceil b = max (max 1 flo) cei"
    using budget_ctl.fold_fixed [of ops ?i] i by (simp_all add: b_def)
  have bd: "max 1 flo \<le> ab_effective b" "ab_effective b \<le> max (max 1 flo) cei"
    using budget_ctl.fold_in [of ?i ops] ab_init_sane [of key seed flo cei step] i by (simp_all add: b_def)
  have "ab_floor ((ab_record_oom ^^ n) b) = max 1 flo \<and>
      ab_effective ((ab_record_oom ^^ n) b) = max (max 1 flo) (ab_effective b div 2 ^ n)"
  proof (induction n)
    case 0
    then show ?case using fx bd by simp
  next
    case (Suc n)
    let ?c = "(ab_record_oom ^^ n) b"
    have "ab_floor (ab_record_oom ?c) = max 1 flo" using Suc by simp
    moreover have "0 \<le> ab_effective ?c" using Suc by simp
    ultimately show ?case using Suc ab_oom_halves [of ?c] max_div [of "max 1 flo" "ab_effective b" n] by simp
  qed
  then show ?thesis using bd by simp
qed

section \<open>One lane per key\<close>

definition rg_wf :: "limiter_registry \<Rightarrow> bool" where
  "rg_wf r = (distinct (map fst (rg_lanes r)) \<and> distinct (map fst (rg_budgets r)))"

text \<open>
  The registry hands out one lane per provider and key: what \<open>lane\<close> returns is what the
  registry holds afterwards; a second request for it returns the same lane and changes nothing,
  whatever limits it is asked with (so its quota accounting is never reset); no other lane, budget
  or the store is touched; and a lane with an empty key is the lane named \<open>default\<close>.
\<close>

theorem lane_one_per_key:
  assumes "lane env now p k spec r = (l, r')"
  shows "get_lane p k r' = Some l \<and> lane env' now' p k spec' r' = (l, r') \<and>
    (\<forall>p' k'. lane_id p' k' \<noteq> lane_id p k \<longrightarrow> get_lane p' k' r' = get_lane p' k' r) \<and>
    rg_budgets r' = rg_budgets r \<and> rg_store r' = rg_store r \<and> (rg_wf r \<longrightarrow> rg_wf r') \<and>
    get_lane p [] r' = get_lane p ''default'' r'"
proof -
  have d: "get_lane p [] r' = get_lane p ''default'' r'" by (simp add: get_lane_def lane_id_def)
  show ?thesis
  proof (cases "map_of (rg_lanes r) (lane_id p k)")
    case None
    then have l: "map_of (rg_lanes r') = (map_of (rg_lanes r))(lane_id p k \<mapsto> l)"
      and r: "rg_budgets r' = rg_budgets r" "rg_store r' = rg_store r" "rg_wf r \<longrightarrow> rg_wf r'"
      using assms by (auto simp: lane_def Let_def rg_wf_def)
    then show ?thesis using d by (simp add: lane_def get_lane_def)
  next
    case (Some l0)
    then show ?thesis using assms d by (auto simp: lane_def get_lane_def)
  qed
qed

theorem lane_one_per_key_witness:
  "get_lane ''groq'' [] (snd (lane demo_env 5 ''groq'' [] demo_spec rg_init)) \<noteq> None"
proof -
  obtain l r' where "lane demo_env 5 ''groq'' [] demo_spec rg_init = (l, r')"
    by (cases "lane demo_env 5 ''groq'' [] demo_spec rg_init")
  then show ?thesis using lane_one_per_key [of demo_env 5 "''groq''" "[]" demo_spec rg_init l r'] by simp
qed

section \<open>What a budget found survives a restart\<close>

definition revived :: "int \<Rightarrow> int \<Rightarrow> int \<Rightarrow> ctl_row option \<Rightarrow> int" where
  "revived lo hi seed row = (case row of None \<Rightarrow> clamp lo hi seed
     | Some rw \<Rightarrow> (case cr_effective rw of None \<Rightarrow> clamp lo hi seed | Some v \<Rightarrow> clamp lo hi v))"

definition bud_durable :: "string \<Rightarrow> int \<Rightarrow> limiter_registry \<Rightarrow> bool" where
  "bud_durable key seed r = (\<exists>b s. map_of (rg_budgets r) key = Some b \<and> rg_store r = Some s \<and> cs_up s \<and>
     ab_name b = key \<and> ab_bound b \<and> ab_floor b \<le> ab_ceil b \<and> 0 \<le> ab_floor b \<and> 0 \<le> ab_step b \<and>
     ab_floor b \<le> ab_effective b \<and> ab_effective b \<le> ab_ceil b \<and>
     ab_effective b = revived (ab_floor b) (ab_ceil b) seed (cs_load key s))"

lemma bind_budget_effective:
  "ab_effective (bind_budget key (Some s) (ab_init key seed f c st)) =
     revived (max 1 f) (max (max 1 f) c) seed (cs_load key s)"
  by (auto simp: bind_budget_def ab_restore_def revived_def ab_init_def Let_def split: option.splits)

lemma bind_budget_frame:
  "ab_floor (bind_budget key st b) = ab_floor b \<and> ab_ceil (bind_budget key st b) = ab_ceil b \<and>
   ab_step (bind_budget key st b) = ab_step b \<and> ab_name (bind_budget key st b) = ab_name b"
  by (auto simp: bind_budget_def ab_restore_def split: option.splits)

lemma revived_in: "lo \<le> hi \<Longrightarrow> lo \<le> revived lo hi seed row \<and> revived lo hi seed row \<le> hi"
  using clamp_bounds [of lo hi] by (auto simp: revived_def split: option.splits)

lemma report_durable:
  assumes "bud_durable key seed r"
  shows "bud_durable key seed (report key op r) \<and>
    (\<forall>b. map_of (rg_budgets r) key = Some b \<longrightarrow> (\<exists>b'. map_of (rg_budgets (report key op r)) key = Some b' \<and>
       ab_effective b' = ab_effective (ab_apply op b) \<and> ab_floor b' = ab_floor b \<and> ab_ceil b' = ab_ceil b))"
proof -
  obtain b s where b: "map_of (rg_budgets r) key = Some b" "rg_store r = Some s" "cs_up s" "ab_name b = key" "ab_bound b"
    and i: "ab_floor b \<le> ab_ceil b \<and> 0 \<le> ab_floor b \<and> 0 \<le> ab_step b" "ab_floor b \<le> ab_effective b" "ab_effective b \<le> ab_ceil b"
    and v: "ab_effective b = revived (ab_floor b) (ab_ceil b) seed (cs_load key s)"
    using assms by (auto simp: bud_durable_def)
  let ?b = "ab_apply op b"
  have f: "ab_floor ?b = ab_floor b" "ab_ceil ?b = ab_ceil b" "ab_step ?b = ab_step b" "ab_name ?b = key" "ab_bound ?b"
    using b by (auto simp: ab_apply_def ab_record_success_def ab_record_oom_def Let_def split: ab_op.splits)
  have e: "ab_floor b \<le> ab_effective ?b" "ab_effective ?b \<le> ab_ceil b"
    using budget_ctl.eff_in [OF i, of op] by simp_all
  show ?thesis
  proof (cases "ab_changes op b")
    case True
    have "revived (ab_floor b) (ab_ceil b) seed (Some (ab_state ?b)) = ab_effective ?b"
      using e by (simp add: revived_def ab_state_def clamp_id)
    then show ?thesis using True b f e i
      by (auto simp: report_def bud_durable_def ab_emit_change_def cs_load_def cs_save_def)
  next
    case False
    then have "ab_effective ?b = ab_effective b"
      by (auto simp: ab_changes_def ab_apply_def ab_record_success_def Let_def split: ab_op.splits if_splits)
    then show ?thesis using False b f e i v by (auto simp: report_def bud_durable_def)
  qed
qed

lemma reports_durable: "bud_durable key seed r \<Longrightarrow> bud_durable key seed (fold (report key) ops r)"
  by (induction ops arbitrary: r) (auto simp: report_durable)

text \<open>
  What a budget has found survives a restart: with a working store attached, create a budget,
  apply any history of reports to it, and let a new process attach the store as it then is and
  create the budget with the same parameters; the new budget has exactly the effective value the
  old one had. (Every change is saved, none is lost, and an unsaved budget is its seed.)
\<close>

theorem budget_survives_restart:
  assumes "rg_store r = Some s" "cs_up s" "map_of (rg_budgets r) key = None"
    and "r' = fold (report key) ops (snd (budget key seed flo cei step r))"
    and "rg_store r' = Some s'" "rg_budgets q = []" "rg_store q = Some s'"
  shows "map_option ab_effective (map_of (rg_budgets r') key) =
         Some (ab_effective (fst (budget key seed flo cei step q)))"
proof -
  let ?b = "bind_budget key (Some s) (ab_init key seed flo cei step)"
  let ?r = "snd (budget key seed flo cei step r)"
  have m: "map_of (rg_budgets ?r) key = Some ?b" "rg_store ?r = Some s"
    using assms(1,3) by (simp_all add: budget_def Let_def)
  have f: "ab_floor ?b = max 1 flo" "ab_ceil ?b = max (max 1 flo) cei" "0 \<le> ab_step ?b" "ab_name ?b = key" "ab_bound ?b"
    using bind_budget_frame [of key "Some s" "ab_init key seed flo cei step"]
    by (simp_all add: ab_init_def Let_def bind_budget_def)
  have "bud_durable key seed ?r"
    using m f assms(2) bind_budget_effective [of key s seed flo cei step]
      revived_in [of "max 1 flo" "max (max 1 flo) cei" seed "cs_load key s"]
    by (simp add: bud_durable_def)
  then have "bud_durable key seed r'" using assms(4) reports_durable by blast
  then obtain b where b: "map_of (rg_budgets r') key = Some b"
    and e: "ab_effective b = revived (ab_floor b) (ab_ceil b) seed (cs_load key s')"
    using assms(5) by (auto simp: bud_durable_def)
  have "\<exists>b'. map_of (rg_budgets (fold (report key) ops x)) key = Some b' \<and> ab_floor b' = ab_floor b0 \<and> ab_ceil b' = ab_ceil b0"
    if "bud_durable key seed x" "map_of (rg_budgets x) key = Some b0" for x b0
    using that
  proof (induction ops arbitrary: x b0)
    case (Cons op ops)
    note step = report_durable [OF Cons.prems(1), of op]
    obtain b1 where b1: "map_of (rg_budgets (report key op x)) key = Some b1" "ab_floor b1 = ab_floor b0" "ab_ceil b1 = ab_ceil b0"
      using conjunct2 [OF step] Cons.prems(2) by blast
    show ?case using Cons.IH [OF conjunct1 [OF step] b1(1)] b1(2,3) by simp
  qed simp
  then have "ab_floor b = max 1 flo" "ab_ceil b = max (max 1 flo) cei"
    using m(1) f(1,2) b assms(4) \<open>bud_durable key seed ?r\<close> by fastforce+
  then show ?thesis
    using b e assms(6,7) bind_budget_effective [of key s' seed flo cei step] by (simp add: budget_def Let_def)
qed

theorem budget_survives_restart_witness:
  "ab_effective (fst (budget ''local'' 4000 500 8000 250
     \<lparr>rg_lanes = [], rg_budgets = [], rg_store = Some \<lparr>cs_rows = [''local'' \<mapsto> empty_row\<lparr>cr_effective := Some 2000, cr_streak := Some 0,
        cr_floor := Some 500, cr_ceiling := Some 8000, cr_step := Some 250, cr_increases := Some 0, cr_ooms := Some 1\<rparr>],
        cs_up = True\<rparr>\<rparr>)) = 2000"
proof -
  let ?r = "\<lparr>rg_lanes = [], rg_budgets = [], rg_store = Some \<lparr>cs_rows = Map.empty, cs_up = True\<rparr>\<rparr>"
  let ?s = "\<lparr>cs_rows = [''local'' \<mapsto> empty_row\<lparr>cr_effective := Some 2000, cr_streak := Some 0,
        cr_floor := Some 500, cr_ceiling := Some 8000, cr_step := Some 250, cr_increases := Some 0, cr_ooms := Some 1\<rparr>],
        cs_up = True\<rparr>"
  let ?r' = "fold (report ''local'') [Ab_Oom] (snd (budget ''local'' 4000 500 8000 250 ?r))"
  have h: "int_trunc 2000 = 2000" using int_trunc_of_int [of 2000] by simp
  have e: "rg_store ?r' = Some ?s" "map_option ab_effective (map_of (rg_budgets ?r') ''local'') = Some 2000"
    using h
    by (simp_all add: budget_def Let_def bind_budget_def ab_restore_def cs_load_def ab_init_def clamp_def report_def
        ab_changes_def ab_apply_def ab_record_oom_def DECREASE_FACTOR_def ab_emit_change_def cs_save_def ab_state_def)
  show ?thesis
    using budget_survives_restart [of ?r _ "''local''" ?r' "[Ab_Oom]" 4000 500 8000 250 ?s
        "\<lparr>rg_lanes = [], rg_budgets = [], rg_store = Some ?s\<rparr>"] e by fastforce
qed

end
