(* ===== verification/Py_Strings.thy ===== *)
theory Py_Strings
  imports Prelude "HOL-Library.Sublist" "HOL-Library.Char_ord" "HOL-Library.List_Lexorder"
    "HOL-Library.Product_Lexorder"
begin

text \<open>
  Python string operations on ASCII text, results with errors, and the stable sort and first
  maximum of Python's \<open>sorted\<close> and \<open>max\<close>. Strings are ordered by character code,
  pairs lexicographically, as Python orders \<open>str\<close> and \<open>tuple\<close>.
\<close>

section \<open>Strings\<close>

definition lower_char :: "char \<Rightarrow> char" where
  "lower_char c = (if 65 \<le> (of_char c :: nat) \<and> (of_char c :: nat) \<le> 90 then char_of (of_char c + 32 :: nat) else c)"

definition py_lower :: "string \<Rightarrow> string" where
  "py_lower s = map lower_char s"

text \<open>ASCII letters and digits (\<open>str.isalpha\<close>, \<open>str.isdigit\<close>).\<close>

definition is_alpha :: "char \<Rightarrow> bool" where
  "is_alpha c = (65 \<le> (of_char c :: nat) \<and> (of_char c :: nat) \<le> 90 \<or> 97 \<le> (of_char c :: nat) \<and> (of_char c :: nat) \<le> 122)"

definition py_isdigit :: "char \<Rightarrow> bool" where
  "py_isdigit c = (48 \<le> (of_char c :: nat) \<and> (of_char c :: nat) \<le> 57)"

text \<open>\<open>sub in s\<close>, \<open>s.startswith(p)\<close>, \<open>s.split(c)[0]\<close>, \<open>s.strip(chars)\<close>, \<open>str(i)\<close>.\<close>

abbreviation str_in :: "string \<Rightarrow> string \<Rightarrow> bool" where
  "str_in sub s \<equiv> sublist sub s"

abbreviation starts_with :: "string \<Rightarrow> string \<Rightarrow> bool" where
  "starts_with p s \<equiv> prefix p s"

definition before_char :: "char \<Rightarrow> string \<Rightarrow> string" where
  "before_char c s = takeWhile (\<lambda>x. x \<noteq> c) s"

definition strip_chars :: "string \<Rightarrow> string \<Rightarrow> string" where
  "strip_chars cs s = rev (dropWhile (\<lambda>c. c \<in> set cs) (rev (dropWhile (\<lambda>c. c \<in> set cs) s)))"

fun dec_nat :: "nat \<Rightarrow> string" where
  "dec_nat n = (if n < 10 then [char_of (48 + n)] else dec_nat (n div 10) @ [char_of (48 + n mod 10)])"

declare dec_nat.simps [simp del]

definition dec_int :: "int \<Rightarrow> string" where
  "dec_int i = (if i < 0 then CHR ''-'' # dec_nat (nat (- i)) else dec_nat (nat i))"

text \<open>\<open>s.replace(old, new)\<close> for a non-empty \<open>old\<close>: leftmost, non-overlapping.\<close>

function py_replace :: "string \<Rightarrow> string \<Rightarrow> string \<Rightarrow> string" where
  "py_replace old new s =
     (if old = [] then s
      else if s = [] then []
      else if prefix old s then new @ py_replace old new (drop (length old) s)
      else hd s # py_replace old new (tl s))"
  by pat_completeness auto
termination
  by (relation "measure (\<lambda>(old, new, s). length s)") (auto simp: prefix_def)

declare py_replace.simps [simp del]

definition or_str :: "string option \<Rightarrow> string \<Rightarrow> string" where
  "or_str x y = (case x of None \<Rightarrow> y | Some s \<Rightarrow> if s = [] then y else s)"

text \<open>
  The matches of a pattern \<open>[S][C]{n,}\<close> with \<open>S\<close> inside \<open>C\<close>, left to right: an \<open>S\<close> character starts a
  match when at least \<open>n\<close> characters of \<open>C\<close> follow, the match takes them all, and scanning resumes
  after it.
\<close>

function regex_words :: "(char \<Rightarrow> bool) \<Rightarrow> (char \<Rightarrow> bool) \<Rightarrow> nat \<Rightarrow> string \<Rightarrow> string list" where
  "regex_words S C n [] = []"
| "regex_words S C n (c # cs) =
     (if S c \<and> n \<le> length (takeWhile C cs)
      then (c # takeWhile C cs) # regex_words S C n (dropWhile C cs)
      else regex_words S C n cs)"
  by pat_completeness auto
termination
  by (relation "measure (\<lambda>(S, C, n, s). length s)") (auto simp: length_dropWhile_le le_imp_less_Suc)

lemma regex_word_chars: "(\<And>c. S c \<Longrightarrow> C c) \<Longrightarrow> w \<in> set (regex_words S C n s) \<Longrightarrow> list_all C w"
proof (induction S C n s rule: regex_words.induct)
  case (2 S C n d cs)
  show ?case
  proof (cases "S d \<and> n \<le> length (takeWhile C cs) \<and> w = d # takeWhile C cs")
    case True
    then have "list_all C (takeWhile C cs)" by (auto simp: list_all_iff dest: set_takeWhileD)
    then show ?thesis using True "2.prems"(1) by simp
  next
    case False
    then show ?thesis using 2 by (auto split: if_splits)
  qed
qed simp

lemma strip_chars_subset: "set (strip_chars cs s) \<subseteq> set s"
proof -
  have drop: "set (dropWhile P xs) \<subseteq> set xs" for P :: "char \<Rightarrow> bool" and xs by (blast dest: set_dropWhileD)
  have "set (dropWhile (\<lambda>c. c \<in> set cs) (rev (dropWhile (\<lambda>c. c \<in> set cs) s))) \<subseteq> set (dropWhile (\<lambda>c. c \<in> set cs) s)"
    using drop [of "\<lambda>c. c \<in> set cs" "rev (dropWhile (\<lambda>c. c \<in> set cs) s)"] by simp
  also have "\<dots> \<subseteq> set s" by (rule drop)
  finally show ?thesis by (simp add: strip_chars_def)
qed

section \<open>Results with errors\<close>

fun res_bind :: "'e + 'a \<Rightarrow> ('a \<Rightarrow> 'e + 'b) \<Rightarrow> 'e + 'b" where
  "res_bind (Inl e) f = Inl e"
| "res_bind (Inr x) f = f x"

text \<open>A loop body that raises, skips (\<open>continue\<close>) or appends.\<close>

fun collect :: "('a \<Rightarrow> 'e + 'b option) \<Rightarrow> 'a list \<Rightarrow> 'e + 'b list" where
  "collect f [] = Inr []"
| "collect f (x # xs) = res_bind (f x) (\<lambda>y. res_bind (collect f xs) (\<lambda>ys.
     Inr (case y of None \<Rightarrow> ys | Some z \<Rightarrow> z # ys)))"

lemma res_bind_Inr [simp]: "res_bind r f = Inr y \<longleftrightarrow> (\<exists>x. r = Inr x \<and> f x = Inr y)"
  by (cases r) auto

lemma res_bind_Inl [simp]: "res_bind r f = Inl e \<longleftrightarrow> r = Inl e \<or> (\<exists>x. r = Inr x \<and> f x = Inl e)"
  by (cases r) auto

lemma collect_set: "collect f xs = Inr ys \<Longrightarrow> set ys = {y. \<exists>x \<in> set xs. f x = Inr (Some y)}"
proof (induction xs arbitrary: ys)
  case (Cons x xs)
  then obtain y zs where y: "f x = Inr y" "collect f xs = Inr zs"
    and ys: "ys = (case y of None \<Rightarrow> zs | Some z \<Rightarrow> z # zs)" by auto
  have "set zs = {y. \<exists>x \<in> set xs. f x = Inr (Some y)}" using Cons.IH y(2) by blast
  then show ?case using y(1) ys by (cases y) auto
qed simp

lemma collect_all: "collect f xs = Inr ys \<Longrightarrow> x \<in> set xs \<Longrightarrow> \<exists>y. f x = Inr y"
  by (induction xs arbitrary: ys) auto

lemma find_in: "find P xs = Some x \<Longrightarrow> x \<in> set xs"
  by (auto simp: find_Some_iff)

section \<open>Sorting and maxima\<close>

text \<open>\<open>sorted(xs, key=f)\<close> is the stable \<open>sort_key\<close>; \<open>max(xs, key=f)\<close> is the first maximum.\<close>

fun py_max :: "('a \<Rightarrow> 'k::linorder) \<Rightarrow> 'a \<Rightarrow> 'a list \<Rightarrow> 'a" where
  "py_max f b [] = b"
| "py_max f b (x # xs) = py_max f (if f b < f x then x else b) xs"

lemma py_max_in: "py_max f b xs \<in> insert b (set xs)"
  by (induction xs arbitrary: b) (auto split: if_splits)

lemma py_max_ge: "y \<in> insert b (set xs) \<Longrightarrow> f y \<le> f (py_max f b xs)"
proof (induction xs arbitrary: b y)
  case (Cons x xs)
  have "f b \<le> f (if f b < f x then x else b)" "f x \<le> f (if f b < f x then x else b)" by auto
  moreover have "f (if f b < f x then x else b) \<le> f (py_max f b (x # xs))" using Cons.IH by simp
  ultimately show ?case using Cons by (auto intro: order_trans)
qed simp

fun py_min :: "('a \<Rightarrow> 'k::linorder) \<Rightarrow> 'a \<Rightarrow> 'a list \<Rightarrow> 'a" where
  "py_min f b [] = b"
| "py_min f b (x # xs) = py_min f (if f x < f b then x else b) xs"

lemma py_min_in: "py_min f b xs \<in> insert b (set xs)"
  by (induction xs arbitrary: b) (auto split: if_splits)

lemma py_min_le: "y \<in> insert b (set xs) \<Longrightarrow> f (py_min f b xs) \<le> f y"
proof (induction xs arbitrary: b y)
  case (Cons x xs)
  have "f (py_min f b (x # xs)) \<le> f (if f x < f b then x else b)" using Cons.IH by simp
  moreover have "f (if f x < f b then x else b) \<le> f b" "f (if f x < f b then x else b) \<le> f x" by auto
  ultimately have "f (py_min f b (x # xs)) \<le> f b" "f (py_min f b (x # xs)) \<le> f x"
    using order_trans by metis+
  then show ?case using Cons by auto
qed simp

text \<open>\<open>sep.join(parts)\<close> with a one-character separator is injective on separator-free parts.\<close>

fun py_join :: "char \<Rightarrow> string list \<Rightarrow> string" where
  "py_join c [] = []"
| "py_join c [s] = s"
| "py_join c (s # t # ss) = s @ c # py_join c (t # ss)"

lemma sep_split:
  assumes "c \<notin> set a" "c \<notin> set b" "a @ c # x = b @ c # y"
  shows "a = b \<and> x = y"
  using assms
proof (induction a arbitrary: b)
  case Nil
  then show ?case by (cases b) auto
next
  case (Cons d a)
  then show ?case by (cases b) auto
qed

lemma py_join_cons: "ss \<noteq> [] \<Longrightarrow> py_join c (s # ss) = s @ c # py_join c ss"
  by (cases ss) auto

lemma py_join_inj:
  assumes "py_join c xs = py_join c ys" "\<forall>s \<in> set xs \<union> set ys. c \<notin> set s" "xs \<noteq> []" "ys \<noteq> []"
  shows "xs = ys"
  using assms
proof (induction xs arbitrary: ys)
  case (Cons s ss)
  obtain t tt where ys: "ys = t # tt" using Cons.prems(4) by (cases ys) auto
  have st: "c \<notin> set s" "c \<notin> set t" using Cons.prems(2) ys by auto
  show ?case
  proof (cases "ss = [] \<or> tt = []")
    case True
    then show ?thesis using Cons.prems(1) st ys by (cases ss; cases tt) (auto simp: py_join_cons)
  next
    case False
    then have "s = t \<and> py_join c ss = py_join c tt"
      using sep_split [OF st] Cons.prems(1) ys by (simp add: py_join_cons)
    then show ?thesis using Cons.IH [of tt] Cons.prems(2) False ys by auto
  qed
qed simp

fun index_of :: "'a \<Rightarrow> 'a list \<Rightarrow> nat" where
  "index_of x [] = 0"
| "index_of x (y # ys) = (if x = y then 0 else Suc (index_of x ys))"

end
