(* ===== verification/Lane_Policy.thy ===== *)
theory Lane_Policy
  imports Py_Strings
begin

text \<open>
  Which lane extracts a document (\<^verbatim>\<open>llm_extraction/policy.py\<close>: the byte threshold, checked at
  selection and again at dispatch) and what capacity a lane is taken to have
  (\<^verbatim>\<open>llm_extraction/effective_capacity.py\<close>: observed headers, then account configuration, then
  the vendored catalogue, else unknown).
\<close>

section \<open>The lane decision\<close>

datatype policy_error = Negative_Threshold int | Negative_Source int | Cloud_Boundary_Violation int int

record lane_decision =
  ln_lane :: string
  ln_source_bytes :: int
  ln_threshold :: int
  ln_reason :: string

definition CLOUD_MIN_BYTES :: int where
  "CLOUD_MIN_BYTES = 0"

definition assist :: "lane_decision \<Rightarrow> bool" where
  "assist d = starts_with ''assist'' (ln_reason d)"

definition effective_threshold :: "int option \<Rightarrow> policy_error + int" where
  "effective_threshold threshold =
     (case threshold of
        None \<Rightarrow> Inr CLOUD_MIN_BYTES
      | Some v \<Rightarrow> if v < 0 then Inl (Negative_Threshold v) else Inr (max v CLOUD_MIN_BYTES))"

definition select_lane :: "int \<Rightarrow> int option \<Rightarrow> string option \<Rightarrow> policy_error + lane_decision" where
  "select_lane source_bytes threshold affinity =
     (if source_bytes < 0 then Inl (Negative_Source source_bytes)
      else res_bind (effective_threshold threshold) (\<lambda>t.
        let mk = (\<lambda>lane reason. \<lparr>ln_lane = lane, ln_source_bytes = source_bytes, ln_threshold = t,
                                  ln_reason = reason\<rparr>) in
        if t < source_bytes then
          Inr (mk ''cloud'' (''source '' @ dec_int source_bytes @ '' B > '' @ dec_int t @ '' B throughput floor''))
        else if affinity = Some ''cloud'' then
          Inr (mk ''cloud'' (''assist: cloud lane idle, source '' @ dec_int source_bytes @ '' B <= '' @
                             dec_int t @ '' B rides the pool''))
        else
          Inr (mk ''local'' (''source '' @ dec_int source_bytes @ '' B <= '' @ dec_int t @ '' B prefers local''))))"

definition require_cloud_eligible :: "int \<Rightarrow> int option \<Rightarrow> bool \<Rightarrow> policy_error + lane_decision" where
  "require_cloud_eligible source_bytes threshold assisted =
     res_bind (select_lane source_bytes threshold (if assisted then Some ''cloud'' else None)) (\<lambda>d.
       if ln_lane d \<noteq> ''cloud'' then Inl (Cloud_Boundary_Violation source_bytes (ln_threshold d)) else Inr d)"

lemma select_lane_spec:
  assumes "select_lane b t aff = Inr d"
  shows "effective_threshold t = Inr (ln_threshold d) \<and> 0 \<le> b \<and>
    ln_lane d = (if ln_threshold d < b \<or> aff = Some ''cloud'' then ''cloud'' else ''local'') \<and>
    assist d = (b \<le> ln_threshold d \<and> aff = Some ''cloud'')"
proof -
  obtain tt where t: "effective_threshold t = Inr tt" and b: "0 \<le> b"
    using assms by (auto simp: select_lane_def split: if_splits)
  consider "tt < b" | "b \<le> tt" "aff = Some ''cloud''" | "b \<le> tt" "aff \<noteq> Some ''cloud''" by linarith
  then show ?thesis
    using assms t b by cases (simp_all add: select_lane_def Let_def assist_def, auto simp: assist_def)
qed

lemma select_lane_ok:
  "effective_threshold t = Inr tt \<Longrightarrow> 0 \<le> b \<Longrightarrow> \<exists>d. select_lane b t aff = Inr d"
  by (simp add: select_lane_def Let_def)

text \<open>
  The two boundaries agree: a document that selection sends to the cloud passes the dispatch
  guard when the decision's own assist flag is carried with it, with the same effective threshold;
  one that selection keeps local is refused by the guard unless assist is declared; and a document
  above the effective threshold is never kept local, whatever the worker's affinity.
\<close>

theorem dispatch_guard_matches_selection:
  assumes "select_lane b t aff = Inr d"
  shows "(ln_lane d = ''cloud'' \<longrightarrow>
           (\<exists>d'. require_cloud_eligible b t (assist d) = Inr d' \<and> ln_lane d' = ''cloud'' \<and>
              ln_threshold d' = ln_threshold d \<and> assist d' = assist d)) \<and>
         (ln_lane d = ''local'' \<longrightarrow>
           require_cloud_eligible b t False = Inl (Cloud_Boundary_Violation b (ln_threshold d))) \<and>
         (ln_threshold d < b \<longrightarrow> ln_lane d = ''cloud'' \<and> \<not> assist d) \<and>
         ln_lane d \<in> {''local'', ''cloud''}"
proof -
  note d = select_lane_spec [OF assms]
  obtain d1 where g: "select_lane b t (if assist d then Some ''cloud'' else None) = Inr d1"
    using d select_lane_ok by blast
  obtain d2 where l: "select_lane b t None = Inr d2" using d select_lane_ok by blast
  note g1 = select_lane_spec [OF g] and l1 = select_lane_spec [OF l]
  have "ln_threshold d1 = ln_threshold d" "ln_threshold d2 = ln_threshold d" using d g1 l1 by simp_all
  then show ?thesis using d g g1 l l1 by (auto simp: require_cloud_eligible_def)
qed

theorem dispatch_guard_matches_selection_witness:
  "\<exists>d. select_lane 1000 (Some 300000) (Some ''cloud'') = Inr d \<and>
    (\<exists>d'. require_cloud_eligible 1000 (Some 300000) (assist d) = Inr d')"
proof -
  obtain d where d: "select_lane 1000 (Some 300000) (Some ''cloud'') = Inr d" "ln_lane d = ''cloud''"
    by (simp add: select_lane_def effective_threshold_def CLOUD_MIN_BYTES_def Let_def)
  then show ?thesis using dispatch_guard_matches_selection [OF d(1)] by blast
qed

section \<open>Effective capacity\<close>

datatype cap_field = F_rpm | F_tpm | F_rpd | F_conc_cap

datatype cap_source = SRC_OBSERVED | SRC_CONFIG | SRC_SEED | SRC_UNKNOWN

definition FIELDS :: "cap_field list" where
  "FIELDS = [F_rpm, F_tpm, F_rpd, F_conc_cap]"

text \<open>A limits mapping gives each field at most one value; a JSON null is an absent value.\<close>

type_synonym limits = "(cap_field, int option) dict"

record seed_entry =
  se_provider :: string
  se_model :: string
  se_limits :: limits

record seed_catalog =
  sd_entries :: "seed_entry list"
  sd_version :: "string option"

definition load_seed :: "seed_catalog option \<Rightarrow> seed_catalog" where
  "load_seed file = (case file of None \<Rightarrow> \<lparr>sd_entries = [], sd_version = None\<rparr> | Some s \<Rightarrow> s)"

definition provider_slug :: "string \<Rightarrow> string \<Rightarrow> string" where
  "provider_slug provider_host model =
     (let h = py_lower provider_host; m = py_lower model in
      if str_in ''groq'' h \<or> starts_with ''groq/'' m then ''groq''
      else if str_in ''generativelanguage'' h \<or> str_in ''google'' h \<or> starts_with ''gemini'' m then ''google''
      else if str_in ''openrouter'' h then ''openrouter''
      else if str_in ''siliconflow'' h then ''siliconflow''
      else if str_in ''nvidia'' h \<or> str_in ''integrate.api.nvidia'' h then ''nvidia''
      else if str_in ''localhost'' h \<or> str_in ''127.0.0.1'' h \<or> h = [] then ''local''
      else if h \<noteq> [] then before_char (CHR ''.'') h else ''unknown'')"

fun seed_scan :: "string \<Rightarrow> string \<Rightarrow> limits option \<Rightarrow> seed_entry list \<Rightarrow> limits option" where
  "seed_scan slug model_l wild [] = wild"
| "seed_scan slug model_l wild (e # es) =
     (if py_lower (se_provider e) \<noteq> slug then seed_scan slug model_l wild es
      else let em = py_lower (se_model e) in
        if em \<noteq> [] \<and> em \<noteq> ''*'' \<and> str_in em model_l then Some (se_limits e)
        else seed_scan slug model_l (if em = ''*'' then Some (se_limits e) else wild) es)"

definition seed_for :: "string \<Rightarrow> string \<Rightarrow> seed_catalog \<Rightarrow> limits option" where
  "seed_for provider_host model seed =
     seed_scan (provider_slug provider_host model) (py_lower model) None (sd_entries seed)"

record lane_info =
  li_name :: string
  li_provider_host :: string
  li_model :: string
  li_capacity :: limits

record effective_capacity =
  ec_lane :: string
  ec_values :: limits
  ec_sources :: "(cap_field, cap_source) dict"
  ec_seed_version :: "string option"

definition limit_at :: "limits \<Rightarrow> cap_field \<Rightarrow> int option" where
  "limit_at m f = (case map_of m f of None \<Rightarrow> None | Some v \<Rightarrow> v)"

definition resolve_field :: "limits \<Rightarrow> limits \<Rightarrow> limits \<Rightarrow> cap_field \<Rightarrow> int option \<times> cap_source" where
  "resolve_field obs cfg seed f =
     (if limit_at obs f \<noteq> None then (limit_at obs f, SRC_OBSERVED)
      else if limit_at cfg f \<noteq> None then (limit_at cfg f, SRC_CONFIG)
      else if limit_at seed f \<noteq> None then (limit_at seed f, SRC_SEED)
      else (None, SRC_UNKNOWN))"

definition resolve :: "lane_info \<Rightarrow> limits \<Rightarrow> seed_catalog \<Rightarrow> effective_capacity" where
  "resolve lane observed seed =
     (let seed_limits = (case seed_for (li_provider_host lane) (li_model lane) seed of None \<Rightarrow> [] | Some l \<Rightarrow> l);
          r = resolve_field observed (li_capacity lane) seed_limits in
      \<lparr>ec_lane = li_name lane, ec_values = map (\<lambda>f. (f, fst (r f))) FIELDS,
       ec_sources = map (\<lambda>f. (f, snd (r f))) FIELDS, ec_seed_version = sd_version seed\<rparr>)"

definition resolve_all :: "lane_info list \<Rightarrow> (string, limits) dict \<Rightarrow> seed_catalog option \<Rightarrow> effective_capacity list" where
  "resolve_all lanes observed file =
     map (\<lambda>l. resolve l (case map_of observed (li_name l) of None \<Rightarrow> [] | Some ob \<Rightarrow> ob) (load_seed file)) lanes"

lemma ec_lookup:
  "limit_at (ec_values (resolve l obs seed)) f = fst (resolve_field obs (li_capacity l)
     (case seed_for (li_provider_host l) (li_model l) seed of None \<Rightarrow> [] | Some s \<Rightarrow> s) f)"
  "map_of (ec_sources (resolve l obs seed)) f = Some (snd (resolve_field obs (li_capacity l)
     (case seed_for (li_provider_host l) (li_model l) seed of None \<Rightarrow> [] | Some s \<Rightarrow> s) f))"
  by (cases f; simp add: resolve_def Let_def FIELDS_def limit_at_def)+

text \<open>
  Capacity follows the precedence: a field observed in the provider's headers has the
  observed value; otherwise a configured one its configured value; otherwise a value of the
  catalogue entry; a field no layer knows stays unknown, and no field is ever invented: its value
  is present exactly when some layer states one, and its recorded source names the strongest
  layer that does.
\<close>

theorem resolve_follows_precedence:
  fixes obs :: limits and l :: lane_info and seed :: seed_catalog
  defines "seed_limits \<equiv> (case seed_for (li_provider_host l) (li_model l) seed of None \<Rightarrow> [] | Some s \<Rightarrow> s)"
  shows "limit_at (ec_values (resolve l obs seed)) f =
      (case limit_at obs f of Some v \<Rightarrow> Some v | None \<Rightarrow>
        (case limit_at (li_capacity l) f of Some v \<Rightarrow> Some v | None \<Rightarrow> limit_at seed_limits f)) \<and>
    (map_of (ec_sources (resolve l obs seed)) f = Some SRC_UNKNOWN) =
      (limit_at obs f = None \<and> limit_at (li_capacity l) f = None \<and> limit_at seed_limits f = None) \<and>
    (map_of (ec_sources (resolve l obs seed)) f = Some SRC_OBSERVED) = (limit_at obs f \<noteq> None) \<and>
    (map_of (ec_sources (resolve l obs seed)) f = Some SRC_CONFIG) =
      (limit_at obs f = None \<and> limit_at (li_capacity l) f \<noteq> None)"
  unfolding seed_limits_def ec_lookup by (auto simp: resolve_field_def split: option.splits)

text \<open>
  The catalogue matches a model by substring and takes the first matching entry of the
  provider: an entry for a shorter name shadows a later entry for the lane's exact model, and a
  provider wildcard is used exactly when no named entry matches.
\<close>

theorem seed_first_substring_match:
  "seed_scan slug m wild es =
     (case find (\<lambda>e. py_lower (se_provider e) = slug \<and> se_model e \<noteq> [] \<and> py_lower (se_model e) \<noteq> ''*'' \<and>
                    str_in (py_lower (se_model e)) m) es of
        Some e \<Rightarrow> Some (se_limits e)
      | None \<Rightarrow> (case find (\<lambda>e. py_lower (se_provider e) = slug \<and> py_lower (se_model e) = ''*'') (rev es) of
            Some e \<Rightarrow> Some (se_limits e) | None \<Rightarrow> wild))"
proof (induction es arbitrary: wild)
  case (Cons e es)
  have f: "find P (xs @ [y]) = (case find P xs of Some x \<Rightarrow> Some x | None \<Rightarrow> if P y then Some y else None)"
    for P and xs :: "seed_entry list" and y by (induction xs) auto
  have e: "py_lower (se_model e) = [] \<longleftrightarrow> se_model e = []" by (simp add: py_lower_def)
  show ?case
    by (auto simp: Cons.IH f e Let_def split: option.splits)
qed simp

end
