(* ===== verification/Pool.thy ===== *)
theory Pool
  imports Py_Strings "HOL-Library.Multiset"
begin

text \<open>
  The cloud endpoint pool (\<^verbatim>\<open>llm_extraction/pool.py\<close>): the roster of enabled endpoints from
  settings, provider file and extra endpoints; stage pins; the deterministic ring pick with its
  failover walk; and the family-interleaved ring (smooth weighted round-robin).

  Read from outside: the process environment and the lines of the \<open>.env\<close> file, the parsed
  provider file (whose entries have the documented field types), the settings, and the 8-byte
  document digest (\<open>digest\<close>, blake2b in the code). Logging is not modelled.
\<close>

section \<open>Endpoints and configuration\<close>

record cloud_endpoint =
  ep_name :: string
  ep_url :: string
  ep_model :: string
  ep_api_key :: "string option"
  ep_reasoning_effort :: "string option"
  ep_json_mode :: bool
  ep_structured :: string
  ep_dedicated :: bool
  ep_request_char_budget :: int
  ep_enable_thinking :: "bool option"
  ep_think_suffix :: "string option"

definition ep_default :: "string \<Rightarrow> string \<Rightarrow> string \<Rightarrow> cloud_endpoint" where
  "ep_default name url model = \<lparr>ep_name = name, ep_url = url, ep_model = model, ep_api_key = None,
     ep_reasoning_effort = None, ep_json_mode = True, ep_structured = ''json'', ep_dedicated = False,
     ep_request_char_budget = 60000, ep_enable_thinking = None, ep_think_suffix = None\<rparr>"

definition limiter_key :: "cloud_endpoint \<Rightarrow> string" where
  "limiter_key ep = (if ep_name ep = ''primary'' then ''default'' else ep_name ep)"

record cloud_opts_rec =
  co_reasoning_effort :: "string option"
  co_structured :: string
  co_json_mode :: bool
  co_enable_thinking :: "bool option"
  co_think_suffix :: "string option"

definition cloud_opts :: "cloud_endpoint \<Rightarrow> cloud_opts_rec" where
  "cloud_opts ep = \<lparr>co_reasoning_effort = ep_reasoning_effort ep, co_structured = ep_structured ep,
     co_json_mode = (ep_structured ep \<in> {''schema'', ''json''}),
     co_enable_thinking = ep_enable_thinking ep, co_think_suffix = ep_think_suffix ep\<rparr>"

text \<open>One entry of the provider file (or of the extra endpoints); \<open>None\<close> is an absent field.\<close>

record provider_cfg =
  pc_name :: "string option"
  pc_enabled :: "bool option"
  pc_api_key_env :: "string option"
  pc_url :: "string option"
  pc_url_template :: "string option"
  pc_account_id_env :: "string option"
  pc_model :: "string option"
  pc_reasoning_effort :: "string option"
  pc_json_mode :: "bool option"
  pc_structured :: "string option"
  pc_dedicated :: "bool option"
  pc_request_char_budget :: "int option"
  pc_enable_thinking :: "bool option"
  pc_think_suffix :: "string option"

datatype stage_pin_value = Pin_Name string | Pin_Names "string list"

datatype providers_file = Providers_Missing | Providers_Malformed
  | Providers_Parsed "provider_cfg list" "(string, stage_pin_value) dict"

datatype extras_setting = Extras_Unset | Extras_Malformed | Extras_Not_List | Extras_List "provider_cfg list"

record pool_env =
  pe_environ :: "string \<Rightarrow> string option"
  pe_env_lines :: "string list option"
  pe_providers :: providers_file
  pe_cloud_url :: string
  pe_cloud_model :: string
  pe_extras :: extras_setting
  pe_digest :: "string \<Rightarrow> nat"

datatype pool_error = Bad_Structured string | Providers_Not_Json | Bad_Provider_Name | Needs_Url_Model string
  | Extras_Not_Json | Extras_Must_Be_List | Extra_Incomplete | Primary_Reserved | Duplicate_Names "string list"
  | Pinned_Unavailable string "string list"

section \<open>The roster\<close>

definition env_line_value :: "string \<Rightarrow> string \<Rightarrow> string option" where
  "env_line_value env_name line =
     (let l = py_strip line; p = env_name @ ''='' in
      if starts_with p l then
        (let v = strip_chars [CHR 0x27, CHR 0x22] (py_strip (drop 1 (dropWhile (\<lambda>c. c \<noteq> CHR ''='') l))) in
         if v \<noteq> [] then Some v else None)
      else None)"

definition resolve_key :: "pool_env \<Rightarrow> string \<Rightarrow> string option" where
  "resolve_key env env_name =
     (let value = py_strip (case pe_environ env env_name of None \<Rightarrow> [] | Some v \<Rightarrow> v) in
      if value \<noteq> [] then Some value
      else case pe_env_lines env of
        None \<Rightarrow> None
      | Some ls \<Rightarrow> (case find (\<lambda>l. env_line_value env_name l \<noteq> None) ls of
            None \<Rightarrow> None | Some l \<Rightarrow> env_line_value env_name l))"

definition field_str :: "string option \<Rightarrow> string" where
  "field_str x = py_strip (or_str x [])"

definition structured_level :: "provider_cfg \<Rightarrow> pool_error + string" where
  "structured_level e =
     (let level = py_lower (field_str (pc_structured e)) in
      if level \<noteq> [] then
        (if level \<notin> {''schema'', ''json'', ''text''} then Inl (Bad_Structured level) else Inr level)
      else Inr (if pc_json_mode e \<noteq> Some False then ''json'' else ''text''))"

definition optional_key :: "pool_env \<Rightarrow> string \<Rightarrow> string option" where
  "optional_key env key_env = (if key_env \<noteq> [] then resolve_key env key_env else None)"

text \<open>The URL of an entry: \<open>None\<close> parks the provider (its account id is unset).\<close>

definition provider_url :: "pool_env \<Rightarrow> provider_cfg \<Rightarrow> string option" where
  "provider_url env e =
     (let url = field_str (pc_url e); template = field_str (pc_url_template e);
          acct_env = field_str (pc_account_id_env e); acct = optional_key env acct_env in
      if url \<noteq> [] then Some url
      else if template = [] then Some []
      else if acct_env \<noteq> [] \<and> acct = None then None
      else Some (py_replace ''{account_id}'' (case acct of None \<Rightarrow> [] | Some a \<Rightarrow> a) template))"

definition endpoint_of :: "pool_env \<Rightarrow> provider_cfg \<Rightarrow> string \<Rightarrow> string \<Rightarrow> string \<Rightarrow> pool_error + cloud_endpoint option" where
  "endpoint_of env e name url model =
     res_bind (structured_level e) (\<lambda>level.
       Inr (Some \<lparr>ep_name = name, ep_url = url, ep_model = model,
         ep_api_key = optional_key env (field_str (pc_api_key_env e)),
         ep_reasoning_effort = pc_reasoning_effort e, ep_json_mode = (pc_json_mode e \<noteq> Some False),
         ep_structured = level, ep_dedicated = (pc_dedicated e = Some True),
         ep_request_char_budget = (case pc_request_char_budget e of None \<Rightarrow> 60000 | Some n \<Rightarrow> n),
         ep_enable_thinking = pc_enable_thinking e,
         ep_think_suffix = (case field_str (pc_think_suffix e) of [] \<Rightarrow> None | s \<Rightarrow> Some s)\<rparr>))"

definition configured_provider :: "pool_env \<Rightarrow> provider_cfg \<Rightarrow> pool_error + cloud_endpoint option" where
  "configured_provider env e =
     (let name = field_str (pc_name e); key_env = field_str (pc_api_key_env e);
          model = field_str (pc_model e) in
      if name = [] \<or> name = ''primary'' then Inl Bad_Provider_Name
      else if pc_enabled e = Some False then Inr None
      else if key_env \<noteq> [] \<and> optional_key env key_env = None then Inr None
      else case provider_url env e of
        None \<Rightarrow> Inr None
      | Some url \<Rightarrow>
          if url = [] \<or> model = [] then Inl (Needs_Url_Model name)
          else endpoint_of env e name url model)"

definition configured_providers :: "pool_env \<Rightarrow> pool_error + cloud_endpoint list" where
  "configured_providers env =
     (case pe_providers env of
        Providers_Missing \<Rightarrow> Inr []
      | Providers_Malformed \<Rightarrow> Inl Providers_Not_Json
      | Providers_Parsed es _ \<Rightarrow> collect (configured_provider env) es)"

definition extra_endpoint :: "pool_env \<Rightarrow> provider_cfg \<Rightarrow> pool_error + cloud_endpoint option" where
  "extra_endpoint env e =
     (let name = field_str (pc_name e); url = field_str (pc_url e); model = field_str (pc_model e) in
      if name = [] \<or> url = [] \<or> model = [] then Inl Extra_Incomplete
      else if name = ''primary'' then Inl Primary_Reserved
      else res_bind (structured_level e) (\<lambda>level.
        Inr (Some ((ep_default name url model)\<lparr>ep_api_key := optional_key env (field_str (pc_api_key_env e)),
          ep_reasoning_effort := pc_reasoning_effort e, ep_json_mode := (pc_json_mode e \<noteq> Some False),
          ep_structured := level\<rparr>))))"

definition extra_endpoints :: "pool_env \<Rightarrow> pool_error + cloud_endpoint list" where
  "extra_endpoints env =
     (case pe_extras env of
        Extras_Unset \<Rightarrow> Inr []
      | Extras_Malformed \<Rightarrow> Inl Extras_Not_Json
      | Extras_Not_List \<Rightarrow> Inl Extras_Must_Be_List
      | Extras_List es \<Rightarrow> collect (extra_endpoint env) es)"

definition cloud_endpoints :: "pool_env \<Rightarrow> pool_error + cloud_endpoint list" where
  "cloud_endpoints env =
     res_bind (configured_providers env) (\<lambda>ps.
     res_bind (extra_endpoints env) (\<lambda>xs.
       let roster = sort_key ep_name (ep_default ''primary'' (pe_cloud_url env) (pe_cloud_model env) # ps @ xs);
           names = map ep_name roster in
       if card (set names) \<noteq> length names then Inl (Duplicate_Names names) else Inr roster))"

section \<open>Stage pins and the ring pick\<close>

definition stage_pin :: "pool_env \<Rightarrow> string \<Rightarrow> string list option" where
  "stage_pin env stage =
     (case pe_providers env of
        Providers_Parsed _ pins \<Rightarrow> (case map_of pins stage of
            None \<Rightarrow> None
          | Some (Pin_Name s) \<Rightarrow> if s = [] then None else Some [py_strip s]
          | Some (Pin_Names xs) \<Rightarrow> if xs = [] then None
              else Some (filter (\<lambda>x. x \<noteq> []) (map py_strip xs)))
      | _ \<Rightarrow> None)"

definition ring_pick :: "pool_env \<Rightarrow> cloud_endpoint list \<Rightarrow> string \<Rightarrow> int \<Rightarrow> cloud_endpoint" where
  "ring_pick env roster doc_id ring_offset =
     (if length roster = 1 then roster ! 0
      else roster ! nat ((int (pe_digest env doc_id) + ring_offset) mod int (length roster)))"

definition select_cloud_endpoint :: "pool_env \<Rightarrow> string \<Rightarrow> int \<Rightarrow> pool_error + cloud_endpoint" where
  "select_cloud_endpoint env doc_id ring_offset =
     res_bind (cloud_endpoints env) (\<lambda>all.
       let roster = filter (\<lambda>ep. \<not> ep_dedicated ep) all in
       Inr (ring_pick env (if roster = [] then all else roster) doc_id ring_offset))"

definition select_endpoint_for_stage :: "pool_env \<Rightarrow> string \<Rightarrow> string \<Rightarrow> int \<Rightarrow> pool_error + cloud_endpoint" where
  "select_endpoint_for_stage env stage doc_id ring_offset =
     (case stage_pin env stage of
        None \<Rightarrow> select_cloud_endpoint env doc_id 0
      | Some pin \<Rightarrow>
          res_bind (cloud_endpoints env) (\<lambda>all.
            let active = filter (\<lambda>ep. ep_name ep \<in> set pin) all in
            if active = [] then Inl (Pinned_Unavailable stage pin)
            else Inr (ring_pick env active doc_id ring_offset)))"

record fingerprint_row =
  fr_name :: string
  fr_url :: string
  fr_model :: string
  fr_reasoning_effort :: "string option"
  fr_structured :: string
  fr_dedicated :: bool

definition pool_fingerprint :: "pool_env \<Rightarrow> pool_error + fingerprint_row list" where
  "pool_fingerprint env = res_bind (cloud_endpoints env) (\<lambda>eps.
     Inr (map (\<lambda>ep. \<lparr>fr_name = ep_name ep, fr_url = ep_url ep, fr_model = ep_model ep,
       fr_reasoning_effort = ep_reasoning_effort ep, fr_structured = ep_structured ep,
       fr_dedicated = ep_dedicated ep\<rparr>) eps))"

section \<open>The family-interleaved ring\<close>

text \<open>
  The network location of \<open>urlparse\<close>: a scheme (letter, then letters, digits, \<open>+-.\<close>) before the
  first colon is dropped; after \<open>//\<close> the location runs to the first \<open>/\<close>, \<open>?\<close> or \<open>#\<close>.
\<close>

definition scheme_char :: "char \<Rightarrow> bool" where
  "scheme_char c = (is_alpha c \<or> 48 \<le> (of_char c :: nat) \<and> (of_char c :: nat) \<le> 57 \<or> c \<in> set ''+-.'')"

definition url_netloc :: "string \<Rightarrow> string" where
  "url_netloc url =
     (let pre = before_char (CHR '':'') url;
          rest = (if length pre < length url \<and> pre \<noteq> [] \<and> is_alpha (hd pre) \<and> list_all scheme_char pre
                  then drop (Suc (length pre)) url else url) in
      if starts_with ''//'' rest then takeWhile (\<lambda>c. c \<notin> set ''/?#'') (drop 2 rest) else [])"

definition family_of :: "cloud_endpoint \<Rightarrow> string" where
  "family_of ep = (if url_netloc (ep_url ep) = [] then ep_name ep else url_netloc (ep_url ep))"

type_synonym families = "(string, cloud_endpoint list) dict"

fun add_to_family :: "cloud_endpoint \<Rightarrow> families \<Rightarrow> families" where
  "add_to_family ep [] = [(family_of ep, [ep])]"
| "add_to_family ep ((f, eps) # gs) =
     (if f = family_of ep then (f, eps @ [ep]) # gs else (f, eps) # add_to_family ep gs)"

definition group_by_family :: "cloud_endpoint list \<Rightarrow> families" where
  "group_by_family endpoints = fold add_to_family (sort_key ep_name endpoints) []"

text \<open>One family during the interleaving: its remaining lanes, its weight and its counter.\<close>

record family_state =
  fs_family :: string
  fs_left :: "cloud_endpoint list"
  fs_weight :: int
  fs_current :: int

definition swrr_advance :: "family_state list \<Rightarrow> family_state list" where
  "swrr_advance fs = map (\<lambda>f. if fs_left f \<noteq> [] then f\<lparr>fs_current := fs_current f + fs_weight f\<rparr> else f) fs"

definition swrr_pick :: "family_state list \<Rightarrow> nat option" where
  "swrr_pick fs =
     (case filter (\<lambda>i. fs_left (fs ! i) \<noteq> []) [0..<length fs] of
        [] \<Rightarrow> None
      | i # is \<Rightarrow> Some (py_max (\<lambda>i. (fs_current (fs ! i), - int i)) i is))"

definition swrr_emit :: "int \<Rightarrow> nat \<Rightarrow> family_state list \<Rightarrow> cloud_endpoint \<times> family_state list" where
  "swrr_emit tot i fs =
     (hd (fs_left (fs ! i)),
      fs[i := (fs ! i)\<lparr>fs_current := fs_current (fs ! i) - tot, fs_left := tl (fs_left (fs ! i))\<rparr>])"

fun swrr :: "int \<Rightarrow> nat \<Rightarrow> family_state list \<Rightarrow> cloud_endpoint list" where
  "swrr tot 0 fs = []"
| "swrr tot (Suc n) fs =
     (let fs1 = swrr_advance fs in
      case swrr_pick fs1 of
        None \<Rightarrow> []
      | Some i \<Rightarrow> (let (ep, fs2) = swrr_emit tot i fs1 in ep # swrr tot n fs2))"

definition swrr_start :: "families \<Rightarrow> family_state list" where
  "swrr_start gs = map (\<lambda>(f, eps). \<lparr>fs_family = f, fs_left = eps, fs_weight = int (length eps), fs_current = 0\<rparr>)
     (sort_key fst gs)"

definition interleave_by_family :: "cloud_endpoint list \<Rightarrow> cloud_endpoint list" where
  "interleave_by_family endpoints =
     (let groups = group_by_family endpoints in
      if length groups \<le> 1 then sort_key ep_name endpoints
      else let tot = sum_list (map (length \<circ> snd) groups) in
        swrr (int tot) tot (swrr_start groups))"

definition cloud_ring :: "pool_env \<Rightarrow> pool_error + cloud_endpoint list" where
  "cloud_ring env = res_bind (cloud_endpoints env) (\<lambda>all.
     let ring = filter (\<lambda>e. \<not> ep_dedicated e) all in
     Inr (interleave_by_family (if ring = [] then all else ring)))"

definition select_cloud_endpoint_abs :: "pool_env \<Rightarrow> int \<Rightarrow> pool_error + cloud_endpoint" where
  "select_cloud_endpoint_abs env index = res_bind (cloud_ring env) (\<lambda>ring.
     Inr (ring ! nat (index mod int (length ring))))"

definition home_ring_index :: "pool_env \<Rightarrow> string \<Rightarrow> pool_error + int" where
  "home_ring_index env doc_id = res_bind (cloud_ring env) (\<lambda>ring.
     Inr (int (pe_digest env doc_id) mod int (length ring)))"

end
