(* ===== verification/Pool_Facts.thy ===== *)
theory Pool_Facts
  imports Pool
begin

text \<open>
  Facts about the endpoint pool: the roster is sorted, duplicate-free and gated by keys; the
  failover walk visits every endpoint; a pinned stage stays inside its pin group; the
  interleaved ring is a permutation of the roster in which no family runs ahead of its share.
\<close>

section \<open>The failover walk\<close>

lemma ring_pick_nth:
  assumes "roster \<noteq> []"
  shows "ring_pick env roster d off = roster ! nat ((int (pe_digest env d) + off) mod int (length roster))"
  using assms by (auto simp: ring_pick_def)

lemma ring_pick_in:
  assumes "roster \<noteq> []"
  shows "ring_pick env roster d off \<in> set roster"
proof -
  have "(int (pe_digest env d) + off) mod int (length roster) < int (length roster)"
    "0 \<le> (int (pe_digest env d) + off) mod int (length roster)" using assms by simp_all
  then show ?thesis by (simp add: ring_pick_nth [OF assms])
qed

lemma mod_shift_surj:
  fixes n i a :: nat
  assumes "0 < n" "i < n"
  shows "\<exists>k < n. (a + k) mod n = i"
proof -
  have "(a + (i + n - a mod n) mod n) mod n = (a mod n + (i + n - a mod n)) mod n"
    by (metis mod_add_eq mod_mod_trivial)
  also have "a mod n + (i + n - a mod n) = i + n"
    using assms mod_less_divisor [of n a] by linarith
  finally have "(a + (i + n - a mod n) mod n) mod n = i" using assms by simp
  then show ?thesis using assms mod_less_divisor [of n] by blast
qed

lemma ring_pick_nat:
  assumes "roster \<noteq> []"
  shows "ring_pick env roster d (int k) = roster ! ((pe_digest env d + k) mod length roster)"
proof -
  have "(int (pe_digest env d) + int k) mod int (length roster) = int ((pe_digest env d + k) mod length roster)"
    by (simp add: zmod_int)
  then show ?thesis using ring_pick_nth [OF assms] by simp
qed

text \<open>
  The failover walk of a document visits every endpoint of its roster before it repeats:
  offsets 0 to n-1 from its home lane pick each endpoint exactly once, offset n is the
  home lane again, and every offset, negative ones included, picks a member of the roster.
\<close>

theorem failover_visits_all:
  assumes "roster \<noteq> []"
  shows "mset (map (\<lambda>k. ring_pick env roster d (int k)) [0..<length roster]) = mset roster \<and>
    ring_pick env roster d (off + int (length roster)) = ring_pick env roster d off \<and>
    ring_pick env roster d off \<in> set roster"
proof -
  let ?n = "length roster" and ?a = "pe_digest env d"
  have n: "0 < ?n" using assms by simp
  have inj: "inj_on (\<lambda>k. (?a + k) mod ?n) {0..<?n}"
  proof (rule eq_card_imp_inj_on)
    have "(\<lambda>k. (?a + k) mod ?n) ` {0..<?n} = {0..<?n}"
      using mod_shift_surj [OF n, of _ ?a] n by (auto simp: image_def) (metis atLeastLessThan_iff zero_le)
    then show "card ((\<lambda>k. (?a + k) mod ?n) ` {0..<?n}) = card {0..<?n}" by simp
  qed simp
  have "image_mset (\<lambda>k. (?a + k) mod ?n) (mset_set {0..<?n}) = mset_set ((\<lambda>k. (?a + k) mod ?n) ` {0..<?n})"
    using inj by (rule image_mset_mset_set)
  moreover have "(\<lambda>k. (?a + k) mod ?n) ` {0..<?n} = {0..<?n}"
    using mod_shift_surj [OF n, of _ ?a] n by (auto simp: image_def) (metis atLeastLessThan_iff zero_le)
  ultimately have "mset (map (\<lambda>k. (?a + k) mod ?n) [0..<?n]) = mset [0..<?n]" by simp
  then have "mset (map ((!) roster) (map (\<lambda>k. (?a + k) mod ?n) [0..<?n])) = mset (map ((!) roster) [0..<?n])"
    by (simp only: mset_map)
  then have "mset (map (\<lambda>k. ring_pick env roster d (int k)) [0..<?n]) = mset roster"
    using ring_pick_nat [OF assms] by (simp add: comp_def map_nth)
  moreover have "ring_pick env roster d off \<in> set roster" using assms by (rule ring_pick_in)
  moreover have "(int ?a + (off + int ?n)) mod int ?n = (int ?a + off) mod int ?n"
    by (simp add: add.assoc [symmetric])
  then have "ring_pick env roster d (off + int ?n) = ring_pick env roster d off" by (simp add: ring_pick_nth [OF assms])
  ultimately show ?thesis by blast
qed

section \<open>The interleaving\<close>

definition swrr_inv :: "int \<Rightarrow> int \<Rightarrow> family_state list \<Rightarrow> bool" where
  "swrr_inv tot t fs =
     ((\<forall>f \<in> set fs. 0 \<le> fs_weight f \<and>
        (fs_left f \<noteq> [] \<longrightarrow> fs_current f = t * fs_weight f - (fs_weight f - int (length (fs_left f))) * tot) \<and>
        (fs_weight f - int (length (fs_left f))) * tot < t * fs_weight f + tot) \<and>
      sum_list (map (int \<circ> length \<circ> fs_left) fs) = tot - t \<and> sum_list (map fs_weight fs) = tot)"

lemma swrr_advance_frame [simp]:
  "length (swrr_advance fs) = length fs"
  "map fs_left (swrr_advance fs) = map fs_left fs"
  "map fs_weight (swrr_advance fs) = map fs_weight fs"
  "map fs_family (swrr_advance fs) = map fs_family fs"
  by (auto simp: swrr_advance_def)

lemma swrr_some_positive:
  assumes "swrr_inv tot t fs" "t < tot" "0 < tot"
  shows "\<exists>f \<in> set (swrr_advance fs). fs_left f \<noteq> [] \<and> 0 < fs_current f"
proof (rule ccontr)
  assume no: "\<not> ?thesis"
  let ?v = "\<lambda>f. (t + 1) * fs_weight f - (fs_weight f - int (length (fs_left f))) * tot"
  have "?v f \<le> 0" if "f \<in> set fs" for f
  proof (cases "fs_left f = []")
    case True
    have "0 \<le> fs_weight f * (tot - t - 1)" using assms that by (simp add: swrr_inv_def)
    then show ?thesis using True by (simp add: algebra_simps)
  next
    case False
    then have "f\<lparr>fs_current := fs_current f + fs_weight f\<rparr> \<in> set (swrr_advance fs)"
      using that by (force simp: swrr_advance_def)
    then have "fs_current f + fs_weight f \<le> 0" using no False by fastforce
    moreover have "fs_current f = t * fs_weight f - (fs_weight f - int (length (fs_left f))) * tot"
      using assms(1) that False by (simp add: swrr_inv_def)
    ultimately show ?thesis by (simp add: algebra_simps)
  qed
  then have "sum_list (map ?v fs) \<le> 0" by (intro sum_list_nonpos) auto
  moreover have "sum_list (map ?v fs) = (t + 1) * sum_list (map fs_weight fs) - sum_list (map fs_weight fs) * tot
      + sum_list (map (int \<circ> length \<circ> fs_left) fs) * tot"
    by (induction fs) (simp_all add: algebra_simps)
  moreover have "sum_list (map fs_weight fs) = tot" "sum_list (map (int \<circ> length \<circ> fs_left) fs) = tot - t"
    using assms(1) by (simp_all add: swrr_inv_def)
  ultimately show False using assms(3) by (simp add: algebra_simps)
qed

lemma swrr_pick_some:
  assumes "swrr_inv tot t fs" "t < tot" "0 < tot"
  obtains i where "swrr_pick (swrr_advance fs) = Some i" "i < length fs" "fs_left (fs ! i) \<noteq> []"
    "0 < fs_current (swrr_advance fs ! i)"
proof -
  let ?g = "swrr_advance fs"
  let ?live = "filter (\<lambda>i. fs_left (?g ! i) \<noteq> []) [0..<length ?g]"
  obtain j where j: "j < length ?g" "fs_left (?g ! j) \<noteq> []" "0 < fs_current (?g ! j)"
    using swrr_some_positive [OF assms] by (auto simp: in_set_conv_nth)
  then have "j \<in> set ?live" by simp
  then obtain i0 js where l: "?live = i0 # js" by (cases ?live) (metis empty_iff list.set(1), blast)
  let ?k = "\<lambda>i. (fs_current (?g ! i), - int i)" and ?i = "py_max (\<lambda>i. (fs_current (?g ! i), - int i)) i0 js"
  have i: "?i \<in> set ?live" using py_max_in [of ?k i0 js] l by simp
  have "j \<in> insert i0 (set js)" using \<open>j \<in> set ?live\<close> unfolding l by simp
  then have "?k j \<le> ?k ?i" by (rule py_max_ge [of j i0 js ?k])
  then have "fs_current (?g ! j) \<le> fs_current (?g ! ?i)" by auto
  moreover have "fs_left (fs ! ?i) \<noteq> []" using i by (auto simp: swrr_advance_def split: if_splits)
  moreover have "swrr_pick ?g = Some ?i" using l by (simp add: swrr_pick_def)
  ultimately show thesis using that i j(3) by simp
qed

lemma sum_list_map_update:
  fixes g :: "'a \<Rightarrow> 'b::ab_group_add"
  assumes "i < length xs"
  shows "sum_list (map g (xs[i := x])) = sum_list (map g xs) - g (xs ! i) + g x"
proof -
  have "sum_list (map g xs) = sum_list (map g (take i xs)) + g (xs ! i) + sum_list (map g (drop (Suc i) xs))"
    by (subst id_take_nth_drop [OF assms]) simp
  then show ?thesis using assms by (simp add: upd_conv_take_nth_drop)
qed

lemma swrr_step:
  assumes "swrr_inv tot t fs" "t < tot" "0 < tot"
  obtains i ep fs' where "swrr_pick (swrr_advance fs) = Some i" "swrr_emit tot i (swrr_advance fs) = (ep, fs')"
    "i < length fs" "fs_left (fs ! i) = ep # fs_left (fs' ! i)" "swrr_inv tot (t + 1) fs'"
    "map fs_left fs' = (map fs_left fs)[i := tl (fs_left (fs ! i))]"
    "map fs_weight fs' = map fs_weight fs" "map fs_family fs' = map fs_family fs"
proof -
  let ?g = "swrr_advance fs"
  obtain i where i: "swrr_pick ?g = Some i" "i < length fs" "fs_left (fs ! i) \<noteq> []" "0 < fs_current (?g ! i)"
    using swrr_pick_some [OF assms] .
  let ?f = "(?g ! i)\<lparr>fs_current := fs_current (?g ! i) - tot, fs_left := tl (fs_left (?g ! i))\<rparr>"
  let ?fs' = "?g[i := ?f]"
  have gi: "?g ! i = (fs ! i)\<lparr>fs_current := fs_current (fs ! i) + fs_weight (fs ! i)\<rparr>"
    using i by (simp add: swrr_advance_def)
  obtain ep es where l: "fs_left (fs ! i) = ep # es" using i(3) by (cases "fs_left (fs ! i)") auto
  have fi: "fs ! i \<in> set fs" using i(2) by simp
  have c: "fs_current (?g ! i) = (t + 1) * fs_weight (fs ! i) - (fs_weight (fs ! i) - int (length (fs_left (fs ! i)))) * tot"
    using assms(1) fi i(3) gi by (simp add: swrr_inv_def algebra_simps)
  have member: "0 \<le> fs_weight f \<and>
      (fs_left f \<noteq> [] \<longrightarrow> fs_current f = (t + 1) * fs_weight f - (fs_weight f - int (length (fs_left f))) * tot) \<and>
      (fs_weight f - int (length (fs_left f))) * tot < (t + 1) * fs_weight f + tot"
    if "f \<in> set ?fs'" for f
  proof -
    have "f = ?f \<or> f \<in> set ?g" using that set_update_subset_insert by fastforce
    then show ?thesis
    proof
      assume "f = ?f"
      moreover have "(fs_weight (fs ! i) - int (length es)) * tot =
          (fs_weight (fs ! i) - int (length (fs_left (fs ! i)))) * tot + tot"
        using l by (simp add: algebra_simps)
      moreover have "0 \<le> fs_weight (fs ! i)" using assms(1) fi by (simp add: swrr_inv_def)
      ultimately show ?thesis using c i(4) gi l by simp
    next
      assume "f \<in> set ?g"
      then obtain h where h: "h \<in> set fs" "f = (if fs_left h \<noteq> [] then h\<lparr>fs_current := fs_current h + fs_weight h\<rparr> else h)"
        by (auto simp: swrr_advance_def)
      have "0 \<le> fs_weight h" using assms(1) h(1) by (simp add: swrr_inv_def)
      then show ?thesis using assms(1) h by (auto simp: swrr_inv_def algebra_simps)
    qed
  qed
  have "map (int \<circ> length \<circ> fs_left) xs = map (int \<circ> length) (map fs_left xs)" for xs by simp
  then have "map (int \<circ> length \<circ> fs_left) ?g = map (int \<circ> length \<circ> fs_left) fs"
    by (metis swrr_advance_frame(2))
  then have "sum_list (map (int \<circ> length \<circ> fs_left) ?g) = tot - t"
    using assms(1) by (simp add: swrr_inv_def)
  then have "sum_list (map (int \<circ> length \<circ> fs_left) ?fs') = tot - (t + 1)"
    using i(2) gi l by (simp add: sum_list_map_update)
  moreover have w: "map fs_weight ?fs' = map fs_weight fs"
    using i(2) gi by (simp add: map_update list_update_same_conv)
  ultimately have "swrr_inv tot (t + 1) ?fs'"
    using member assms(1) by (simp add: swrr_inv_def)
  moreover have "map fs_left ?fs' = (map fs_left fs)[i := tl (fs_left (fs ! i))]"
    using i(2) gi by (simp add: map_update)
  moreover have "map fs_family ?fs' = map fs_family fs"
    using i(2) gi by (simp add: map_update list_update_same_conv)
  ultimately show thesis using that [of i ep ?fs'] i w gi l by (simp add: swrr_emit_def)
qed

lemma mset_concat_update_tl:
  assumes "i < length xs" "xs ! i = y # ys"
  shows "mset (concat xs) = add_mset y (mset (concat (xs[i := ys])))"
  using assms by (subst id_take_nth_drop [OF assms(1)]) (simp add: upd_conv_take_nth_drop)

lemma swrr_perm:
  assumes "swrr_inv tot t fs" "int n = tot - t" "0 < tot"
  shows "mset (swrr tot n fs) = mset (concat (map fs_left fs))"
  using assms
proof (induction n arbitrary: t fs)
  case 0
  then have "sum_list (map (int \<circ> length \<circ> fs_left) fs) = 0" by (simp add: swrr_inv_def)
  then have "\<forall>x \<in> set (map (int \<circ> length \<circ> fs_left) fs). x = 0"
    by (subst (asm) sum_list_nonneg_eq_0_iff) auto
  then have "concat (map fs_left fs) = []" by simp
  then show ?case by simp
next
  case (Suc n)
  then obtain i ep fs' where s: "swrr_pick (swrr_advance fs) = Some i" "swrr_emit tot i (swrr_advance fs) = (ep, fs')"
    "i < length fs" "fs_left (fs ! i) = ep # fs_left (fs' ! i)" "swrr_inv tot (t + 1) fs'"
    "map fs_left fs' = (map fs_left fs)[i := tl (fs_left (fs ! i))]"
    using swrr_step [of tot t fs] by (metis diff_gt_0_iff_gt of_nat_0_less_iff zero_less_Suc)
  have "mset (swrr tot n fs') = mset (concat (map fs_left fs'))" using Suc.IH [OF s(5)] Suc.prems by simp
  then show ?case using s mset_concat_update_tl [of i "map fs_left fs" ep "fs_left (fs' ! i)"] by simp
qed


definition in_family :: "string \<Rightarrow> cloud_endpoint list \<Rightarrow> int" where
  "in_family f eps = int (length (filter (\<lambda>ep. family_of ep = f) eps))"

definition grouped :: "family_state list \<Rightarrow> bool" where
  "grouped fs = (distinct (map fs_family fs) \<and> (\<forall>f \<in> set fs. \<forall>ep \<in> set (fs_left f). family_of ep = fs_family f))"

lemma swrr_prefix:
  assumes "swrr_inv tot t fs" "int n \<le> tot - t" "0 < tot" "grouped fs" "k \<le> n" "j < length fs"
  shows "(in_family (fs_family (fs ! j)) (take k (swrr tot n fs)) + fs_weight (fs ! j) - int (length (fs_left (fs ! j)))) * tot
    < (t + int k) * fs_weight (fs ! j) + tot"
  using assms
proof (induction n arbitrary: t fs k)
  case 0
  then have "fs ! j \<in> set fs" by simp
  then show ?case using 0 by (auto simp: swrr_inv_def in_family_def)
next
  case (Suc n)
  then obtain i ep fs' where s: "swrr_pick (swrr_advance fs) = Some i" "swrr_emit tot i (swrr_advance fs) = (ep, fs')"
    "i < length fs" "fs_left (fs ! i) = ep # fs_left (fs' ! i)" "swrr_inv tot (t + 1) fs'"
    "map fs_left fs' = (map fs_left fs)[i := tl (fs_left (fs ! i))]"
    "map fs_weight fs' = map fs_weight fs" "map fs_family fs' = map fs_family fs"
    using swrr_step [of tot t fs] by (smt (verit) of_nat_0_less_iff zero_less_Suc)
  have len: "length fs' = length fs" using s(8) by (metis length_map)
  have left: "fs_left (fs' ! m) = (if m = i then tl (fs_left (fs ! i)) else fs_left (fs ! m))" if "m < length fs" for m
    using arg_cong [OF s(6), of "\<lambda>xs. xs ! m"] that len by (simp add: nth_list_update)
  have fam: "fs_family (fs' ! m) = fs_family (fs ! m)" "fs_weight (fs' ! m) = fs_weight (fs ! m)" if "m < length fs" for m
    using arg_cong [OF s(8), of "\<lambda>xs. xs ! m"] arg_cong [OF s(7), of "\<lambda>xs. xs ! m"] that len by simp_all
  have "\<forall>m < length fs. \<forall>e \<in> set (fs_left (fs' ! m)). family_of e = fs_family (fs' ! m)"
  proof (intro allI impI ballI)
    fix m e assume m: "m < length fs" "e \<in> set (fs_left (fs' ! m))"
    then have "e \<in> set (fs_left (fs ! m))" using left [OF m(1)] 
      by (cases "fs_left (fs ! i)") (auto split: if_splits)
    then show "family_of e = fs_family (fs' ! m)" using Suc.prems(4) m(1) fam(1) by (auto simp: grouped_def)
  qed
  then have g: "grouped fs'" using Suc.prems(4) s(8) len
    unfolding grouped_def all_set_conv_all_nth [of fs'] by simp
  have ep: "family_of ep = fs_family (fs ! i)" using Suc.prems(4) s(3,4) by (auto simp: grouped_def)
  have "distinct (map fs_family fs)" using Suc.prems(4) by (simp add: grouped_def)
  then have same: "fs_family (fs ! i) = fs_family (fs ! j) \<longleftrightarrow> i = j"
    using nth_eq_iff_index_eq [of "map fs_family fs" i j] Suc.prems(6) s(3) by simp
  show ?case
  proof (cases k)
    case 0
    have "fs ! j \<in> set fs" using Suc.prems(6) by simp
    then show ?thesis using 0 Suc.prems(1) by (simp add: swrr_inv_def in_family_def)
  next
    case (Suc k')
    have "(in_family (fs_family (fs' ! j)) (take k' (swrr tot n fs')) + fs_weight (fs' ! j) - int (length (fs_left (fs' ! j)))) * tot
        < (t + 1 + int k') * fs_weight (fs' ! j) + tot"
      using Suc.IH [OF s(5), of k'] Suc.prems Suc g len by simp
    moreover have "in_family (fs_family (fs ! j)) (take k (swrr tot (Suc n) fs)) =
        in_family (fs_family (fs ! j)) (take k' (swrr tot n fs')) + (if i = j then 1 else 0)"
      using s(1,2) Suc ep same by (simp add: in_family_def)
    ultimately show ?thesis using fam [OF Suc.prems(6)] left [OF Suc.prems(6)] s(4) Suc
      by (auto simp: add.assoc [symmetric] add_diff_eq split: if_splits)
  qed
qed


section \<open>Grouping by family\<close>

lemma add_to_family_mset: "mset (concat (map snd (add_to_family ep gs))) = add_mset ep (mset (concat (map snd gs)))"
  by (induction ep gs rule: add_to_family.induct) auto

lemma add_to_family_keys: "fst ` set (add_to_family ep gs) = insert (family_of ep) (fst ` set gs)"
  by (induction ep gs rule: add_to_family.induct) auto

lemma add_to_family_distinct: "distinct (map fst gs) \<Longrightarrow> distinct (map fst (add_to_family ep gs))"
  using add_to_family_keys by (induction ep gs rule: add_to_family.induct) auto

definition families_ok :: "families \<Rightarrow> bool" where
  "families_ok gs = (distinct (map fst gs) \<and> (\<forall>(f, eps) \<in> set gs. \<forall>ep \<in> set eps. family_of ep = f))"

lemma add_to_family_ok: "families_ok gs \<Longrightarrow> families_ok (add_to_family ep gs)"
proof -
  have "\<forall>(f, eps) \<in> set gs. \<forall>ep \<in> set eps. family_of ep = f \<Longrightarrow>
      \<forall>(f, eps) \<in> set (add_to_family ep gs). \<forall>ep \<in> set eps. family_of ep = f"
    by (induction ep gs rule: add_to_family.induct) auto
  then show "families_ok gs \<Longrightarrow> families_ok (add_to_family ep gs)"
    by (simp add: families_ok_def add_to_family_distinct)
qed

lemma fold_add_to_family:
  "families_ok gs \<Longrightarrow> families_ok (fold add_to_family eps gs) \<and>
   mset (concat (map snd (fold add_to_family eps gs))) = mset eps + mset (concat (map snd gs))"
  by (induction eps arbitrary: gs) (auto simp: add_to_family_ok add_to_family_mset simp del: mset_concat)

lemma group_by_family_ok:
  "families_ok (group_by_family eps) \<and> mset (concat (map snd (group_by_family eps))) = mset eps"
  using fold_add_to_family [of "[]" "sort_key ep_name eps"]
  by (simp add: group_by_family_def families_ok_def del: mset_concat)

lemma sum_list_lengths: "sum_list (map (length \<circ> snd) gs) = length (concat (map snd gs))"
  by (simp add: length_concat comp_def)

lemma mset_concat_sort: "mset (concat (map snd (sort_key fst gs))) = mset (concat (map snd gs))"
  for gs :: families
proof -
  have "mset (map snd (sort_key fst gs)) = mset (map snd gs)" by simp
  then show ?thesis by (metis mset_concat sum_mset_sum_list mset_map)
qed

lemma sum_list_int_map: "sum_list (map (\<lambda>x. int (h x)) xs) = int (sum_list (map h xs))"
  by (induction xs) auto

lemma swrr_start_ok:
  fixes gs :: families
  assumes "families_ok gs" "T = sum_list (map (length \<circ> snd) gs)" "0 < T"
  shows "swrr_inv (int T) 0 (swrr_start gs) \<and> grouped (swrr_start gs) \<and>
    mset (concat (map fs_left (swrr_start gs))) = mset (concat (map snd gs))"
proof -
  let ?s = "sort_key fst gs"
  have l: "map fs_left (swrr_start gs) = map snd ?s" "map fs_family (swrr_start gs) = map fst ?s"
    by (simp_all add: swrr_start_def comp_def case_prod_beta)
  have T: "T = length (concat (map snd ?s))"
    using assms(2) mset_concat_sort [of gs] by (metis sum_list_lengths size_mset)
  then have t: "sum_list (map (\<lambda>x. int (length (snd x))) ?s) = int T"
    by (simp add: length_concat sum_list_int_map comp_def)
  have "mset (map fst ?s) = mset (map fst gs)" by simp
  then have "distinct (map fst ?s)" using assms(1) mset_eq_imp_distinct_iff unfolding families_ok_def by blast
  then have "grouped (swrr_start gs)"
    using assms(1) unfolding grouped_def l by (auto simp: families_ok_def swrr_start_def)
  moreover have "swrr_inv (int T) 0 (swrr_start gs)"
    using assms(3) t by (auto simp: swrr_inv_def swrr_start_def comp_def case_prod_beta)
  ultimately show ?thesis using l(1) mset_concat_sort [of gs] by simp
qed

lemma interleave_mset: "mset (interleave_by_family eps) = mset eps"
proof -
  let ?gs = "group_by_family eps"
  let ?T = "sum_list (map (length \<circ> snd) ?gs)"
  have g: "families_ok ?gs" "mset (concat (map snd ?gs)) = mset eps" using group_by_family_ok by blast+
  show ?thesis
  proof (cases "length ?gs \<le> 1 \<or> ?T = 0")
    case True
    moreover have "eps = []" if "?T = 0"
    proof -
      have "concat (map snd ?gs) = []" using that sum_list_lengths by (metis length_0_conv)
      then show ?thesis using g(2) by (metis mset_zero_iff)
    qed
    ultimately show ?thesis by (auto simp: interleave_by_family_def Let_def group_by_family_def)
  next
    case False
    then have "0 < ?T" by linarith
    then have "mset (swrr (int ?T) ?T (swrr_start ?gs)) = mset (concat (map snd ?gs))"
      using swrr_start_ok [OF g(1) refl] swrr_perm [of "int ?T" 0 "swrr_start ?gs" ?T] by simp
    then show ?thesis using False g(2) by (simp add: interleave_by_family_def Let_def)
  qed
qed

text \<open>
  The interleaved ring is a permutation: whatever the endpoints and their families, the ring
  holds every endpoint exactly as often as the roster does; no lane is lost or
  duplicated by the weighted round-robin.
\<close>

theorem ring_is_permutation: "mset (interleave_by_family eps) = mset eps"
  by (rule interleave_mset)

lemma in_family_mset: "mset xs = mset ys \<Longrightarrow> in_family f xs = in_family f ys"
  unfolding in_family_def by (metis mset_filter size_mset)

lemma in_family_group:
  "families_ok gs \<Longrightarrow> (f, es) \<in> set gs \<Longrightarrow> in_family f (concat (map snd gs)) = int (length es)"
proof (induction gs)
  case (Cons g gs)
  obtain f' es' where g: "g = (f', es')" by (cases g)
  have ok: "families_ok gs" using Cons.prems(1) by (auto simp: families_ok_def)
  have split: "in_family f (concat (map snd (g # gs))) = in_family f es' + in_family f (concat (map snd gs))"
    by (simp add: in_family_def g)
  show ?case
  proof (cases "f' = f")
    case True
    have nf: "f \<notin> fst ` set gs" using Cons.prems(1) True by (auto simp: families_ok_def g)
    then have es: "es = es'" using Cons.prems(2) True g by (auto simp: image_iff)
    have "in_family f es' = int (length es')" using Cons.prems(1) True by (auto simp: families_ok_def g in_family_def)
    moreover have "\<forall>e \<in> set (concat (map snd gs)). family_of e \<noteq> f"
      using ok nf by (auto simp: families_ok_def image_iff split: prod.splits)
    then have "in_family f (concat (map snd gs)) = 0" by (simp add: in_family_def filter_empty_conv)
    ultimately show ?thesis using split es by simp
  next
    case False
    then have "in_family f es' = 0" using Cons.prems(1) by (auto simp: families_ok_def g in_family_def filter_empty_conv)
    then show ?thesis using split Cons.IH [OF ok] Cons.prems(2) False g by simp
  qed
qed simp

lemma in_family_none: "\<forall>e \<in> set eps. family_of e \<noteq> f \<Longrightarrow> in_family f (take k (interleave_by_family eps)) = 0"
proof -
  assume "\<forall>e \<in> set eps. family_of e \<noteq> f"
  then have "\<forall>e \<in> set (interleave_by_family eps). family_of e \<noteq> f" using interleave_mset by (metis mset_eq_setD)
  then show ?thesis by (auto simp: in_family_def filter_empty_conv dest: in_set_takeD)
qed

text \<open>
  C34. No family runs ahead of its share of the ring: among the first \<open>k\<close> positions of the
  interleaved ring a family with \<open>w\<close> of the \<open>n\<close> lanes holds fewer than \<open>k w / n + 1\<close>, so a
  large family cannot crowd out the others at the start of any worker's walk.
\<close>

theorem ring_prefix_fair:
  assumes "eps \<noteq> []" "k \<le> length eps"
  shows "in_family f (take k (interleave_by_family eps)) * int (length eps) <
    int k * in_family f eps + int (length eps)"
proof -
  let ?gs = "group_by_family eps"
  have g: "families_ok ?gs" "mset (concat (map snd ?gs)) = mset eps" using group_by_family_ok by blast+
  have n: "0 < length eps" using assms(1) by simp
  have T: "sum_list (map (length \<circ> snd) ?gs) = length eps" using g(2) sum_list_lengths by (metis size_mset)
  show ?thesis
  proof (cases "\<exists>es. (f, es) \<in> set ?gs")
    case False
    have "family_of e \<noteq> f" if "e \<in> set eps" for e
    proof -
      have "e \<in> set (concat (map snd ?gs))" using that g(2) by (metis mset_eq_setD)
      then show ?thesis using False g(1) by (auto simp: families_ok_def)
    qed
    then show ?thesis using in_family_none n by (simp add: in_family_def)
  next
    case True
    then obtain es where es: "(f, es) \<in> set ?gs" by blast
    have w: "in_family f eps = int (length es)" using in_family_group [OF g(1) es] in_family_mset [OF g(2)] by simp
    show ?thesis
    proof (cases "length ?gs \<le> 1")
      case True
      then have "?gs = [(f, es)]" using es by (cases ?gs) auto
      then have "int (length es) = int (length eps)" using T by simp
      moreover have "in_family f (take k (interleave_by_family eps)) \<le> int k"
        by (simp add: in_family_def) (metis length_filter_le length_take min.bounded_iff)
      moreover have "in_family f (take k (interleave_by_family eps)) * int (length eps) \<le> int k * int (length eps)"
        using calculation(2) by (rule mult_right_mono) simp
      moreover have "0 < int (length eps)" using n by simp
      ultimately show ?thesis using w by (metis add.commute add_less_le_mono add_0)
    next
      case False
      let ?s = "swrr_start ?gs"
      have s: "swrr_inv (int (length eps)) 0 ?s" "grouped ?s" using swrr_start_ok [OF g(1) T [symmetric]] n by simp_all
      have "(f, es) \<in> set (sort_key fst ?gs)" using es by simp
      then obtain j where "j < length (sort_key fst ?gs)" "sort_key fst ?gs ! j = (f, es)" by (metis in_set_conv_nth)
      then have j: "j < length ?s" "fs_family (?s ! j) = f" "fs_left (?s ! j) = es" "fs_weight (?s ! j) = int (length es)"
        by (simp_all add: swrr_start_def)
      show ?thesis
        using swrr_prefix [OF s(1) _ _ s(2) assms(2) j(1)] n j w False T
        by (simp add: interleave_by_family_def Let_def)
    qed
  qed
qed


definition demo_ep :: "string \<Rightarrow> string \<Rightarrow> cloud_endpoint" where
  "demo_ep name url = ep_default name url ''m''"

theorem ring_prefix_fair_witness:
  "in_family ''a'' (take 2 (interleave_by_family
     [demo_ep ''a1'' ''http://a/v1'', demo_ep ''a2'' ''http://a/v1'', demo_ep ''b'' ''http://b/v1''])) * 3 <
   2 * in_family ''a'' [demo_ep ''a1'' ''http://a/v1'', demo_ep ''a2'' ''http://a/v1'', demo_ep ''b'' ''http://b/v1''] + 3"
  using ring_prefix_fair [of "[demo_ep ''a1'' ''http://a/v1'', demo_ep ''a2'' ''http://a/v1'', demo_ep ''b'' ''http://b/v1'']" 2 "''a''"]
  by simp

section \<open>The roster\<close>

lemma resolve_key_nonempty: "resolve_key env n = Some k \<Longrightarrow> k \<noteq> []"
  by (auto simp: resolve_key_def env_line_value_def Let_def split: if_splits option.splits)

lemma configured_provider_some:
  assumes "configured_provider env e = Inr (Some ep)"
  shows "ep_name ep = field_str (pc_name e) \<and> ep_name ep \<noteq> [] \<and> ep_name ep \<noteq> ''primary'' \<and> ep_url ep \<noteq> [] \<and>
    ep_model ep \<noteq> [] \<and> pc_enabled e \<noteq> Some False \<and> ep_structured ep \<in> {''schema'', ''json'', ''text''} \<and>
    (field_str (pc_api_key_env e) \<noteq> [] \<longrightarrow> (\<exists>c cs. ep_api_key ep = Some (c # cs)))"
proof -
  obtain url where u: "provider_url env e = Some url" and n: "field_str (pc_name e) \<noteq> []" "field_str (pc_name e) \<noteq> ''primary''"
    and d: "pc_enabled e \<noteq> Some False" "url \<noteq> []" "field_str (pc_model e) \<noteq> []"
    and k: "field_str (pc_api_key_env e) \<noteq> [] \<longrightarrow> optional_key env (field_str (pc_api_key_env e)) \<noteq> None"
    and ep: "endpoint_of env e (field_str (pc_name e)) url (field_str (pc_model e)) = Inr (Some ep)"
    using assms unfolding configured_provider_def Let_def by (auto split: if_splits option.splits)
  have key: "field_str (pc_api_key_env e) \<noteq> [] \<longrightarrow> (\<exists>c cs. optional_key env (field_str (pc_api_key_env e)) = Some (c # cs))"
  proof
    assume ne: "field_str (pc_api_key_env e) \<noteq> []"
    then obtain key where "resolve_key env (field_str (pc_api_key_env e)) = Some key"
      using k by (auto simp: optional_key_def)
    then show "\<exists>c cs. optional_key env (field_str (pc_api_key_env e)) = Some (c # cs)"
      using ne resolve_key_nonempty by (cases key) (auto simp: optional_key_def)
  qed
  obtain level where l: "structured_level e = Inr level" using ep by (auto simp: endpoint_of_def)
  then have "level \<in> {''schema'', ''json'', ''text''}"
    by (auto simp: structured_level_def Let_def split: if_splits)
  then show ?thesis using ep n d key l by (auto simp: endpoint_of_def)
qed

lemma extra_endpoint_some:
  assumes "extra_endpoint env e = Inr (Some ep)"
  shows "ep_name ep \<noteq> [] \<and> ep_name ep \<noteq> ''primary'' \<and> ep_structured ep \<in> {''schema'', ''json'', ''text''} \<and> \<not> ep_dedicated ep"
proof -
  obtain level where l: "structured_level e = Inr level"
    and ep: "ep_name ep = field_str (pc_name e)" "ep_structured ep = level" "\<not> ep_dedicated ep"
    and n: "field_str (pc_name e) \<noteq> []" "field_str (pc_name e) \<noteq> ''primary''"
    using assms unfolding extra_endpoint_def Let_def by (auto split: if_splits simp: ep_default_def)
  have "level \<in> {''schema'', ''json'', ''text''}" using l by (auto simp: structured_level_def Let_def split: if_splits)
  then show ?thesis using ep n by simp
qed

text \<open>
  The roster is well formed: it is sorted by name without duplicates and holds exactly one
  primary; every endpoint has a name and a known output level; and an endpoint that comes from
  the provider file was not disabled and, if it names a key variable, carries a non-empty key
  (a provider whose key does not resolve is parked, never dispatched without one).
\<close>

theorem roster_well_formed:
  assumes "cloud_endpoints env = Inr r"
  shows "sorted (map ep_name r) \<and> distinct (map ep_name r) \<and> ''primary'' \<in> set (map ep_name r) \<and>
    (\<forall>ep \<in> set r. ep_name ep \<noteq> [] \<and> ep_structured ep \<in> {''schema'', ''json'', ''text''} \<and>
      (ep_name ep = ''primary'' \<or> (\<exists>e xs. pe_extras env = Extras_List xs \<and> e \<in> set xs \<and> extra_endpoint env e = Inr (Some ep)) \<or>
       (\<exists>es pins e. pe_providers env = Providers_Parsed es pins \<and> e \<in> set es \<and> field_str (pc_name e) = ep_name ep \<and>
          pc_enabled e \<noteq> Some False \<and>
          (field_str (pc_api_key_env e) \<noteq> [] \<longrightarrow> (\<exists>c cs. ep_api_key ep = Some (c # cs))))))"
proof -
  let ?p = "ep_default ''primary'' (pe_cloud_url env) (pe_cloud_model env)"
  obtain ps xs where ps: "configured_providers env = Inr ps" and xs: "extra_endpoints env = Inr xs"
    and r: "r = sort_key ep_name (?p # ps @ xs)" and c: "card (set (map ep_name r)) = length (map ep_name r)"
    using assms by (auto simp: cloud_endpoints_def Let_def split: if_splits)
  have set: "set r = insert ?p (set ps \<union> set xs)" unfolding r set_sort by simp
  have P: "\<exists>es pins e. pe_providers env = Providers_Parsed es pins \<and> e \<in> set es \<and> configured_provider env e = Inr (Some ep)"
    if "ep \<in> set ps" for ep
    using ps that collect_set [of "configured_provider env"]
    by (auto simp: configured_providers_def split: providers_file.splits)
  have X: "\<exists>e es. pe_extras env = Extras_List es \<and> e \<in> set es \<and> extra_endpoint env e = Inr (Some ep)" if "ep \<in> set xs" for ep
    using xs that collect_set [of "extra_endpoint env"] by (auto simp: extra_endpoints_def split: extras_setting.splits)
  have "sorted (map ep_name r)" unfolding r by (rule sorted_sort_key)
  moreover have "distinct (map ep_name r)" using c by (rule card_distinct)
  moreover have "''primary'' \<in> set (map ep_name r)" using set by (simp add: ep_default_def)
  moreover have "ep_name ep \<noteq> [] \<and> ep_structured ep \<in> {''schema'', ''json'', ''text''} \<and>
      (ep_name ep = ''primary'' \<or> (\<exists>e xs. pe_extras env = Extras_List xs \<and> e \<in> set xs \<and> extra_endpoint env e = Inr (Some ep)) \<or>
       (\<exists>es pins e. pe_providers env = Providers_Parsed es pins \<and> e \<in> set es \<and> field_str (pc_name e) = ep_name ep \<and>
          pc_enabled e \<noteq> Some False \<and> (field_str (pc_api_key_env e) \<noteq> [] \<longrightarrow> (\<exists>c cs. ep_api_key ep = Some (c # cs)))))"
    if ep: "ep \<in> set r" for ep
  proof -
    consider "ep = ?p" | "ep \<in> set ps" | "ep \<in> set xs" using ep unfolding set by blast
    then show ?thesis
    proof cases
      case 1
      then show ?thesis by (simp add: ep_default_def)
    next
      case 2
      then obtain es pins e where e: "pe_providers env = Providers_Parsed es pins" "e \<in> set es"
        "configured_provider env e = Inr (Some ep)" using P by blast
      note c = configured_provider_some [OF e(3)]
      show ?thesis
        using c e(1,2) by (intro conjI disjI2 exI [of _ es] exI [of _ pins] exI [of _ e]) metis+
    next
      case 3
      then show ?thesis using X [OF 3] extra_endpoint_some by blast
    qed
  qed
  ultimately show ?thesis by blast
qed

definition demo_pool :: pool_env where
  "demo_pool = \<lparr>pe_environ = (\<lambda>n. None), pe_env_lines = None,
     pe_providers = Providers_Parsed [] [(''parent_enrichment'', Pin_Name ''primary'')],
     pe_cloud_url = ''http://a/v1'', pe_cloud_model = ''m'', pe_extras = Extras_Unset, pe_digest = length\<rparr>"

lemma demo_roster: "cloud_endpoints demo_pool = Inr [demo_ep ''primary'' ''http://a/v1'']"
  by (simp add: cloud_endpoints_def configured_providers_def extra_endpoints_def demo_pool_def demo_ep_def Let_def)

theorem roster_well_formed_witness: "distinct (map ep_name [demo_ep ''primary'' ''http://a/v1''])"
  using roster_well_formed [OF demo_roster] by blast

theorem failover_visits_all_witness:
  "ring_pick demo_pool [demo_ep ''a'' ''u'', demo_ep ''b'' ''v''] ''doc'' 7 \<in> {demo_ep ''a'' ''u'', demo_ep ''b'' ''v''}"
  using failover_visits_all [of "[demo_ep ''a'' ''u'', demo_ep ''b'' ''v'']" demo_pool "''doc''" 7] by simp

section \<open>Stage pins\<close>

text \<open>
  A pinned stage never spends an unpinned provider: with a readable roster it dispatches to a
  member of the roster named in its pin group, whatever the document and the failover offset, and
  it fails (naming the stage and its pins) exactly when no member of the group is active.
\<close>

theorem pinned_stage_stays_in_group:
  assumes "stage_pin env stage = Some pin" "cloud_endpoints env = Inr r"
  shows "(\<forall>ep. select_endpoint_for_stage env stage d off = Inr ep \<longrightarrow> ep \<in> set r \<and> ep_name ep \<in> set pin) \<and>
    (select_endpoint_for_stage env stage d off = Inl (Pinned_Unavailable stage pin)) = (\<forall>ep \<in> set r. ep_name ep \<notin> set pin) \<and>
    ((\<exists>ep \<in> set r. ep_name ep \<in> set pin) \<longrightarrow> (\<exists>ep. select_endpoint_for_stage env stage d off = Inr ep))"
proof -
  let ?a = "filter (\<lambda>ep. ep_name ep \<in> set pin) r"
  show ?thesis
  proof (cases "?a = []")
    case True
    then show ?thesis using assms by (auto simp: select_endpoint_for_stage_def Let_def filter_empty_conv)
  next
    case False
    then have "ring_pick env ?a d off \<in> set ?a" by (rule ring_pick_in)
    then show ?thesis using False assms by (auto simp: select_endpoint_for_stage_def Let_def filter_empty_conv)
  qed
qed

theorem pinned_stage_stays_in_group_witness:
  "\<exists>ep. select_endpoint_for_stage demo_pool ''parent_enrichment'' ''d'' 3 = Inr ep"
proof -
  have "stage_pin demo_pool ''parent_enrichment'' = Some [''primary'']"
    by (simp add: stage_pin_def demo_pool_def py_strip_def py_space_def)
  then show ?thesis
    using pinned_stage_stays_in_group [OF _ demo_roster, of "''parent_enrichment''" "[''primary'']" "''d''" 3]
    by (auto simp: demo_ep_def ep_default_def)
qed

text \<open>An unpinned stage ignores the failover offset: every retry is dispatched to the home lane again.\<close>

lemma unpinned_failover_stays_home:
  "stage_pin env stage = None \<Longrightarrow>
   select_endpoint_for_stage env stage d off = select_endpoint_for_stage env stage d off'"
  by (simp add: select_endpoint_for_stage_def)

end
