(* ===== verification/Map_Batches.thy ===== *)
theory Map_Batches
  imports Py_Strings
begin

text \<open>
  The token packer for parent mapping (\<^verbatim>\<open>document_profile/map_batches.py\<close>): how many parents fit
  a request, the deterministic cut of a document into batches, and the batch and plan
  identities. SHA-256 is the parameter \<open>sha\<close>. Float arithmetic is exact (\<open>rat\<close>).
\<close>

definition COMPLETION_ENVELOPE_TOKENS :: int where "COMPLETION_ENVELOPE_TOKENS = 6500"
definition MAPPING_ONLY_TARGET :: int where "MAPPING_ONLY_TARGET = 60"
definition MAP_RELIABILITY_CAP :: int where "MAP_RELIABILITY_CAP = 15"
definition SAFETY_RESERVE_TOKENS :: int where "SAFETY_RESERVE_TOKENS = 512"
definition PER_REQUEST_TOKEN_CAP :: int where "PER_REQUEST_TOKEN_CAP = 15000"
definition TPM_CEILING :: int where "TPM_CEILING = 70000"
definition TARGET_RPM :: int where "TARGET_RPM = 4"
definition CHARS_PER_TOKEN :: int where "CHARS_PER_TOKEN = 4"
definition BATCH_PLANNER_VERSION :: string where "BATCH_PLANNER_VERSION = ''map-batches-v2''"

section \<open>Density\<close>

record density_model =
  dm_input :: rat
  dm_billed :: rat
  dm_visible :: rat

definition DEFAULT_DENSITY :: density_model where
  "DEFAULT_DENSITY = \<lparr>dm_input = 1357 / 10, dm_billed = 87, dm_visible = 29\<rparr>"

definition density_update :: "rat \<Rightarrow> rat \<Rightarrow> rat \<Rightarrow> int \<Rightarrow> rat \<Rightarrow> density_model \<Rightarrow> density_model" where
  "density_update input_tokens billed_tokens visible_tokens parents alpha d =
     (if parents \<le> 0 then d
      else let blend = (\<lambda>old new. (1 - alpha) * old + alpha * (new / of_int parents)) in
        \<lparr>dm_input = blend (dm_input d) input_tokens, dm_billed = blend (dm_billed d) billed_tokens,
         dm_visible = blend (dm_visible d) visible_tokens\<rparr>)"

section \<open>Capacity\<close>

record parent_skeleton =
  sk_alias :: string
  sk_heading_path :: "string list"
  sk_lead_excerpt :: string
  sk_salient_excerpt :: string
  sk_key_terms :: "string list"
  sk_identifiers :: "string list"
  sk_hash :: string

record skeleton_manifest =
  sm_skeletons :: "parent_skeleton list"
  sm_hash :: string

definition skeleton_prompt_tokens :: "parent_skeleton \<Rightarrow> int" where
  "skeleton_prompt_tokens s =
     (let parts = [sk_alias s, py_join (CHR '' '') (sk_heading_path s), sk_lead_excerpt s, sk_salient_excerpt s,
                   py_join (CHR '' '') (sk_key_terms s), py_join (CHR '' '') (sk_identifiers s)];
          chars = sum_list (map (int \<circ> length) parts) + int (length parts) in
      max 1 \<lceil>(of_int chars / of_int CHARS_PER_TOKEN :: rat)\<rceil>)"

definition estimate_input_tokens :: "parent_skeleton list \<Rightarrow> int" where
  "estimate_input_tokens ss = sum_list (map skeleton_prompt_tokens ss)"

definition mapping_only_capacity :: "density_model \<Rightarrow> int \<Rightarrow> int \<Rightarrow> int \<Rightarrow> int \<Rightarrow> int" where
  "mapping_only_capacity density envelope target safety reliability_cap =
     (let theoretical = \<lfloor>of_int (envelope - safety) / max 1 (dm_billed density)\<rfloor> in
      max 1 (min target (min theoretical reliability_cap)))"

definition combined_capacity :: "density_model \<Rightarrow> int \<Rightarrow> int \<Rightarrow> int \<Rightarrow> int" where
  "combined_capacity density global_profile_billed_tokens envelope safety =
     (let room = envelope - global_profile_billed_tokens - safety in
      if room \<le> 0 then 0 else max 0 \<lfloor>of_int room / max 1 (dm_billed density)\<rfloor>)"

definition request_total_tokens :: "density_model \<Rightarrow> int \<Rightarrow> int \<Rightarrow> rat" where
  "request_total_tokens density parents global_profile_billed_tokens =
     of_int parents * (dm_input density + dm_billed density) + of_int global_profile_billed_tokens"

definition token_feasible_rpm :: "rat \<Rightarrow> int \<Rightarrow> int \<Rightarrow> int \<Rightarrow> int" where
  "token_feasible_rpm total_tokens target_rpm tpm_ceiling per_request_cap =
     (if total_tokens \<le> 0 then target_rpm
      else let tpm_bound = \<lfloor>of_int tpm_ceiling / total_tokens\<rfloor>;
               ceil = (if total_tokens \<le> of_int per_request_cap then target_rpm else target_rpm - 1) in
        max 1 (min ceil tpm_bound))"

section \<open>Batches\<close>

record map_batch =
  mb_ordinal :: nat
  mb_aliases :: "string list"
  mb_est_input_tokens :: int
  mb_est_billed_tokens :: int
  mb_est_total_tokens :: int
  mb_is_combined :: bool
  mb_hash :: string

record batch_plan =
  bp_contract :: string
  bp_density :: density_model
  bp_batches :: "map_batch list"
  bp_mapping_only_capacity :: int
  bp_combined_capacity :: int
  bp_plan_hash :: string

definition parent_count :: "map_batch \<Rightarrow> nat" where
  "parent_count b = length (mb_aliases b)"

definition total_parents :: "batch_plan \<Rightarrow> nat" where
  "total_parents p = sum_list (map parent_count (bp_batches p))"

definition US :: char where "US = CHR 0x1F"
definition RS :: char where "RS = CHR 0x1E"
definition GS :: char where "GS = CHR 0x1D"

definition py_str_bool :: "bool \<Rightarrow> string" where
  "py_str_bool b = (if b then ''True'' else ''False'')"

definition grounding_part :: "string \<Rightarrow> string list" where
  "grounding_part g = (if g = [] then [] else [''grounding'' @ RS # g])"

definition batch_parts :: "string \<Rightarrow> string \<Rightarrow> bool \<Rightarrow> string \<Rightarrow> parent_skeleton list \<Rightarrow> string list" where
  "batch_parts contract manifest_hash is_combined grounding_hash skels =
     [contract, manifest_hash, py_str_bool is_combined] @ map (\<lambda>s. sk_alias s @ RS # sk_hash s) skels @
     grounding_part grounding_hash"

definition by_alias :: "parent_skeleton list \<Rightarrow> (string, parent_skeleton) dict" where
  "by_alias ss = fold (\<lambda>s. dict_set (sk_alias s) s) ss []"

definition batch ::
  "(string \<Rightarrow> string) \<Rightarrow> (string, parent_skeleton) dict \<Rightarrow> density_model \<Rightarrow> string \<Rightarrow> string \<Rightarrow> string \<Rightarrow>
   bool \<Rightarrow> nat \<Rightarrow> string list \<Rightarrow> map_batch" where
  "batch sha index density contract manifest_hash grounding_hash is_combined ordinal aliases =
     (let skels = map (\<lambda>a. the (map_of index a)) aliases;
          est_input = estimate_input_tokens skels;
          est_billed = py_round (of_nat (length aliases) * dm_billed density) in
      \<lparr>mb_ordinal = ordinal, mb_aliases = aliases, mb_est_input_tokens = est_input,
       mb_est_billed_tokens = est_billed, mb_est_total_tokens = est_input + est_billed,
       mb_is_combined = is_combined,
       mb_hash = sha (py_join US (batch_parts contract manifest_hash is_combined grounding_hash skels))\<rparr>)"

text \<open>
  The \<open>while\<close> loop over the remaining aliases; \<open>cap\<close> is at least 1 (\<open>mapping_only_capacity\<close>),
  so every round advances.
\<close>

function plan_rest :: "(nat \<Rightarrow> string list \<Rightarrow> map_batch) \<Rightarrow> string list \<Rightarrow> nat \<Rightarrow> nat \<Rightarrow> nat \<Rightarrow> map_batch list" where
  "plan_rest mk aliases cap idx ordinal =
     (if idx < length aliases \<and> 0 < cap then
        let chunk = take cap (drop idx aliases) in
        mk ordinal chunk # plan_rest mk aliases cap (idx + length chunk) (ordinal + 1)
      else [])"
  by pat_completeness auto
termination
  by (relation "measure (\<lambda>(mk, aliases, cap, idx, ordinal). length aliases - idx)") auto

declare plan_rest.simps [simp del]

definition plan_batches ::
  "(string \<Rightarrow> string) \<Rightarrow> skeleton_manifest \<Rightarrow> density_model \<Rightarrow> int option \<Rightarrow> string \<Rightarrow> string \<Rightarrow> int \<Rightarrow> batch_plan" where
  "plan_batches sha manifest density combined contract grounding_hash reliability_cap =
     (let aliases = map sk_alias (sm_skeletons manifest);
          mk = batch sha (by_alias (sm_skeletons manifest)) density contract (sm_hash manifest) grounding_hash;
          cap = mapping_only_capacity density COMPLETION_ENVELOPE_TOKENS MAPPING_ONLY_TARGET
                  SAFETY_RESERVE_TOKENS reliability_cap;
          comb_cap = (case combined of None \<Rightarrow> 0
             | Some t \<Rightarrow> combined_capacity density t COMPLETION_ENVELOPE_TOKENS SAFETY_RESERVE_TOKENS);
          first = (if combined \<noteq> None \<and> 0 < comb_cap \<and> aliases \<noteq> []
                   then [mk True 0 (take (nat comb_cap) aliases)] else []);
          batches = first @ plan_rest (mk False) aliases (nat cap)
                      (sum_list (map parent_count first)) (length first) in
      \<lparr>bp_contract = contract, bp_density = density, bp_batches = batches,
       bp_mapping_only_capacity = cap, bp_combined_capacity = comb_cap,
       bp_plan_hash = sha (py_join GS ([contract, sm_hash manifest] @ map mb_hash batches @
                             grounding_part grounding_hash))\<rparr>)"

section \<open>The cut is exact\<close>

definition batch_maker :: "bool \<Rightarrow> (nat \<Rightarrow> string list \<Rightarrow> map_batch) \<Rightarrow> bool" where
  "batch_maker c mk = (\<forall>n as. mb_aliases (mk n as) = as \<and> mb_ordinal (mk n as) = n \<and> mb_is_combined (mk n as) = c)"

lemma batch_is_maker: "batch_maker c (batch sha index d contract mh gh c)"
  by (simp add: batch_maker_def batch_def Let_def)

lemma plan_rest_facts:
  assumes "batch_maker False mk" "0 < cap"
  shows "concat (map mb_aliases (plan_rest mk aliases cap idx n)) = drop idx aliases \<and>
    map mb_ordinal (plan_rest mk aliases cap idx n) = [n..<n + length (plan_rest mk aliases cap idx n)] \<and>
    (\<forall>b \<in> set (plan_rest mk aliases cap idx n). \<not> mb_is_combined b \<and> 0 < parent_count b \<and> parent_count b \<le> cap)"
  using assms
proof (induction mk aliases cap idx n rule: plan_rest.induct)
  case (1 mk aliases cap idx n)
  show ?case
  proof (cases "idx < length aliases")
    case True
    let ?c = "take cap (drop idx aliases)"
    let ?bs = "plan_rest mk aliases cap (idx + length ?c) (n + 1)"
    have s: "plan_rest mk aliases cap idx n = mk n ?c # ?bs"
      using True 1(3) by (subst plan_rest.simps) (simp add: Let_def)
    have ih: "concat (map mb_aliases ?bs) = drop (idx + length ?c) aliases \<and> map mb_ordinal ?bs = [n + 1..<n + 1 + length ?bs] \<and>
        (\<forall>b \<in> set ?bs. \<not> mb_is_combined b \<and> 0 < parent_count b \<and> parent_count b \<le> cap)"
      using 1 True by blast
    have mk: "mb_aliases (mk n ?c) = ?c" "mb_ordinal (mk n ?c) = n" "\<not> mb_is_combined (mk n ?c)"
      using 1(2) by (simp_all add: batch_maker_def)
    have "drop idx aliases = ?c @ drop (idx + length ?c) aliases"
      by (metis add.commute append_take_drop_id drop_drop length_take drop_take min.commute take_all_iff
          linorder_le_cases min_def drop_all length_drop)
    moreover have "0 < length ?c" "length ?c \<le> cap" using True 1(3) by auto
    moreover have "[n..<n + Suc (length ?bs)] = n # [n + 1..<n + 1 + length ?bs]" by (metis add_Suc_right add_Suc_shift plus_1_eq_Suc less_add_Suc1 upt_conv_Cons add.commute)
    ultimately show ?thesis using ih mk unfolding s
      by (simp only: list.map concat.simps list.size list.set ball_simps add_0_right add_Suc_right One_nat_def) (simp add: parent_count_def)
  next
    case False
    then show ?thesis by (subst plan_rest.simps, simp)+
  qed
qed


lemma mapping_cap_bounds:
  "1 \<le> mapping_only_capacity d e t s r \<and> mapping_only_capacity d e t s r \<le> max 1 t \<and>
   mapping_only_capacity d e t s r \<le> max 1 r"
  by (auto simp: mapping_only_capacity_def Let_def)

lemma mapping_cap_fits:
  assumes "1 \<le> dm_billed d" "1 < mapping_only_capacity d e t s r"
  shows "of_int (mapping_only_capacity d e t s r) * dm_billed d \<le> of_int (e - s)"
proof -
  have "mapping_only_capacity d e t s r \<le> \<lfloor>of_int (e - s) / dm_billed d\<rfloor>"
    using assms by (auto simp: mapping_only_capacity_def Let_def max_def split: if_splits)
  then have "of_int (mapping_only_capacity d e t s r) \<le> of_int (e - s) / dm_billed d"
    by (simp add: le_floor_iff)
  then show ?thesis using assms(1) by (simp add: pos_le_divide_eq)
qed

text \<open>
  The plan covers the document exactly: the batches, in order, hold every eligible parent's
  alias exactly once and in manifest order; ordinals count from 0; no batch is empty; at most
  the first batch is combined, and only when a combined call was asked for; a mapping-only batch
  never exceeds its capacity, which respects the reliability cap and the production target.
\<close>

theorem plan_covers_exactly:
  assumes "plan_batches sha manifest density combined contract gh reliability_cap = p" "1 \<le> reliability_cap"
  shows "concat (map mb_aliases (bp_batches p)) = map sk_alias (sm_skeletons manifest) \<and>
    map mb_ordinal (bp_batches p) = [0..<length (bp_batches p)] \<and>
    (\<forall>b \<in> set (bp_batches p). mb_aliases b \<noteq> [] \<and>
      (if mb_is_combined b then combined \<noteq> None \<and> mb_ordinal b = 0 \<and> int (parent_count b) \<le> bp_combined_capacity p
       else int (parent_count b) \<le> bp_mapping_only_capacity p)) \<and>
    1 \<le> bp_mapping_only_capacity p \<and> bp_mapping_only_capacity p \<le> min 60 reliability_cap"
proof -
  let ?al = "map sk_alias (sm_skeletons manifest)"
  let ?mk = "batch sha (by_alias (sm_skeletons manifest)) density contract (sm_hash manifest) gh"
  let ?cap = "bp_mapping_only_capacity p" and ?cc = "bp_combined_capacity p"
  have capd: "?cap = mapping_only_capacity density COMPLETION_ENVELOPE_TOKENS MAPPING_ONLY_TARGET SAFETY_RESERVE_TOKENS reliability_cap"
    using assms(1) by (auto simp: plan_batches_def Let_def)
  have cap: "1 \<le> ?cap" "?cap \<le> min 60 reliability_cap"
    using mapping_cap_bounds [of density COMPLETION_ENVELOPE_TOKENS MAPPING_ONLY_TARGET SAFETY_RESERVE_TOKENS reliability_cap]
      assms(2) unfolding capd by (auto simp: MAPPING_ONLY_TARGET_def)
  let ?first = "if combined \<noteq> None \<and> 0 < ?cc \<and> ?al \<noteq> [] then [?mk True 0 (take (nat ?cc) ?al)] else []"
  let ?idx = "sum_list (map parent_count ?first)"
  let ?rest = "plan_rest (?mk False) ?al (nat ?cap) ?idx (length ?first)"
  have b: "bp_batches p = ?first @ ?rest" using assms(1) by (auto simp: plan_batches_def Let_def)
  have mk: "mb_aliases (?mk c n as) = as" "mb_ordinal (?mk c n as) = n" "mb_is_combined (?mk c n as) = c" for c n as
    using batch_is_maker [of c] by (simp_all add: batch_maker_def)
  have rest: "concat (map mb_aliases ?rest) = drop ?idx ?al"
    "map mb_ordinal ?rest = [length ?first..<length ?first + length ?rest]"
    "\<forall>b \<in> set ?rest. \<not> mb_is_combined b \<and> 0 < parent_count b \<and> parent_count b \<le> nat ?cap"
    using plan_rest_facts [OF batch_is_maker, of "nat ?cap"] cap(1) by auto
  have f: "concat (map mb_aliases ?first) = take ?idx ?al" "map mb_ordinal ?first = [0..<length ?first]"
    "\<forall>b \<in> set ?first. mb_is_combined b \<and> combined \<noteq> None \<and> mb_ordinal b = 0 \<and> mb_aliases b \<noteq> [] \<and> int (parent_count b) \<le> ?cc"
    using mk by (auto simp: parent_count_def min_def)
  have "[0..<length (?first @ ?rest)] = [0..<length ?first] @ [length ?first..<length ?first + length ?rest]"
    unfolding length_append by (rule upt_add_eq_append) simp
  then have "map mb_ordinal (bp_batches p) = [0..<length (bp_batches p)]"
    unfolding b map_append using rest(2) f(2) by simp
  moreover have "concat (map mb_aliases (bp_batches p)) = ?al"
    unfolding b map_append concat_append f(1) rest(1) by simp
  moreover have "mb_aliases x \<noteq> [] \<and> (if mb_is_combined x then combined \<noteq> None \<and> mb_ordinal x = 0 \<and> int (parent_count x) \<le> ?cc
      else int (parent_count x) \<le> ?cap)" if "x \<in> set (bp_batches p)" for x
  proof -
    have "x \<in> set ?first \<or> x \<in> set ?rest" using that unfolding b by simp
    then show ?thesis
    proof
      assume "x \<in> set ?first"
      then have "mb_is_combined x \<and> combined \<noteq> None \<and> mb_ordinal x = 0 \<and> mb_aliases x \<noteq> [] \<and> int (parent_count x) \<le> ?cc"
        by (rule bspec [OF f(3)])
      then show ?thesis by simp
    next
      assume "x \<in> set ?rest"
      then have "\<not> mb_is_combined x \<and> 0 < parent_count x \<and> parent_count x \<le> nat ?cap" by (rule bspec [OF rest(3)])
      then show ?thesis using cap(1) by (auto simp: parent_count_def)
    qed
  qed
  ultimately show ?thesis using cap by blast
qed

definition plain :: "string \<Rightarrow> bool" where
  "plain s = (US \<notin> set s \<and> RS \<notin> set s)"

lemma map_pair_inj:
  assumes "map (\<lambda>s. sk_alias s @ RS # sk_hash s) xs = map (\<lambda>s. sk_alias s @ RS # sk_hash s) ys"
    and "\<forall>s \<in> set xs \<union> set ys. plain (sk_alias s)"
  shows "map (\<lambda>s. (sk_alias s, sk_hash s)) xs = map (\<lambda>s. (sk_alias s, sk_hash s)) ys"
  using assms
proof (induction xs arbitrary: ys)
  case (Cons x xs)
  then obtain y ys' where "ys = y # ys'" by (cases ys) auto
  then show ?case using Cons sep_split [of RS "sk_alias x" "sk_alias y"] by (auto simp: plain_def)
qed simp

lemma tagged_last:
  assumes "map f xs @ (if g = [] then [] else [t g]) = map f ys @ (if h = [] then [] else [t h])"
    and "\<And>x k. x \<in> set xs \<union> set ys \<Longrightarrow> f x \<noteq> t k" "inj t"
  shows "map f xs = map f ys \<and> g = h"
proof -
  have no: "t k \<notin> f ` set xs" "t k \<notin> f ` set ys" for k
    using assms(2) [of _ k] by (auto simp: image_iff) metis+
  have eq: "f ` set xs \<union> set (if g = [] then [] else [t g]) = f ` set ys \<union> set (if h = [] then [] else [t h])"
    using arg_cong [OF assms(1), of set] by (simp only: set_append set_map)
  have "g = [] \<longleftrightarrow> h = []" using eq no [of g] no [of h] by (auto split: if_splits)
  then show ?thesis using assms(1,3) by (auto dest: injD split: if_splits)
qed

lemma grounding_last:
  assumes "map f xs @ grounding_part g = map f ys @ grounding_part h" "\<And>x k. x \<in> set xs \<union> set ys \<Longrightarrow> f x \<noteq> ''grounding'' @ RS # k"
  shows "map f xs = map f ys \<and> g = h"
  by (rule tagged_last [where t = "\<lambda>k. ''grounding'' @ RS # k"])
    (rule assms(1) [unfolded grounding_part_def], rule assms(2), assumption, simp add: inj_def)

text \<open>
  Batch identities bind their source: with a collision-free hash, two batches with equal
  hashes were cut under the same contract, from manifests with the same hash, with the same
  combined flag and grounding, and hold the same aliases with the same skeleton hashes. (The
  components are free of the separators, as hex digests, version strings and aliases are, and no
  alias is the word \<open>grounding\<close>.)
\<close>

theorem batch_identity_binds_source:
  assumes "inj sha"
    and "mb_hash (batch sha ix d c mh gh comb n as) = mb_hash (batch sha ix' d' c' mh' gh' comb' n' as')"
    and "\<forall>s \<in> {c, mh, gh, c', mh', gh'}. plain s"
    and "\<forall>a \<in> set as. plain (sk_alias (the (map_of ix a))) \<and> plain (sk_hash (the (map_of ix a))) \<and> sk_alias (the (map_of ix a)) \<noteq> ''grounding''"
    and "\<forall>a \<in> set as'. plain (sk_alias (the (map_of ix' a))) \<and> plain (sk_hash (the (map_of ix' a))) \<and> sk_alias (the (map_of ix' a)) \<noteq> ''grounding''"
  shows "c = c' \<and> mh = mh' \<and> comb = comb' \<and> gh = gh' \<and>
    map (\<lambda>a. (sk_alias (the (map_of ix a)), sk_hash (the (map_of ix a)))) as =
    map (\<lambda>a. (sk_alias (the (map_of ix' a)), sk_hash (the (map_of ix' a)))) as'"
proof -
  let ?s = "map (\<lambda>a. the (map_of ix a)) as" and ?s' = "map (\<lambda>a. the (map_of ix' a)) as'"
  let ?f = "\<lambda>s. sk_alias s @ RS # sk_hash s"
  have "py_join US (batch_parts c mh comb gh ?s) = py_join US (batch_parts c' mh' comb' gh' ?s')"
    using assms(1,2) by (simp add: batch_def Let_def inj_eq)
  moreover have free: "\<forall>s \<in> set (batch_parts c mh comb gh ?s) \<union> set (batch_parts c' mh' comb' gh' ?s'). US \<notin> set s"
    using assms(3-5) by (auto simp: batch_parts_def plain_def py_str_bool_def grounding_part_def US_def RS_def split: if_splits)
  ultimately have parts: "batch_parts c mh comb gh ?s = batch_parts c' mh' comb' gh' ?s'"
    by (rule py_join_inj) (simp_all add: batch_parts_def)
  then have h: "c = c'" "mh = mh'" "comb = comb'" "map ?f ?s @ grounding_part gh = map ?f ?s' @ grounding_part gh'"
    by (auto simp: batch_parts_def py_str_bool_def split: if_splits)
  have ng: "?f x \<noteq> ''grounding'' @ RS # k" if "x \<in> set ?s \<union> set ?s'" for x k
  proof
    assume eq: "?f x = ''grounding'' @ RS # k"
    have "RS \<notin> set (sk_alias x)" "sk_alias x \<noteq> ''grounding''" using that assms(4,5) by (auto simp: plain_def)
    moreover have "RS \<notin> set ''grounding''" by (simp add: RS_def)
    ultimately show False using sep_split [OF _ _ eq] by blast
  qed
  have "map ?f ?s = map ?f ?s' \<and> gh = gh'" by (rule grounding_last [OF h(4) ng])
  moreover have "\<forall>s \<in> set ?s \<union> set ?s'. plain (sk_alias s)" using assms(4,5) by auto
  ultimately show ?thesis using h map_pair_inj [of ?s ?s'] by (auto simp: comp_def)
qed


theorem plan_covers_exactly_witness:
  "concat (map mb_aliases (bp_batches (plan_batches id \<lparr>sm_skeletons = [], sm_hash = ''m''\<rparr> DEFAULT_DENSITY None
     BATCH_PLANNER_VERSION [] MAP_RELIABILITY_CAP))) = []"
  using plan_covers_exactly [OF refl, of MAP_RELIABILITY_CAP id "\<lparr>sm_skeletons = [], sm_hash = ''m''\<rparr>" DEFAULT_DENSITY None
     BATCH_PLANNER_VERSION "[]"] by (simp add: MAP_RELIABILITY_CAP_def)

definition demo_skel :: "string \<Rightarrow> string \<Rightarrow> parent_skeleton" where
  "demo_skel a h = \<lparr>sk_alias = a, sk_heading_path = [], sk_lead_excerpt = [], sk_salient_excerpt = [],
     sk_key_terms = [], sk_identifiers = [], sk_hash = h\<rparr>"

theorem batch_identity_binds_source_witness:
  "mb_hash (batch id [(''P1'', demo_skel ''P1'' ''ab'')] DEFAULT_DENSITY ''v2'' ''m1'' [] False 0 [''P1'']) \<noteq>
   mb_hash (batch id [(''P1'', demo_skel ''P1'' ''ab'')] DEFAULT_DENSITY ''v2'' ''m2'' [] False 0 [''P1''])"
proof
  assume eq: "mb_hash (batch id [(''P1'', demo_skel ''P1'' ''ab'')] DEFAULT_DENSITY ''v2'' ''m1'' [] False 0 [''P1'']) =
   mb_hash (batch id [(''P1'', demo_skel ''P1'' ''ab'')] DEFAULT_DENSITY ''v2'' ''m2'' [] False 0 [''P1''])"
  show False
    using batch_identity_binds_source [OF inj_on_id eq] by (simp add: plain_def US_def RS_def demo_skel_def)
qed

section \<open>The token guard\<close>

text \<open>
  The request rate fits the token budget: the feasible rate is at least 1 and at most the target;
  at that rate the requests of a minute stay within the token ceiling, unless already a single
  request exceeds it; and a request above the per-request cap always costs at least one call per minute.
\<close>

theorem feasible_rpm_fits_budget:
  assumes "0 < tokens" "1 \<le> target"
  shows "1 \<le> token_feasible_rpm tokens target tpm cap \<and> token_feasible_rpm tokens target tpm cap \<le> target \<and>
    (tokens \<le> of_int tpm \<longrightarrow> of_int (token_feasible_rpm tokens target tpm cap) * tokens \<le> of_int tpm) \<and>
    (of_int cap < tokens \<longrightarrow> token_feasible_rpm tokens target tpm cap \<le> max 1 (target - 1))"
proof -
  let ?r = "token_feasible_rpm tokens target tpm cap"
  have "of_int ?r * tokens \<le> of_int tpm" if le: "tokens \<le> of_int tpm"
  proof -
    have "1 \<le> of_int tpm / tokens" using assms(1) le by simp
    then have "1 \<le> \<lfloor>of_int tpm / tokens\<rfloor>" by simp
    then have "?r \<le> \<lfloor>of_int tpm / tokens\<rfloor>" using assms by (auto simp: token_feasible_rpm_def Let_def)
    then have "of_int ?r \<le> of_int tpm / tokens" by (simp add: le_floor_iff)
    then show ?thesis using assms(1) by (simp add: pos_le_divide_eq)
  qed
  moreover have "1 \<le> ?r" "?r \<le> target" using assms by (auto simp: token_feasible_rpm_def Let_def)
  moreover have "of_int cap < tokens \<longrightarrow> ?r \<le> max 1 (target - 1)" using assms by (auto simp: token_feasible_rpm_def Let_def)
  ultimately show ?thesis by blast
qed

theorem feasible_rpm_fits_budget_witness:
  "of_int (token_feasible_rpm 16000 TARGET_RPM TPM_CEILING PER_REQUEST_TOKEN_CAP) * 16000 \<le> (70000 :: rat)"
  using feasible_rpm_fits_budget [of 16000 TARGET_RPM TPM_CEILING PER_REQUEST_TOKEN_CAP]
  by (simp add: TARGET_RPM_def TPM_CEILING_def)

text \<open>
  The combined first batch is sized by the token envelope alone: with the default density and a
  global profile of 1000 billed tokens it holds up to 57 aliases, far above the reliability cap.
\<close>

lemma combined_ignores_reliability_cap:
  "MAP_RELIABILITY_CAP < combined_capacity DEFAULT_DENSITY 1000 COMPLETION_ENVELOPE_TOKENS SAFETY_RESERVE_TOKENS"
  by (simp add: combined_capacity_def DEFAULT_DENSITY_def COMPLETION_ENVELOPE_TOKENS_def SAFETY_RESERVE_TOKENS_def
      MAP_RELIABILITY_CAP_def Let_def)

end
