(* ===== verification/Groq_Router.thy ===== *)
theory Groq_Router
  imports Limiter Pool Map_Batches
begin

text \<open>
  Account routing for the shared-budget accounts (\<^verbatim>\<open>document_profile/groq_router.py\<close>,
  \<^verbatim>\<open>groq_accounts.py\<close>, \<^verbatim>\<open>groq_routing.py\<close>): one budget per account, aggregated over the limiter
  lanes of both models; a deterministic choice of the account with most capacity; and the short-lived
  reservations that spread a simultaneous burst. The limiter lanes are read through \<open>get_lane\<close>.
\<close>

section \<open>The decision\<close>

definition WORK_CLASS_MODEL :: "(string, string) dict" where
  "WORK_CLASS_MODEL = [(''GLOBAL_DOCUMENT_PROFILE'', ''groq/compound''),
     (''PARENT_ROUTING_MAP'', ''groq/compound-mini''), (''COMBINED_ONE_CALL'', ''groq/compound'')]"

definition DEFAULT_RPM_CEILING :: int where "DEFAULT_RPM_CEILING = 4"
definition DEFAULT_BACKOFF_SECONDS :: rat where "DEFAULT_BACKOFF_SECONDS = 5"

record account_state =
  as_account :: string
  as_remaining_rpd :: int
  as_rolling_rpm :: int
  as_tpm_used :: int
  as_in_flight :: int
  as_locked_until :: instant
  as_breaker_open :: bool

record route_decision =
  rd_account :: "string option"
  rd_model :: "string option"
  rd_reason :: string
  rd_wait_seconds :: rat

definition routed :: "route_decision \<Rightarrow> bool" where
  "routed d = (rd_account d \<noteq> None)"

datatype groq_error = Unknown_Work_Class string | Provider_Without_Name

definition feasible :: "instant \<Rightarrow> rat \<Rightarrow> int \<Rightarrow> int \<Rightarrow> account_state \<Rightarrow> bool" where
  "feasible now est rpm_ceiling tpm_ceiling a =
     (if as_breaker_open a then False
      else if now < as_locked_until a then False
      else if as_remaining_rpd a \<le> 0 then False
      else if token_feasible_rpm est rpm_ceiling tpm_ceiling PER_REQUEST_TOKEN_CAP \<le> as_rolling_rpm a then False
      else if of_int tpm_ceiling < of_int (as_tpm_used a) + est then False
      else True)"

definition capacity_key :: "rat \<Rightarrow> int \<Rightarrow> account_state \<Rightarrow> int \<times> rat \<times> int \<times> int" where
  "capacity_key est tpm_ceiling a =
     (as_remaining_rpd a, of_int tpm_ceiling - (of_int (as_tpm_used a) + est), - as_in_flight a, - as_rolling_rpm a)"

text \<open>The best of the feasible accounts \<open>a # as\<close>: the first maximum, then the smallest name among its ties.\<close>

definition best_account :: "rat \<Rightarrow> int \<Rightarrow> account_state \<Rightarrow> account_state list \<Rightarrow> account_state" where
  "best_account est tpm_ceiling a as =
     (let best = py_max (capacity_key est tpm_ceiling) a as;
          tied = filter (\<lambda>x. capacity_key est tpm_ceiling x = capacity_key est tpm_ceiling best) (a # as) in
      py_min as_account (hd tied) (tl tied))"

definition gr_choose ::
  "string \<Rightarrow> account_state list \<Rightarrow> instant \<Rightarrow> rat \<Rightarrow> int \<Rightarrow> int \<Rightarrow> groq_error + route_decision" where
  "gr_choose work_class accounts now est rpm_ceiling tpm_ceiling =
     (case map_of WORK_CLASS_MODEL work_class of
        None \<Rightarrow> Inl (Unknown_Work_Class work_class)
      | Some model \<Rightarrow>
          if accounts = [] then Inr \<lparr>rd_account = None, rd_model = None, rd_reason = ''empty_pool'', rd_wait_seconds = 0\<rparr>
          else case filter (feasible now est rpm_ceiling tpm_ceiling) accounts of
            a # as \<Rightarrow>
              Inr \<lparr>rd_account = Some (as_account (best_account est tpm_ceiling a as)), rd_model = Some model, rd_reason = ''selected'', rd_wait_seconds = 0\<rparr>
          | [] \<Rightarrow>
              (case map (\<lambda>a. as_locked_until a - now)
                      (filter (\<lambda>a. now < as_locked_until a \<and> \<not> as_breaker_open a) accounts) of
                 l # ls \<Rightarrow> Inr \<lparr>rd_account = None, rd_model = Some model, rd_reason = ''all_locked'',
                               rd_wait_seconds = max 0 (py_min id l ls)\<rparr>
               | [] \<Rightarrow> Inr \<lparr>rd_account = None, rd_model = Some model,
                   rd_reason = (if list_all (\<lambda>a. as_remaining_rpd a \<le> 0) accounts then ''rpd_exhausted'' else ''no_capacity''),
                   rd_wait_seconds = DEFAULT_BACKOFF_SECONDS\<rparr>))"

section \<open>Shared budgets\<close>

fun group_snap :: "string \<Rightarrow> cap_snapshot \<Rightarrow> (string, cap_snapshot list) dict \<Rightarrow> (string, cap_snapshot list) dict" where
  "group_snap acct s [] = [(acct, [s])]"
| "group_snap acct s ((a, ss) # g) = (if a = acct then (a, ss @ [s]) # g else (a, ss) # group_snap acct s g)"

definition by_account :: "(string, string) dict \<Rightarrow> (string, cap_snapshot) dict \<Rightarrow> (string, cap_snapshot list) dict" where
  "by_account account_of snaps =
     fold (\<lambda>(lane, s) g. case map_of account_of lane of None \<Rightarrow> g | Some a \<Rightarrow> group_snap a s g) snaps []"

definition account_state_of :: "(string, int) dict \<Rightarrow> string \<Rightarrow> cap_snapshot list \<Rightarrow> account_state" where
  "account_state_of account_rpd acct snaps =
     (let used_rpd = sum_list (map sn_day_count snaps);
          remaining = (if truthy_int (map_of account_rpd acct) then the (map_of account_rpd acct) - used_rpd
                       else case map sn_remaining_rpd snaps of [] \<Rightarrow> 0 | r # rs \<Rightarrow> py_min id r rs) in
      \<lparr>as_account = acct, as_remaining_rpd = max 0 remaining,
       as_rolling_rpm = sum_list (map sn_rolling_rpm snaps), as_tpm_used = sum_list (map sn_tpm_used snaps),
       as_in_flight = sum_list (map sn_in_flight snaps),
       as_locked_until = (case map sn_locked_until snaps of [] \<Rightarrow> 0 | t # ts \<Rightarrow> py_max id t ts),
       as_breaker_open = list_ex sn_breaker_open snaps\<rparr>)"

definition account_states ::
  "(string, cap_snapshot) dict \<Rightarrow> (string, string) dict \<Rightarrow> (string, int) dict \<Rightarrow> account_state list" where
  "account_states snaps account_of account_rpd =
     sort_key as_account (map (\<lambda>(a, ss). account_state_of account_rpd a ss) (by_account account_of snaps))"

section \<open>Routing with reservations\<close>

definition DEFAULT_ACCOUNT_RPD :: int where "DEFAULT_ACCOUNT_RPD = 230"
definition DEFAULT_PROVIDER :: string where "DEFAULT_PROVIDER = ''llm_cloud''"
definition RESERVATION_TTL_S :: rat where "RESERVATION_TTL_S = 6"

type_synonym pending = "(string, instant list) dict"

definition reset_reservations :: pending where
  "reset_reservations = []"

definition pending_counts :: "instant \<Rightarrow> pending \<Rightarrow> (string, int) dict \<times> pending" where
  "pending_counts now p =
     (let fresh = filter (\<lambda>(a, ts). ts \<noteq> []) (map (\<lambda>(a, ts). (a, filter (\<lambda>t. now - t < RESERVATION_TTL_S) ts)) p) in
      (map (\<lambda>(a, ts). (a, int (length ts))) fresh, fresh))"

definition account_maps ::
  "string list \<Rightarrow> provider_cfg list \<Rightarrow> groq_error + ((string, string) dict \<times> (string, string) dict)" where
  "account_maps pin providers =
     (if \<exists>e \<in> set providers. pc_name e = None then Inl Provider_Without_Name
      else
        let provs = fold (\<lambda>e. dict_set (the (pc_name e)) e) providers [];
            keyed = (\<lambda>lane. case map_of provs lane of None \<Rightarrow> None
               | Some e \<Rightarrow> (case pc_api_key_env e of Some (c # cs) \<Rightarrow> Some (c # cs, case pc_model e of None \<Rightarrow> [] | Some m \<Rightarrow> m) | _ \<Rightarrow> None)) in
        Inr (fold (\<lambda>lane d. case keyed lane of None \<Rightarrow> d | Some (a, m) \<Rightarrow> dict_set lane a d) pin [],
             fold (\<lambda>lane d. case keyed lane of None \<Rightarrow> d | Some (a, m) \<Rightarrow> dict_set lane m d) pin []))"

definition lane_serving :: "string list \<Rightarrow> route_decision \<Rightarrow> (string, string) dict \<Rightarrow> (string, string) dict \<Rightarrow> string option" where
  "lane_serving pin d account_of model_of =
     (if \<not> routed d then None
      else find (\<lambda>lane. map_of account_of lane = rd_account d \<and> map_of model_of lane = rd_model d) pin)"

definition fresh_snapshot :: "int \<Rightarrow> cap_snapshot" where
  "fresh_snapshot rpd = \<lparr>sn_remaining_rpd = rpd, sn_rolling_rpm = 0, sn_tpm_used = 0, sn_in_flight = 0,
     sn_locked_until = 0, sn_breaker_open = False, sn_day_count = 0, sn_rpd_budget = None,
     sn_provider_rpd_limit = None, sn_provider_rpd_remaining = None\<rparr>"

definition lane_snapshot ::
  "sys_env \<Rightarrow> instant \<Rightarrow> (string \<Rightarrow> limiter option) \<Rightarrow> (string, int) dict \<Rightarrow> string \<Rightarrow> string \<Rightarrow> cap_snapshot" where
  "lane_snapshot env now get_lane rpd lane acct =
     (case get_lane lane of
        Some l \<Rightarrow> capacity_snapshot env now l
      | None \<Rightarrow> fresh_snapshot (case map_of rpd acct of None \<Rightarrow> DEFAULT_ACCOUNT_RPD | Some r \<Rightarrow> r))"

definition route_states ::
  "sys_env \<Rightarrow> instant \<Rightarrow> (string \<Rightarrow> limiter option) \<Rightarrow> (string, int) dict \<Rightarrow> (string, int) dict \<Rightarrow> (string, string) dict \<Rightarrow> account_state list" where
  "route_states env now get_lane rpd live account_of =
     (let snaps = map (\<lambda>(lane, acct). (lane,
            let s = lane_snapshot env now get_lane rpd lane acct in
            s\<lparr>sn_in_flight := sn_in_flight s + or_int (map_of live acct) 0\<rparr>)) account_of in
      account_states snaps account_of rpd)"

definition route ::
  "sys_env \<Rightarrow> instant \<Rightarrow> (string \<Rightarrow> limiter option) \<Rightarrow> provider_cfg list \<Rightarrow> (string, int) dict \<Rightarrow> string list \<Rightarrow> string \<Rightarrow> rat \<Rightarrow>
   pending \<Rightarrow> (groq_error + (string option \<times> route_decision)) \<times> pending" where
  "route env now get_lane providers account_rpd pin work_class est p =
     (case account_maps pin providers of
        Inl e \<Rightarrow> (Inl e, p)
      | Inr (account_of, model_of) \<Rightarrow>
          if account_of = [] then
            (Inr (None, \<lparr>rd_account = None, rd_model = None, rd_reason = ''empty_pool'', rd_wait_seconds = 0\<rparr>), p)
          else
            let rpd = (if account_rpd \<noteq> [] then account_rpd
                       else map (\<lambda>a. (a, DEFAULT_ACCOUNT_RPD)) (remdups (map snd account_of)));
                (live, p1) = pending_counts now p;
                states = route_states env now get_lane rpd live account_of in
            case gr_choose work_class states now est DEFAULT_RPM_CEILING TPM_CEILING of
              Inl e \<Rightarrow> (Inl e, p1)
            | Inr d \<Rightarrow>
                let p2 = (case rd_account d of
                            Some (c # cs) \<Rightarrow>
                              dict_set (c # cs) ((case map_of p1 (c # cs) of None \<Rightarrow> [] | Some ts \<Rightarrow> ts) @ [now]) p1
                          | _ \<Rightarrow> p1) in
                (Inr (lane_serving pin d account_of model_of, d), p2))"

section \<open>The chosen account\<close>

lemma py_min_key_unique:
  assumes "set (a # as) = set (b # bs)"
  shows "f (py_min f a as) = f (py_min f b bs)"
proof (rule antisym)
  show "f (py_min f a as) \<le> f (py_min f b bs)"
    using py_min_in [of f b bs] assms by (intro py_min_le) auto
  show "f (py_min f b bs) \<le> f (py_min f a as)"
    using py_min_in [of f a as] assms by (intro py_min_le) auto
qed

lemma best_account_spec:
  "best_account est tpm a as \<in> set (a # as) \<and>
   (\<forall>b \<in> set (a # as). capacity_key est tpm b < capacity_key est tpm (best_account est tpm a as) \<or>
      capacity_key est tpm b = capacity_key est tpm (best_account est tpm a as) \<and> as_account (best_account est tpm a as) \<le> as_account b)"
proof -
  define k where "k = capacity_key est tpm"
  define best where "best = py_max k a as"
  define tied where "tied = filter (\<lambda>x. k x = k best) (a # as)"
  have c: "best_account est tpm a as = py_min as_account (hd tied) (tl tied)"
    by (simp only: best_account_def tied_def best_def k_def Let_def)
  have st: "set tied = {x \<in> set (a # as). k x = k best}" by (simp only: tied_def set_filter)
  have "best \<in> set (a # as)" using py_max_in [of k a as] by (simp add: best_def)
  then have "tied \<noteq> []" using st by (metis (mono_tags, lifting) empty_iff list.set(1) mem_Collect_eq)
  then have ins: "insert (hd tied) (set (tl tied)) = set tied" by (metis list.collapse list.simps(15))
  have m: "best_account est tpm a as \<in> set tied" using py_min_in [of as_account "hd tied" "tl tied"] c ins by simp
  have "k b < k (best_account est tpm a as) \<or> k b = k (best_account est tpm a as) \<and> as_account (best_account est tpm a as) \<le> as_account b"
    if b: "b \<in> set (a # as)" for b
  proof -
    have le: "k b \<le> k best" unfolding best_def using b by (intro py_max_ge) simp
    have eq: "k (best_account est tpm a as) = k best" using m st by simp
    have "as_account (best_account est tpm a as) \<le> as_account b" if "k b = k best"
      unfolding c using st b that ins by (intro py_min_le) blast
    then show ?thesis using le eq by (metis le_less)
  qed
  then show ?thesis using m st by (auto simp: k_def)
qed

lemma best_account_name_set:
  assumes "set (a # as) = set (b # bs)"
  shows "as_account (best_account est tpm a as) = as_account (best_account est tpm b bs)"
proof -
  let ?x = "best_account est tpm a as" and ?y = "best_account est tpm b bs" and ?k = "capacity_key est tpm"
  have "?x \<in> set (b # bs)" "?y \<in> set (a # as)" using best_account_spec assms by blast+
  then have "?k ?x < ?k ?y \<or> ?k ?x = ?k ?y \<and> as_account ?y \<le> as_account ?x"
    "?k ?y < ?k ?x \<or> ?k ?y = ?k ?x \<and> as_account ?x \<le> as_account ?y"
    using best_account_spec by blast+
  then show ?thesis by (metis antisym less_asym less_irrefl)
qed

lemma gr_choose_selected:
  assumes "gr_choose wc accs now est rpm tpm = Inr d"
  shows "(routed d \<longleftrightarrow> (\<exists>a \<in> set accs. feasible now est rpm tpm a)) \<and>
    (routed d \<longrightarrow> rd_reason d = ''selected'' \<and> rd_model d = map_of WORK_CLASS_MODEL wc \<and>
      (\<exists>a \<in> set accs. rd_account d = Some (as_account a) \<and> feasible now est rpm tpm a \<and>
        (\<forall>b \<in> set accs. feasible now est rpm tpm b \<longrightarrow>
           capacity_key est tpm b < capacity_key est tpm a \<or>
           capacity_key est tpm b = capacity_key est tpm a \<and> as_account a \<le> as_account b)))"
proof -
  let ?f = "feasible now est rpm tpm"
  obtain model where m: "map_of WORK_CLASS_MODEL wc = Some model"
    using assms by (auto simp: gr_choose_def split: option.splits)
  show ?thesis
  proof (cases "filter ?f accs")
    case Nil
    then have "\<not> routed d" using assms m by (auto simp: gr_choose_def routed_def split: if_splits list.splits)
    then show ?thesis using Nil by (auto simp: filter_empty_conv)
  next
    case (Cons a as)
    let ?c = "best_account est tpm a as"
    have ne: "accs \<noteq> []" using Cons by auto
    have d: "d = \<lparr>rd_account = Some (as_account ?c), rd_model = Some model, rd_reason = ''selected'', rd_wait_seconds = 0\<rparr>"
      using assms m ne Cons by (simp add: gr_choose_def)
    have in_f: "set (a # as) = {x \<in> set accs. ?f x}" using Cons by (metis set_filter)
    have c: "?c \<in> set accs" "?f ?c" and best: "\<forall>b \<in> set accs. ?f b \<longrightarrow>
        capacity_key est tpm b < capacity_key est tpm ?c \<or> capacity_key est tpm b = capacity_key est tpm ?c \<and> as_account ?c \<le> as_account b"
      using best_account_spec [of est tpm a as] unfolding in_f by blast+
    have "routed d" "rd_reason d = ''selected''" "rd_model d = map_of WORK_CLASS_MODEL wc" "rd_account d = Some (as_account ?c)"
      using d m by (simp_all add: routed_def)
    then show ?thesis using c best by blast
  qed
qed

text \<open>
  The router picks the account with most capacity: it routes exactly when some account is
  feasible; the account it names is feasible, is served with the model of the work class, and no
  feasible account has a larger capacity (remaining day budget, then token headroom, then
  fewest in flight, then lowest rolling rate), ties going to the smallest name.
\<close>

theorem router_picks_most_capacity:
  assumes "gr_choose wc accs now est rpm tpm = Inr d"
  shows "(routed d \<longleftrightarrow> (\<exists>a \<in> set accs. feasible now est rpm tpm a)) \<and>
    (routed d \<longrightarrow> rd_reason d = ''selected'' \<and> rd_model d = map_of WORK_CLASS_MODEL wc \<and>
      (\<exists>a \<in> set accs. rd_account d = Some (as_account a) \<and> feasible now est rpm tpm a \<and>
        (\<forall>b \<in> set accs. feasible now est rpm tpm b \<longrightarrow>
           capacity_key est tpm b < capacity_key est tpm a \<or>
           capacity_key est tpm b = capacity_key est tpm a \<and> as_account a \<le> as_account b)))"
  using assms by (rule gr_choose_selected)

definition demo_account :: "string \<Rightarrow> int \<Rightarrow> account_state" where
  "demo_account name rpd = \<lparr>as_account = name, as_remaining_rpd = rpd, as_rolling_rpm = 0, as_tpm_used = 0,
     as_in_flight = 0, as_locked_until = 0, as_breaker_open = False\<rparr>"

lemma demo_choice:
  "gr_choose ''PARENT_ROUTING_MAP'' [demo_account ''a'' 5, demo_account ''b'' 9] 1 100 4 70000 =
   Inr \<lparr>rd_account = Some ''b'', rd_model = Some ''groq/compound-mini'', rd_reason = ''selected'', rd_wait_seconds = 0\<rparr>"
  by (simp add: gr_choose_def WORK_CLASS_MODEL_def demo_account_def feasible_def token_feasible_rpm_def
      PER_REQUEST_TOKEN_CAP_def capacity_key_def best_account_def Let_def)

theorem router_picks_most_capacity_witness:
  "\<exists>a \<in> set [demo_account ''a'' 5, demo_account ''b'' 9]. feasible 1 100 4 70000 a"
  using router_picks_most_capacity [OF demo_choice] by (simp add: routed_def)

text \<open>
  The decision is replay-safe: it depends on the set of account states only, not on the
  order in which they are listed.
\<close>

theorem router_order_independent:
  assumes "set accs = set accs'"
  shows "gr_choose wc accs now est rpm tpm = gr_choose wc accs' now est rpm tpm"
proof -
  let ?f = "feasible now est rpm tpm"
  let ?lock = "\<lambda>xs. map (\<lambda>a. as_locked_until a - now) (filter (\<lambda>a. now < as_locked_until a \<and> \<not> as_breaker_open a) xs)"
  have e: "accs = [] \<longleftrightarrow> accs' = []" using assms by auto
  have ff: "set (filter ?f accs) = set (filter ?f accs')" using assms by simp
  have ll: "set (?lock accs) = set (?lock accs')" using assms by auto
  show ?thesis
  proof (cases "filter ?f accs")
    case Nil
    then have n: "filter ?f accs' = []" using ff by simp
    show ?thesis
    proof (cases "?lock accs")
      case (Cons l ls)
      then obtain l' ls' where l': "?lock accs' = l' # ls'" using ll by (cases "?lock accs'") auto
      have "py_min id l ls = py_min id l' ls'" using py_min_key_unique [of l ls l' ls' id] Cons l' ll by simp
      then show ?thesis using Nil n Cons l' e by (simp add: gr_choose_def split: option.splits)
    next
      case lnil: Nil
      then have "set (?lock accs') = {}" using ll by simp
      then have "?lock accs' = []" by (simp only: set_empty)
      moreover have "list_all (\<lambda>a. as_remaining_rpd a \<le> 0) accs = list_all (\<lambda>a. as_remaining_rpd a \<le> 0) accs'"
        unfolding list_all_iff assms by (rule refl)
      ultimately show ?thesis using Nil n lnil e by (simp add: gr_choose_def split: option.splits)
    qed
  next
    case (Cons a as)
    then obtain b bs where b: "filter ?f accs' = b # bs" using ff by (cases "filter ?f accs'") auto
    have s: "set (a # as) = set (b # bs)" using ff Cons b by metis
    show ?thesis using Cons b e best_account_name_set [OF s] by (simp add: gr_choose_def split: option.splits)
  qed
qed

theorem router_order_independent_witness:
  "gr_choose ''PARENT_ROUTING_MAP'' [demo_account ''b'' 9, demo_account ''a'' 5] 1 100 4 70000 =
   gr_choose ''PARENT_ROUTING_MAP'' [demo_account ''a'' 5, demo_account ''b'' 9] 1 100 4 70000"
  by (rule router_order_independent) auto

section \<open>Shared budgets are respected\<close>

lemma map_of_group_snap:
  "map_of (group_snap a s g) = (map_of g)(a \<mapsto> (case map_of g a of None \<Rightarrow> [] | Some ss \<Rightarrow> ss) @ [s])"
  by (induction a s g rule: group_snap.induct) (auto simp: fun_upd_twist)

lemma group_snap_keys: "fst ` set (group_snap a s g) = insert a (fst ` set g)"
  by (induction a s g rule: group_snap.induct) auto

lemma group_snap_distinct: "distinct (map fst g) \<Longrightarrow> distinct (map fst (group_snap a s g))"
  using group_snap_keys by (induction a s g rule: group_snap.induct) auto

definition snaps_of :: "(string, string) dict \<Rightarrow> string \<Rightarrow> (string, cap_snapshot) dict \<Rightarrow> cap_snapshot list" where
  "snaps_of ao a snaps = map snd (filter (\<lambda>(l, s). map_of ao l = Some a) snaps)"

lemma by_account_fold:
  fixes ao :: "(string, string) dict"
  defines "step \<equiv> \<lambda>(lane, s) g. case map_of ao lane of None \<Rightarrow> g | Some a \<Rightarrow> group_snap a s g"
  assumes "distinct (map fst g)"
  shows "distinct (map fst (fold step snaps g)) \<and> map_of (fold step snaps g) a =
    (if map_of g a = None \<and> snaps_of ao a snaps = [] then None
     else Some ((case map_of g a of None \<Rightarrow> [] | Some ss \<Rightarrow> ss) @ snaps_of ao a snaps))"
  using assms(2)
proof (induction snaps arbitrary: g)
  case Nil
  then show ?case by (auto simp: snaps_of_def split: option.splits)
next
  case (Cons x snaps)
  obtain lane s where x: "x = (lane, s)" by (cases x)
  have d: "distinct (map fst (step x g))"
    using Cons.prems by (auto simp: step_def x group_snap_distinct split: option.splits)
  have "map_of (step x g) a = (if map_of ao lane = Some a then Some ((case map_of g a of None \<Rightarrow> [] | Some ss \<Rightarrow> ss) @ [s]) else map_of g a)"
    by (auto simp: step_def x map_of_group_snap split: option.splits)
  then show ?case using Cons.IH [OF d] by (auto simp: x snaps_of_def split: option.splits)
qed

lemma by_account_lookup:
  "(a, ss) \<in> set (by_account ao snaps) \<longleftrightarrow> ss = snaps_of ao a snaps \<and> ss \<noteq> []"
proof -
  have f: "distinct (map fst (by_account ao snaps))"
    "map_of (by_account ao snaps) a = (if snaps_of ao a snaps = [] then None else Some (snaps_of ao a snaps))"
    using by_account_fold [of "[]" ao snaps a] by (simp_all add: by_account_def)
  show ?thesis using map_of_eq_Some_iff [OF f(1), of a ss] f(2) by (auto split: if_splits)
qed

lemma account_states_in:
  "st \<in> set (account_states snaps ao rpd) \<longleftrightarrow>
   (\<exists>a. st = account_state_of rpd a (snaps_of ao a snaps) \<and> snaps_of ao a snaps \<noteq> [])"
  by (auto simp: account_states_def by_account_lookup image_iff) (metis case_prod_conv by_account_lookup)

lemma feasible_account:
  assumes "feasible now est rpm tpm (account_state_of rpd a ss)"
  shows "(\<forall>s \<in> set ss. \<not> sn_breaker_open s \<and> sn_locked_until s \<le> now) \<and>
    (\<forall>b. map_of rpd a = Some b \<longrightarrow> b \<noteq> 0 \<longrightarrow> sum_list (map sn_day_count ss) < b)"
proof -
  have "\<not> list_ex sn_breaker_open ss" and l: "(case map sn_locked_until ss of [] \<Rightarrow> 0 | t # ts \<Rightarrow> py_max id t ts) \<le> now"
    and r: "0 < as_remaining_rpd (account_state_of rpd a ss)"
    using assms by (auto simp: feasible_def account_state_of_def Let_def split: if_splits)
  moreover have "sn_locked_until s \<le> now" if s: "s \<in> set ss" for s
  proof -
    obtain t ts where t: "map sn_locked_until ss = t # ts" using s by (cases "map sn_locked_until ss") auto
    have "sn_locked_until s \<in> set (map sn_locked_until ss)" using s by simp
    then have "sn_locked_until s \<le> py_max id t ts" using py_max_ge [of "sn_locked_until s" t ts id] unfolding t by simp
    then show ?thesis using l t by simp
  qed
  moreover have "sum_list (map sn_day_count ss) < b" if "map_of rpd a = Some b" "b \<noteq> 0" for b
    using r that by (simp add: account_state_of_def Let_def truthy_int_def)
  ultimately show ?thesis by (auto simp: list_ex_iff)
qed


lemma snaps_of_lanes:
  assumes "distinct (map fst ao)"
  shows "snaps_of ao a (map (\<lambda>(l, ac). (l, f l ac)) ao) = map (\<lambda>(l, ac). f l ac) (filter (\<lambda>(l, ac). ac = a) ao)"
proof -
  have "filter (\<lambda>(l, s). map_of ao l = Some a) (map (\<lambda>(l, ac). (l, f l ac)) xs) = map (\<lambda>(l, ac). (l, f l ac)) (filter (\<lambda>(l, ac). ac = a) xs)"
    if "set xs \<subseteq> set ao" for xs
    using that
  proof (induction xs)
    case (Cons x xs)
    obtain l ac where x: "x = (l, ac)" by (cases x)
    have "map_of ao l = Some ac" using Cons.prems x assms by (simp add: map_of_is_SomeI)
    then show ?case using Cons x by auto
  qed simp
  from this [of ao] show ?thesis by (simp add: snaps_of_def comp_def case_prod_beta)
qed

lemma fold_dict_distinct:
  "distinct (map fst d) \<Longrightarrow>
   distinct (map fst (fold (\<lambda>x d. case f x of None \<Rightarrow> d | Some (a, m) \<Rightarrow> dict_set x (g a m) d) xs d))"
  by (induction xs arbitrary: d) (auto split: option.splits)

lemma account_maps_distinct: "account_maps pin providers = Inr (ao, mo) \<Longrightarrow> distinct (map fst ao)"
  by (auto simp: account_maps_def Let_def fold_dict_distinct [where g = "\<lambda>a m. a"] split: if_splits)

text \<open>
  Routing over live limiter lanes respects every shared limit: when the router names an
  account, no registered lane of that account has an open breaker or a pending retry-after, the
  dispatches of the day summed over all the account's lanes are below the account's budget, and the
  pick is recorded as one more reservation of that account. A lane it returns is a lane of the
  pin that belongs to that account and runs the model of the work class.
\<close>

theorem route_respects_shared_limits:
  assumes "route env now get_lane providers rpd pin wc est p = (Inr (lane, d), p')"
    and "account_maps pin providers = Inr (ao, mo)" "rd_account d = Some acct" "acct \<noteq> []"
  shows "(\<forall>l ll. (l, acct) \<in> set ao \<longrightarrow> get_lane l = Some ll \<longrightarrow> \<not> br_is_open (l_breaker ll) \<and> l_not_before ll \<le> now) \<and>
    (\<forall>b. map_of rpd acct = Some b \<longrightarrow> b \<noteq> 0 \<longrightarrow>
       sum_list (map (\<lambda>x. case get_lane (fst x) of None \<Rightarrow> 0 | Some ll \<Rightarrow> used_today env now ll)
         (filter (\<lambda>(l, a). a = acct) ao)) < b) \<and>
    map_of p' acct = Some ((case map_of (snd (pending_counts now p)) acct of None \<Rightarrow> [] | Some ts \<Rightarrow> ts) @ [now]) \<and>
    (\<forall>l. lane = Some l \<longrightarrow> l \<in> set pin \<and> map_of ao l = Some acct \<and> map_of mo l = map_of WORK_CLASS_MODEL wc)"
proof -
  have ne: "ao \<noteq> []" using assms by (auto simp: route_def split: if_splits)
  let ?rpd = "if rpd \<noteq> [] then rpd else map (\<lambda>a. (a, DEFAULT_ACCOUNT_RPD)) (remdups (map snd ao))"
  obtain live p1 where pc: "pending_counts now p = (live, p1)" by (cases "pending_counts now p")
  obtain c cs where c: "acct = c # cs" using assms(4) by (cases acct) auto
  let ?st = "route_states env now get_lane ?rpd live ao"
  have ch: "gr_choose wc ?st now est DEFAULT_RPM_CEILING TPM_CEILING = Inr d" and lane: "lane = lane_serving pin d ao mo"
    and p': "p' = dict_set acct ((case map_of p1 acct of None \<Rightarrow> [] | Some ts \<Rightarrow> ts) @ [now]) p1"
    using assms ne pc c by (auto simp: route_def Let_def split: sum.splits)
  have r: "routed d" using assms(3) by (simp add: routed_def)
  let ?s = "\<lambda>l ac. (lane_snapshot env now get_lane ?rpd l ac)\<lparr>sn_in_flight := sn_in_flight (lane_snapshot env now get_lane ?rpd l ac) + or_int (map_of live ac) 0\<rparr>"
  let ?snaps = "map (\<lambda>(l, ac). (l, ?s l ac)) ao"
  have st: "?st = account_states ?snaps ao ?rpd" by (simp add: route_states_def Let_def)
  obtain x where x: "x \<in> set ?st" "as_account x = acct" "feasible now est DEFAULT_RPM_CEILING TPM_CEILING x"
    and model: "rd_model d = map_of WORK_CLASS_MODEL wc"
    using gr_choose_selected [OF ch] r assms(3) by auto
  have xa: "x = account_state_of ?rpd acct (snaps_of ao acct ?snaps)"
    using x(1,2) unfolding st account_states_in by (auto simp: account_state_of_def Let_def)
  have so: "snaps_of ao acct ?snaps = map (\<lambda>(l, ac). ?s l ac) (filter (\<lambda>(l, ac). ac = acct) ao)"
    using account_maps_distinct [OF assms(2)] by (rule snaps_of_lanes)
  note fe = feasible_account [OF x(3) [unfolded xa so]]
  have "\<not> br_is_open (l_breaker ll) \<and> l_not_before ll \<le> now" if "(l, acct) \<in> set ao" "get_lane l = Some ll" for l ll
  proof -
    have "?s l acct \<in> set (map (\<lambda>(l, ac). ?s l ac) (filter (\<lambda>(l, ac). ac = acct) ao))" using that(1) by force
    then show ?thesis using fe that(2) by (fastforce simp: lane_snapshot_def capacity_snapshot_def Let_def)
  qed
  moreover have "sum_list (map (\<lambda>x. case get_lane (fst x) of None \<Rightarrow> 0 | Some ll \<Rightarrow> used_today env now ll)
         (filter (\<lambda>(l, a). a = acct) ao)) < b" if "map_of rpd acct = Some b" "b \<noteq> 0" for b
  proof -
    have "sn_day_count (?s l ac) = (case get_lane l of None \<Rightarrow> 0 | Some ll \<Rightarrow> used_today env now ll)" for l ac
      by (auto simp: lane_snapshot_def capacity_snapshot_def fresh_snapshot_def Let_def split: option.splits)
    moreover have "map_of ?rpd acct = Some b" using that by auto
    ultimately show ?thesis using fe that(2) by (simp add: comp_def case_prod_beta)
  qed
  moreover have "map_of p' acct = Some ((case map_of (snd (pending_counts now p)) acct of None \<Rightarrow> [] | Some ts \<Rightarrow> ts) @ [now])"
    using p' pc by simp
  moreover have "l \<in> set pin \<and> map_of ao l = Some acct \<and> map_of mo l = map_of WORK_CLASS_MODEL wc" if "lane = Some l" for l
  proof -
    have "find (\<lambda>l. map_of ao l = Some acct \<and> map_of mo l = map_of WORK_CLASS_MODEL wc) pin = Some l"
      using lane that r model assms(3) by (simp add: lane_serving_def)
    then show ?thesis by (auto simp: find_Some_iff)
  qed
  ultimately show ?thesis by blast
qed


definition demo_router_env :: sys_env where
  "demo_router_env = \<lparr>wake = (\<lambda>t d. t + d), utc_day = (\<lambda>t. ''d''), utc_iso = (\<lambda>t. ''i''), wall_clock = (\<lambda>t. t),
     float_of = (\<lambda>s. None)\<rparr>"

definition demo_provider :: provider_cfg where
  "demo_provider = \<lparr>pc_name = Some ''g1'', pc_enabled = None, pc_api_key_env = Some ''K1'', pc_url = Some ''u'',
     pc_url_template = None, pc_account_id_env = None, pc_model = Some ''groq/compound-mini'',
     pc_reasoning_effort = None, pc_json_mode = None, pc_structured = None, pc_dedicated = None,
     pc_request_char_budget = None, pc_enable_thinking = None, pc_think_suffix = None\<rparr>"

theorem route_respects_shared_limits_witness:
  "map_of (snd (route demo_router_env 1 (\<lambda>l. None) [demo_provider] [(''K1'', 230)] [''g1''] ''PARENT_ROUTING_MAP'' 100 [])) ''K1'' = Some [1]"
proof -
  have am: "account_maps [''g1''] [demo_provider] = Inr ([(''g1'', ''K1'')], [(''g1'', ''groq/compound-mini'')])"
    by (simp add: account_maps_def demo_provider_def Let_def)
  obtain p' where r: "route demo_router_env 1 (\<lambda>l. None) [demo_provider] [(''K1'', 230)] [''g1''] ''PARENT_ROUTING_MAP'' 100 [] =
      (Inr (Some ''g1'', \<lparr>rd_account = Some ''K1'', rd_model = Some ''groq/compound-mini'', rd_reason = ''selected'', rd_wait_seconds = 0\<rparr>), p')"
    by (simp add: route_def am pending_counts_def route_states_def account_states_def by_account_def lane_snapshot_def
        fresh_snapshot_def account_state_of_def gr_choose_def WORK_CLASS_MODEL_def feasible_def token_feasible_rpm_def
        PER_REQUEST_TOKEN_CAP_def DEFAULT_RPM_CEILING_def TPM_CEILING_def best_account_def lane_serving_def routed_def
        truthy_int_def or_int_def Let_def)
  then show ?thesis using route_respects_shared_limits [OF r am] by (simp add: pending_counts_def)
qed

end
