(* ===== verification/Py_Json.thy ===== *)
theory Py_Json
  imports Py_Strings
begin

text \<open>
  Parsed JSON values as Python sees them, with the operations the adapter applies to them:
  truth value, equality (\<open>True == 1\<close>; dicts compare by key), \<open>str.split\<close> with a one-character
  separator, and results that are accumulated lists of errors.
\<close>

datatype json = JNull | JBool bool | JNum rat | JString string | JList "json list" | JDict "(string \<times> json) list"

fun truthy :: "json \<Rightarrow> bool" where
  "truthy JNull = False"
| "truthy (JBool b) = b"
| "truthy (JNum x) = (x \<noteq> 0)"
| "truthy (JString s) = (s \<noteq> [])"
| "truthy (JList xs) = (xs \<noteq> [])"
| "truthy (JDict d) = (d \<noteq> [])"

definition some_str :: "string option \<Rightarrow> bool" where
  "some_str x = (case x of None \<Rightarrow> False | Some s \<Rightarrow> s \<noteq> [])"

text \<open>Equality: a bool is its number, lists are compared in order, dicts by key.\<close>

fun json_num :: "json \<Rightarrow> rat option" where
  "json_num (JBool b) = Some (if b then 1 else 0)"
| "json_num (JNum x) = Some x"
| "json_num _ = None"

fun json_eq :: "json \<Rightarrow> json \<Rightarrow> bool"
  and json_list_eq :: "json list \<Rightarrow> json list \<Rightarrow> bool"
  and json_dict_le :: "(string \<times> json) list \<Rightarrow> (string \<times> json) list \<Rightarrow> bool" where
  "json_eq JNull y = (y = JNull)"
| "json_eq (JBool b) y = (json_num y = Some (if b then 1 else 0))"
| "json_eq (JNum x) y = (json_num y = Some x)"
| "json_eq (JString s) y = (y = JString s)"
| "json_eq (JList xs) y = (case y of JList ys \<Rightarrow> json_list_eq xs ys | _ \<Rightarrow> False)"
| "json_eq (JDict d) y = (case y of JDict e \<Rightarrow> json_dict_le d e \<and> fst ` set e \<subseteq> fst ` set d | _ \<Rightarrow> False)"
| "json_list_eq [] ys = (ys = [])"
| "json_list_eq (x # xs) ys = (case ys of [] \<Rightarrow> False | y # ys' \<Rightarrow> json_eq x y \<and> json_list_eq xs ys')"
| "json_dict_le [] e = True"
| "json_dict_le ((k, v) # d) e = ((case map_of e k of None \<Rightarrow> False | Some w \<Rightarrow> json_eq v w) \<and> json_dict_le d e)"

fun split_char :: "char \<Rightarrow> string \<Rightarrow> string list" where
  "split_char c [] = [[]]"
| "split_char c (x # xs) =
     (if x = c then [] # split_char c xs
      else case split_char c xs of [] \<Rightarrow> [[x]] | s # ss \<Rightarrow> (x # s) # ss)"

lemma split_char_nonempty [simp]: "split_char c s \<noteq> []"
  by (induction s) (auto split: list.splits)

lemma split_char_join: "py_join c (split_char c s) = s"
proof (induction s)
  case (Cons x xs)
  obtain t ts where t: "split_char c xs = t # ts" by (cases "split_char c xs") simp_all
  then show ?case using Cons by (cases ts) auto
qed simp

end
