(* ===== verification/Tickets.thy ===== *)
theory Tickets
  imports Py_Json
begin

text \<open>
  The stage tickets of the control plane (\<^verbatim>\<open>control/control/tickets.py\<close>) and the want-set of the
  projections (\<^verbatim>\<open>shared/polymath_shared/projection_want.py\<close>). The Postgres tables are lists of
  row records in insertion order, SQL statements are functions on them, and one record holds the
  tables the module reads and writes together with the process-wide receipt verdict store. \<open>db_now\<close>
  is the transaction's \<open>now()\<close>, \<open>db_mono\<close> the monotonic clock during the pass. The content hash is
  a parameter (\<open>content_hash\<close> of \<^verbatim>\<open>shared/polymath_shared/identity.py\<close>, SHA-256 of the canonical JSON).
\<close>

section \<open>Tables\<close>

type_synonym payload = "(string, json) dict"

datatype ticket_status = Pending | Ready | Leased | Done | Failed | Repair | Superseded

record ticket =
  tk_id :: string
  tk_seq :: nat
  tk_run :: string
  tk_corpus :: string
  tk_stage :: string
  tk_generation :: int
  tk_event_type :: string
  tk_status :: ticket_status
  tk_lease_owner :: "string option"
  tk_lease_expires :: "rat option"
  tk_attempt :: nat
  tk_note :: "string option"
  tk_archived :: bool

record attempt_row =
  sa_run :: string
  sa_stage :: string
  sa_contract :: string
  sa_started :: rat
  sa_completed :: "rat option"
  sa_outcome :: string
  sa_error :: "string option"

text \<open>The operational columns of an extract artifact; they are null or set together.\<close>

record extract_columns =
  ec_present :: bool
  ec_calls :: "int option"
  ec_entities :: "int option"
  ec_relations :: "int option"
  ec_sent :: "int option"
  ec_unaccounted :: "int option"
  ec_dropped :: "int option"

record artifact_row =
  af_id :: string
  af_run :: string
  af_stage :: string
  af_contract :: string
  af_payload :: payload
  af_extract :: "extract_columns option"

record run_row =
  rn_id :: string
  rn_corpus :: string
  rn_source_name :: "string option"
  rn_status :: string
  rn_created :: rat
  rn_contract :: "string option"

record doc_row =
  dc_id :: string
  dc_corpus :: string
  dc_source_name :: string

record chunk_row =
  ck_id :: string
  ck_doc :: string
  ck_tier :: string

record receipt_row =
  pr_projection :: string
  pr_kind :: string
  pr_active :: bool
  pr_entity :: string
  pr_hash :: string

record outbox_row =
  ob_id :: nat
  ob_run :: string
  ob_type :: string
  ob_payload :: payload
  ob_key :: string
  ob_delivered :: "rat option"

record worker_row =
  wk_id :: string
  wk_heartbeat :: rat
  wk_status :: string
  wk_last_error :: "string option"

record runtime_row =
  rt_active :: nat
  rt_watermark :: "nat option"
  rt_paused :: bool
  rt_last_tick :: "rat option"

datatype receipt_state = PRESENT | MISSING

datatype verdict_key = Corpus_Verdict string string | Run_Verdict string string

record db =
  db_tickets :: "ticket list"
  db_next_seq :: nat
  db_attempts :: "attempt_row list"
  db_artifacts :: "artifact_row list"
  db_runs :: "run_row list"
  db_docs :: "doc_row list"
  db_chunks :: "chunk_row list"
  db_receipts :: "receipt_row list"
  db_outbox :: "outbox_row list"
  db_next_event :: nat
  db_workers :: "worker_row list"
  db_cursors :: "(string \<times> string, nat) dict"
  db_corpora :: "string list"
  db_archived_corpora :: "string list"
  db_runtime :: "(string, runtime_row) dict"
  db_now :: rat
  db_mono :: instant
  db_verdicts :: "(verdict_key, instant \<times> receipt_state) dict"

section \<open>The stage DAG\<close>

definition STAGE_DAG :: "(string \<times> string \<times> string list \<times> string list) list" where
  "STAGE_DAG =
     [(''intake'', ''intake.v1'', [], []),
      (''extract'', ''chunked.v1'', [''manifest''], []),
      (''profile_document'', ''profile_document.v1'', [''documents_profiled''], []),
      (''project_qdrant'', ''project_qdrant.v1'', [''chunk_count''], [''qdrant'']),
      (''project_neo4j'', ''project_neo4j.v1'', [''facts''], [''neo4j'']),
      (''canonicalize'', ''canonicalize.v1'', [''canonical_entities''], []),
      (''project_canonical'', ''project_canonical.v1'', [''memberships''], [''neo4j'']),
      (''verify_projections'', ''verify.v1'', [''qdrant'', ''routing_qdrant'', ''neo4j'', ''canonical''], []),
      (''compile_objects'', ''compile_objects.v1'', [], []),
      (''parent_summary'', ''parent_summary.v1'', [], []),
      (''document_summary'', ''document_summary.v1'', [], []),
      (''corpus_summary'', ''corpus_summary.v1'', [], []),
      (''vocabulary'', ''vocabulary.v1'', [], []),
      (''doc_profile'', ''doc_profile.v1'', [''doc_profile''], [])]"

definition NON_BLOCKING_STAGES :: "string list" where
  "NON_BLOCKING_STAGES = [''compile_objects'', ''parent_summary'', ''document_summary'', ''corpus_summary'',
     ''vocabulary'', ''doc_profile'', ''parent_enrichment'', ''doc_parent_map'']"

definition is_blocking :: "string \<Rightarrow> bool" where
  "is_blocking stage = (stage \<notin> set NON_BLOCKING_STAGES)"

definition DAG_ORDER :: "string list" where
  "DAG_ORDER = map fst STAGE_DAG"

definition STAGE_SPEC :: "string \<Rightarrow> (string \<times> string list \<times> string list) option" where
  "STAGE_SPEC stage = map_of STAGE_DAG stage"

type_synonym hasher = "json \<Rightarrow> string"

definition ticket_id :: "hasher \<Rightarrow> string \<Rightarrow> string \<Rightarrow> int \<Rightarrow> string" where
  "ticket_id h run_id stage generation =
     ''tkt_'' @ take 32 (h (JDict [(''run'', JString run_id), (''stage'', JString stage), (''gen'', JNum (of_int generation))]))"

section \<open>Durable evidence\<close>

definition latest :: "('a \<Rightarrow> 'k::linorder) \<Rightarrow> 'a list \<Rightarrow> 'a option" where
  "latest f xs = (case xs of [] \<Rightarrow> None | x # rest \<Rightarrow> Some (py_max f x rest))"

definition stage_attempt_ok :: "db \<Rightarrow> string \<Rightarrow> string \<Rightarrow> bool" where
  "stage_attempt_ok db run_id stage =
     (case latest sa_started (filter (\<lambda>a. sa_run a = run_id \<and> sa_stage a = stage) (db_attempts db)) of
        Some a \<Rightarrow> sa_outcome a = ''ok'' \<or>
          list_ex (\<lambda>t. tk_run t = run_id \<and> tk_stage t = stage \<and> tk_status t = Done) (db_tickets db)
      | None \<Rightarrow> list_ex (\<lambda>t. tk_run t = run_id \<and> tk_stage t = stage \<and> tk_status t = Done) (db_tickets db))"

definition artifacts_present :: "db \<Rightarrow> string \<Rightarrow> string \<Rightarrow> string list \<Rightarrow> bool" where
  "artifacts_present db run_id stage keys =
     (if keys = [] then True
      else case latest af_id (filter (\<lambda>a. af_run a = run_id \<and> af_stage a = stage) (db_artifacts db)) of
        None \<Rightarrow> False
      | Some a \<Rightarrow> list_all (\<lambda>k. map_of (af_payload a) k \<noteq> None) keys)"

subsection \<open>The want-set\<close>

definition chunk_tier :: "string \<Rightarrow> chunk_row \<Rightarrow> bool" where
  "chunk_tier projection c = (if projection = ''qdrant'' then ck_tier c = ''child'' else True)"

definition has_receipt :: "db \<Rightarrow> string \<Rightarrow> chunk_row \<Rightarrow> bool" where
  "has_receipt db projection c = list_ex (\<lambda>p. pr_projection p = projection \<and> pr_kind p = ''chunk'' \<and> pr_active p \<and>
     pr_entity p = ck_id c) (db_receipts db)"

definition corpus_of_doc :: "db \<Rightarrow> string \<Rightarrow> string \<Rightarrow> bool" where
  "corpus_of_doc db doc corpus = list_ex (\<lambda>d. dc_id d = doc \<and> dc_corpus d = corpus) (db_docs db)"

definition run_corpus :: "db \<Rightarrow> string \<Rightarrow> string \<Rightarrow> bool" where
  "run_corpus db run_id corpus = list_ex (\<lambda>r. rn_id r = run_id \<and> rn_corpus r = corpus) (db_runs db)"

definition chunk_of_run :: "db \<Rightarrow> string \<Rightarrow> chunk_row \<Rightarrow> bool" where
  "chunk_of_run db run_id c =
     list_ex (\<lambda>d. dc_id d = ck_doc c \<and> run_corpus db run_id (dc_corpus d)) (db_docs db)"

definition desired_chunk_ids :: "db \<Rightarrow> string \<Rightarrow> string \<Rightarrow> string list" where
  "desired_chunk_ids db run_id projection =
     sort (map ck_id (filter (\<lambda>c. chunk_of_run db run_id c \<and> chunk_tier projection c) (db_chunks db)))"

definition missing_chunk_receipts_for_run :: "db \<Rightarrow> string \<Rightarrow> string \<Rightarrow> string list" where
  "missing_chunk_receipts_for_run db run_id projection =
     map ck_id (filter (\<lambda>c. chunk_of_run db run_id c \<and> chunk_tier projection c \<and> \<not> has_receipt db projection c) (db_chunks db))"

definition missing_chunk_receipts_for_docs :: "db \<Rightarrow> string list \<Rightarrow> string \<Rightarrow> string list" where
  "missing_chunk_receipts_for_docs db doc_ids projection =
     (if doc_ids = [] then []
      else map ck_id (filter (\<lambda>c. ck_doc c \<in> set doc_ids \<and> chunk_tier projection c \<and> \<not> has_receipt db projection c) (db_chunks db)))"

definition corpora_with_missing_chunk_receipts :: "db \<Rightarrow> string \<Rightarrow> string list" where
  "corpora_with_missing_chunk_receipts db projection =
     remdups (concat (map (\<lambda>c. map dc_corpus (filter (\<lambda>d. dc_id d = ck_doc c) (db_docs db)))
       (filter (\<lambda>c. \<not> has_receipt db projection c \<and> chunk_tier projection c) (db_chunks db))))"

subsection \<open>The verdict store\<close>

definition RECEIPT_TTL :: "receipt_state \<Rightarrow> rat" where
  "RECEIPT_TTL s = (case s of PRESENT \<Rightarrow> 90 | MISSING \<Rightarrow> 900)"

definition verdict_get :: "verdict_key \<Rightarrow> db \<Rightarrow> receipt_state option" where
  "verdict_get key db =
     (case map_of (db_verdicts db) key of
        None \<Rightarrow> None
      | Some (written_at, state) \<Rightarrow> if db_mono db - written_at < RECEIPT_TTL state then Some state else None)"

definition verdict_put :: "verdict_key \<Rightarrow> receipt_state \<Rightarrow> db \<Rightarrow> db" where
  "verdict_put key state db = db\<lparr>db_verdicts := dict_set key (db_mono db, state) (db_verdicts db)\<rparr>"

definition state_of :: "bool \<Rightarrow> receipt_state" where
  "state_of present = (if present then PRESENT else MISSING)"

datatype scope = Scope_Corpus | Scope_Run

definition CORPUS_STAGES :: "string list" where
  "CORPUS_STAGES = [''corpus_summary'', ''vocabulary'']"

definition receipt_scope_for :: "string \<Rightarrow> scope" where
  "receipt_scope_for stage = (if stage \<in> set CORPUS_STAGES then Scope_Corpus else Scope_Run)"

definition run_doc_ids :: "db \<Rightarrow> string \<Rightarrow> string list" where
  "run_doc_ids db run_id =
     sort (concat (map (\<lambda>r. map dc_id (filter (\<lambda>d. dc_corpus d = rn_corpus r \<and> Some (dc_source_name d) = rn_source_name r) (db_docs db)))
       (filter (\<lambda>r. rn_id r = run_id) (db_runs db))))"

text \<open>The corpus-wide query of \<open>_receipts_present\<close>: every chunk of the run's corpus, whatever its tier.\<close>

definition corpus_chunks_receipted :: "db \<Rightarrow> string \<Rightarrow> string \<Rightarrow> bool" where
  "corpus_chunks_receipted db run_id projection =
     list_all (\<lambda>c. chunk_of_run db run_id c \<longrightarrow> has_receipt db projection c) (db_chunks db)"

definition receipts_query :: "string \<Rightarrow> string \<Rightarrow> string list \<Rightarrow> db \<Rightarrow> bool \<times> db" where
  "receipts_query run_id projection doc_ids db =
     (let key = (if doc_ids \<noteq> [] then Run_Verdict run_id projection else Corpus_Verdict run_id projection);
          result = (if doc_ids \<noteq> [] then missing_chunk_receipts_for_docs db doc_ids projection = []
                    else corpus_chunks_receipted db run_id projection) in
      (result, verdict_put key (state_of result) db))"

definition receipts_present :: "string \<Rightarrow> string \<Rightarrow> scope \<Rightarrow> db \<Rightarrow> bool \<times> db" where
  "receipts_present run_id projection sc db =
     (let corpus_state = verdict_get (Corpus_Verdict run_id projection) db in
      if sc = Scope_Corpus \<or> corpus_state = Some PRESENT then
        (case corpus_state of
           Some s \<Rightarrow> (s = PRESENT, db)
         | None \<Rightarrow> receipts_query run_id projection [] db)
      else
        (case verdict_get (Run_Verdict run_id projection) db of
           Some s \<Rightarrow> (s = PRESENT, db)
         | None \<Rightarrow>
             let doc_ids = run_doc_ids db run_id in
             if doc_ids = [] \<and> corpus_state \<noteq> None then (corpus_state = Some PRESENT, db)
             else receipts_query run_id projection doc_ids db))"

section \<open>Emission: the only way work becomes claimable\<close>

definition set_status :: "string \<Rightarrow> ticket_status \<Rightarrow> db \<Rightarrow> db" where
  "set_status tid st db = db\<lparr>db_tickets := map (\<lambda>t. if tk_id t = tid then t\<lparr>tk_status := st\<rparr> else t) (db_tickets db)\<rparr>"

definition upsert_event :: "string \<Rightarrow> string \<Rightarrow> payload \<Rightarrow> string \<Rightarrow> db \<Rightarrow> db" where
  "upsert_event run_id event_type payload key db =
     (if list_ex (\<lambda>e. ob_key e = key) (db_outbox db)
      then db\<lparr>db_outbox := map (\<lambda>e. if ob_key e = key then e\<lparr>ob_delivered := None\<rparr> else e) (db_outbox db)\<rparr>
      else db\<lparr>db_outbox := db_outbox db @ [\<lparr>ob_id = db_next_event db, ob_run = run_id, ob_type = event_type,
                ob_payload = payload, ob_key = key, ob_delivered = None\<rparr>],
              db_next_event := db_next_event db + 1\<rparr>)"

definition emit_payload :: "db \<Rightarrow> string \<Rightarrow> string \<Rightarrow> string \<Rightarrow> payload" where
  "emit_payload db tid run_id event_type =
     (let rows = filter (\<lambda>e. ob_run e = run_id \<and> ob_type e = event_type) (db_outbox db);
          base = (case rows of
                    [] \<Rightarrow> [(''run_id'', JString run_id)]
                  | r # rs \<Rightarrow> let p = ob_payload (py_min ob_id r rs) in if p = [] then [(''run_id'', JString run_id)] else p) in
      dict_set ''ticket_id'' (JString tid) base)"

definition emit_ticket_event :: "hasher \<Rightarrow> string \<Rightarrow> string \<Rightarrow> string \<Rightarrow> db \<Rightarrow> db" where
  "emit_ticket_event h tid run_id stage db =
     (let event_type = fst (the (STAGE_SPEC stage));
          payload = emit_payload db tid run_id event_type;
          key = h (JDict [(''run'', JString run_id), (''type'', JString event_type), (''payload'', JDict payload)]) in
      set_status tid Ready (upsert_event run_id event_type payload key db))"

section \<open>The ticket chain of a run\<close>

definition insert_ticket :: "ticket \<Rightarrow> db \<Rightarrow> db" where
  "insert_ticket t db =
     (if list_ex (\<lambda>u. tk_run u = tk_run t \<and> tk_stage u = tk_stage t \<and> tk_generation u = tk_generation t) (db_tickets db)
      then db
      else db\<lparr>db_tickets := db_tickets db @ [t\<lparr>tk_seq := db_next_seq db\<rparr>], db_next_seq := db_next_seq db + 1\<rparr>)"

definition new_ticket :: "string \<Rightarrow> string \<Rightarrow> string \<Rightarrow> string \<Rightarrow> string \<Rightarrow> ticket_status \<Rightarrow> ticket" where
  "new_ticket tid run_id corpus_id stage event_type st =
     \<lparr>tk_id = tid, tk_seq = 0, tk_run = run_id, tk_corpus = corpus_id, tk_stage = stage, tk_generation = 1,
      tk_event_type = event_type, tk_status = st, tk_lease_owner = None, tk_lease_expires = None,
      tk_attempt = 0, tk_note = None, tk_archived = False\<rparr>"

definition birth_status :: "db \<Rightarrow> string \<Rightarrow> string \<Rightarrow> ticket_status" where
  "birth_status db run_id stage =
     (if stage = ''intake'' then Ready else if stage_attempt_ok db run_id stage then Done else Pending)"

definition ensure_one :: "hasher \<Rightarrow> string \<Rightarrow> string \<Rightarrow> string \<times> string \<Rightarrow> string list \<times> db \<Rightarrow> string list \<times> db" where
  "ensure_one h run_id corpus_id se acc =
     (let (stage, event_type) = se; (created, db) = acc; tid = ticket_id h run_id stage 1 in
      if list_ex (\<lambda>t. tk_id t = tid) (db_tickets db) then acc
      else
        let st = birth_status db run_id stage;
            db1 = insert_ticket (new_ticket tid run_id corpus_id stage event_type st) db in
        (created @ [tid],
         if stage = ''intake'' \<and> st = Ready then emit_ticket_event h tid run_id stage db1 else db1))"

definition set_contract :: "string \<Rightarrow> string \<Rightarrow> db \<Rightarrow> db" where
  "set_contract run_id contract db =
     db\<lparr>db_runs := map (\<lambda>r. if rn_id r = run_id then r\<lparr>rn_contract := Some contract\<rparr> else r) (db_runs db)\<rparr>"

definition ensure_run_tickets ::
  "hasher \<Rightarrow> string \<Rightarrow> string \<Rightarrow> string option \<Rightarrow> db \<Rightarrow> string list \<times> db" where
  "ensure_run_tickets h run_id corpus_id contract db =
     (let (created, db1) = fold (ensure_one h run_id corpus_id) (map (\<lambda>(s, e, a, r). (s, e)) STAGE_DAG) ([], db) in
      (created, case contract of Some (c # cs) \<Rightarrow> set_contract run_id (c # cs) db1 | _ \<Rightarrow> db1))"

section \<open>Advancement\<close>

fun check_receipts :: "scope \<Rightarrow> string \<Rightarrow> string list \<Rightarrow> db \<Rightarrow> bool \<times> db" where
  "check_receipts sc run_id [] db = (True, db)"
| "check_receipts sc run_id (p # ps) db =
     (let key = (if sc = Scope_Corpus then Corpus_Verdict run_id p else Run_Verdict run_id p) in
      case verdict_get key db of
        Some MISSING \<Rightarrow> (False, db)
      | Some PRESENT \<Rightarrow> check_receipts sc run_id ps db
      | None \<Rightarrow>
          let (present, db1) = receipts_present run_id p sc db; db2 = verdict_put key (state_of present) db1 in
          if \<not> present then (False, db2) else check_receipts sc run_id ps db2)"

fun check_predecessors :: "scope \<Rightarrow> string \<Rightarrow> string list \<Rightarrow> db \<Rightarrow> bool \<times> db" where
  "check_predecessors sc run_id [] db = (True, db)"
| "check_predecessors sc run_id (pr # prs) db =
     (let (evt, art, rc) = the (STAGE_SPEC pr) in
      if \<not> artifacts_present db run_id pr art then (False, db)
      else let (ok, db1) = check_receipts sc run_id rc db in
        if \<not> ok then (False, db1) else check_predecessors sc run_id prs db1)"

definition predecessors :: "string \<Rightarrow> string list" where
  "predecessors stage = take (index_of stage DAG_ORDER) DAG_ORDER"

definition try_advance_one :: "hasher \<Rightarrow> string \<Rightarrow> string \<Rightarrow> string \<Rightarrow> db \<Rightarrow> bool \<times> db" where
  "try_advance_one h tid run_id stage db =
     (if STAGE_SPEC stage = None then (False, db)
      else if \<not> list_all (stage_attempt_ok db run_id) (predecessors stage) then (False, db)
      else let (ok, db1) = check_predecessors (receipt_scope_for stage) run_id (predecessors stage) db in
        if \<not> ok then (False, db1) else (True, emit_ticket_event h tid run_id stage db1))"

subsection \<open>Keyset pages\<close>

definition cursor :: "string \<Rightarrow> string \<Rightarrow> db \<Rightarrow> nat" where
  "cursor stage corpus_id db = (case map_of (db_cursors db) (stage, corpus_id) of None \<Rightarrow> 0 | Some n \<Rightarrow> n)"

definition set_cursor :: "string \<Rightarrow> string \<Rightarrow> nat \<Rightarrow> db \<Rightarrow> db" where
  "set_cursor stage corpus_id n db = db\<lparr>db_cursors := dict_set (stage, corpus_id) n (db_cursors db)\<rparr>"

definition reset_cursor :: "string \<Rightarrow> string \<Rightarrow> db \<Rightarrow> db" where
  "reset_cursor stage corpus_id db =
     (if map_of (db_cursors db) (stage, corpus_id) = None then db else set_cursor stage corpus_id 0 db)"

definition page_rows :: "(ticket \<Rightarrow> bool) \<Rightarrow> nat \<Rightarrow> nat \<Rightarrow> db \<Rightarrow> ticket list" where
  "page_rows sel after limit db =
     take limit (sort_key tk_seq (filter (\<lambda>t. sel t \<and> tk_status t = Pending \<and> after < tk_seq t) (db_tickets db)))"

definition keyset_page :: "(ticket \<Rightarrow> bool) \<Rightarrow> string \<Rightarrow> string \<Rightarrow> nat \<Rightarrow> db \<Rightarrow> ticket list \<times> db" where
  "keyset_page sel stage corpus_id limit db =
     (let after = cursor stage corpus_id db; rows = page_rows sel after limit db in
      if rows = [] \<and> after \<noteq> 0 then ([], reset_cursor stage corpus_id db)
      else (rows, set_cursor stage corpus_id (if rows = [] then after else tk_seq (last rows)) db))"

definition eligible_all_stages :: "string \<Rightarrow> nat \<Rightarrow> db \<Rightarrow> ticket list \<times> db" where
  "eligible_all_stages corpus_id limit db = keyset_page (\<lambda>t. tk_corpus t = corpus_id) ''__all__'' corpus_id limit db"

definition eligible_page :: "string \<Rightarrow> string \<Rightarrow> nat \<Rightarrow> db \<Rightarrow> (ticket list \<times> nat) \<times> db" where
  "eligible_page stage corpus_id limit db =
     (let (rows, db') = keyset_page (\<lambda>t. tk_stage t = stage \<and> tk_corpus t = corpus_id) stage corpus_id limit db in
      ((rows, cursor stage corpus_id db'), db'))"


subsection \<open>One pass over a corpus\<close>

definition ADVANCE_PAGE :: nat where "ADVANCE_PAGE = 256"

definition seed_verdict :: "string \<Rightarrow> receipt_state \<Rightarrow> string \<Rightarrow> db \<Rightarrow> db" where
  "seed_verdict projection state run_id db =
     (if verdict_get (Corpus_Verdict run_id projection) db \<noteq> Some state
      then verdict_put (Corpus_Verdict run_id projection) state db else db)"

definition pending_runs :: "string \<Rightarrow> db \<Rightarrow> string list" where
  "pending_runs corpus_id db =
     remdups (map tk_run (filter (\<lambda>t. tk_corpus t = corpus_id \<and> tk_status t = Pending) (db_tickets db)))"

definition PROJECTIONS :: "string list" where "PROJECTIONS = [''qdrant'', ''neo4j'']"

definition missing_by_projection :: "db \<Rightarrow> (string, string list) dict" where
  "missing_by_projection db = map (\<lambda>p. (p, corpora_with_missing_chunk_receipts db p)) PROJECTIONS"

definition corpus_missing :: "(string, string list) dict \<Rightarrow> string \<Rightarrow> string \<Rightarrow> bool" where
  "corpus_missing missing projection corpus_id = (corpus_id \<in> set (the (map_of missing projection)))"

definition seed_verdicts :: "string \<Rightarrow> (string, string list) dict \<Rightarrow> db \<Rightarrow> db" where
  "seed_verdicts corpus_id missing db =
     (let runs = pending_runs corpus_id db in
      fold (\<lambda>p. fold (seed_verdict p (state_of (\<not> corpus_missing missing p corpus_id))) runs) PROJECTIONS db)"

fun try_page :: "hasher \<Rightarrow> ticket list \<Rightarrow> db \<Rightarrow> nat \<times> db" where
  "try_page h [] db = (0, db)"
| "try_page h (t # ts) db =
     (let (ok, db1) = try_advance_one h (tk_id t) (tk_run t) (tk_stage t) db; (n, db2) = try_page h ts db1 in
      ((if ok then 1 else 0) + n, db2))"

text \<open>
  The frame of advancement: it changes ticket statuses, the outbox and verdicts only. In
  particular the sequence numbers are unchanged, so the page loop walks forward and ends.
\<close>

lemma db_frame_ops [simp]:
  "map tk_seq (db_tickets (set_status tid st db)) = map tk_seq (db_tickets db)"
  "db_cursors (set_status tid st db) = db_cursors db"
  "db_tickets (upsert_event r e p k db) = db_tickets db" "db_cursors (upsert_event r e p k db) = db_cursors db"
  "db_tickets (verdict_put vk s db) = db_tickets db" "db_cursors (verdict_put vk s db) = db_cursors db"
  "db_tickets (set_cursor a b n db) = db_tickets db" "db_tickets (reset_cursor a b db) = db_tickets db"
  by (auto simp: set_status_def upsert_event_def verdict_put_def set_cursor_def reset_cursor_def)

lemma emit_frame [simp]:
  "map tk_seq (db_tickets (emit_ticket_event h tid r s db)) = map tk_seq (db_tickets db)"
  "db_cursors (emit_ticket_event h tid r s db) = db_cursors db"
  by (simp_all add: emit_ticket_event_def Let_def)

lemma receipts_present_frame:
  "db_tickets (snd (receipts_present r p sc db)) = db_tickets db \<and> db_cursors (snd (receipts_present r p sc db)) = db_cursors db"
  by (auto simp: receipts_present_def receipts_query_def Let_def split: option.splits)

lemma check_receipts_frame:
  "db_tickets (snd (check_receipts sc r ps db)) = db_tickets db \<and> db_cursors (snd (check_receipts sc r ps db)) = db_cursors db"
proof (induction sc r ps db rule: check_receipts.induct)
  case (2 sc r p ps db)
  obtain pre db1 where q: "receipts_present r p sc db = (pre, db1)" by (cases "receipts_present r p sc db")
  have f: "db_tickets db1 = db_tickets db" "db_cursors db1 = db_cursors db"
    using receipts_present_frame [of r p sc db] q by simp_all
  show ?case using 2 q f by (auto simp: Let_def split: option.splits receipt_state.splits)
qed simp

lemma check_predecessors_frame:
  "db_tickets (snd (check_predecessors sc r prs db)) = db_tickets db \<and>
   db_cursors (snd (check_predecessors sc r prs db)) = db_cursors db"
proof (induction sc r prs db rule: check_predecessors.induct)
  case (2 sc r pr prs db)
  obtain e a rc where s: "the (STAGE_SPEC pr) = (e, a, rc)" by (cases "the (STAGE_SPEC pr)")
  obtain ok db1 where c: "check_receipts sc r rc db = (ok, db1)" by (cases "check_receipts sc r rc db")
  have "db_tickets db1 = db_tickets db" "db_cursors db1 = db_cursors db"
    using check_receipts_frame [of sc r rc db] c by simp_all
  then show ?case using 2 s c by simp
qed simp

lemma try_advance_frame:
  "map tk_seq (db_tickets (snd (try_advance_one h tid r s db))) = map tk_seq (db_tickets db) \<and>
   db_cursors (snd (try_advance_one h tid r s db)) = db_cursors db"
proof -
  obtain ok db1 where c: "check_predecessors (receipt_scope_for s) r (predecessors s) db = (ok, db1)"
    by (cases "check_predecessors (receipt_scope_for s) r (predecessors s) db")
  then show ?thesis
    using check_predecessors_frame [of "receipt_scope_for s" r "predecessors s" db] by (simp add: try_advance_one_def)
qed

lemma try_page_frame:
  "map tk_seq (db_tickets (snd (try_page h ts db))) = map tk_seq (db_tickets db) \<and>
   db_cursors (snd (try_page h ts db)) = db_cursors db"
proof (induction h ts db rule: try_page.induct)
  case (2 h t ts db)
  obtain ok db1 where c: "try_advance_one h (tk_id t) (tk_run t) (tk_stage t) db = (ok, db1)"
    by (cases "try_advance_one h (tk_id t) (tk_run t) (tk_stage t) db")
  then show ?case using 2 try_advance_frame [of h "tk_id t" "tk_run t" "tk_stage t" db] by (simp add: case_prod_beta)
qed simp

lemma page_rows_in:
  "t \<in> set (page_rows sel after limit db) \<Longrightarrow>
   t \<in> set (db_tickets db) \<and> sel t \<and> tk_status t = Pending \<and> after < tk_seq t"
  unfolding page_rows_def by (drule in_set_takeD) auto

definition seqs_above :: "nat \<Rightarrow> db \<Rightarrow> nat" where
  "seqs_above n db = length (filter (\<lambda>s. n < s) (map tk_seq (db_tickets db)))"

lemma filter_length_less:
  assumes "\<And>x. Q x \<Longrightarrow> P x" "y \<in> set xs" "P y" "\<not> Q y"
  shows "length (filter Q xs) < length (filter P xs)"
  using assms(2)
proof (induction xs)
  case (Cons x xs)
  have "length (filter Q xs) \<le> length (filter P xs)" using assms(1) by (induction xs) auto
  then show ?case using Cons assms by (cases "x = y") auto
qed simp

lemma page_progress:
  assumes "eligible_all_stages corpus_id limit db = (rows, db1)" "rows \<noteq> []"
  shows "seqs_above (cursor ''__all__'' corpus_id (snd (try_page h rows db1))) (snd (try_page h rows db1)) <
         seqs_above (cursor ''__all__'' corpus_id db) db"
proof -
  let ?after = "cursor ''__all__'' corpus_id db" and ?db2 = "snd (try_page h rows db1)"
  have r: "rows = page_rows (\<lambda>t. tk_corpus t = corpus_id) ?after limit db"
    and d: "db1 = set_cursor ''__all__'' corpus_id (tk_seq (last rows)) db"
    using assms by (auto simp: eligible_all_stages_def keyset_page_def Let_def split: if_splits)
  have l: "last rows \<in> set (db_tickets db)" "?after < tk_seq (last rows)"
    using page_rows_in [of "last rows" "\<lambda>t. tk_corpus t = corpus_id" ?after limit db] last_in_set [OF assms(2)]
    unfolding r by blast+
  have c: "cursor ''__all__'' corpus_id ?db2 = tk_seq (last rows)"
    using try_page_frame [of h rows db1] d by (simp add: cursor_def set_cursor_def)
  have s: "map tk_seq (db_tickets ?db2) = map tk_seq (db_tickets db)" using try_page_frame [of h rows db1] d by simp
  have "tk_seq (last rows) \<in> set (map tk_seq (db_tickets db))" using l(1) by simp
  then show ?thesis unfolding seqs_above_def c s using l(2) by (intro filter_length_less) auto
qed

function advance_loop :: "hasher \<Rightarrow> string \<Rightarrow> nat \<Rightarrow> db \<Rightarrow> nat \<times> db" where
  "advance_loop h corpus_id n db =
     (let (rows, db1) = eligible_all_stages corpus_id ADVANCE_PAGE db in
      if rows = [] then (n, db1)
      else let (k, db2) = try_page h rows db1 in advance_loop h corpus_id (n + k) db2)"
  by pat_completeness auto
termination
proof (relation "measure (\<lambda>(h, corpus_id, n, db). seqs_above (cursor ''__all__'' corpus_id db) db)")
  fix h corpus_id n db x rows db1 y k db2
  assume a: "x = eligible_all_stages corpus_id ADVANCE_PAGE db" "(rows, db1) = x" "rows \<noteq> []"
    "y = try_page h rows db1" "(k, db2) = y"
  have e: "eligible_all_stages corpus_id ADVANCE_PAGE db = (rows, db1)" using a(1,2) by simp
  have d: "snd (try_page h rows db1) = db2" using a(4,5) by (simp add: prod_eq_iff)
  have "seqs_above (cursor ''__all__'' corpus_id db2) db2 < seqs_above (cursor ''__all__'' corpus_id db) db"
    using page_progress [OF e a(3), of h] unfolding d .
  then show "((h, corpus_id, n + k, db2), h, corpus_id, n, db) \<in>
      measure (\<lambda>(h, corpus_id, n, db). seqs_above (cursor ''__all__'' corpus_id db) db)" by simp
qed simp

declare advance_loop.simps [simp del]

definition advance_pending_corpus ::
  "hasher \<Rightarrow> string \<Rightarrow> (string, string list) dict option \<Rightarrow> db \<Rightarrow> nat \<times> db" where
  "advance_pending_corpus h corpus_id missing db =
     (if pending_runs corpus_id db = [] then (0, db)
      else let m = (case missing of None \<Rightarrow> missing_by_projection db | Some m \<Rightarrow> m) in
        advance_loop h corpus_id 0 (seed_verdicts corpus_id m db))"


subsection \<open>Expired leases\<close>

definition lease_expired :: "db \<Rightarrow> ticket \<Rightarrow> bool" where
  "lease_expired db t = (tk_status t = Leased \<and> (case tk_lease_expires t of None \<Rightarrow> False | Some x \<Rightarrow> x < db_now db))"

definition owner_stale :: "db \<Rightarrow> ticket \<Rightarrow> bool" where
  "owner_stale db t =
     (case tk_lease_owner t of
        None \<Rightarrow> True
      | Some ow \<Rightarrow> (case find (\<lambda>w. wk_id w = ow) (db_workers db) of
            None \<Rightarrow> True | Some w \<Rightarrow> wk_heartbeat w < db_now db - 90))"

definition release_ticket :: "db \<Rightarrow> ticket \<Rightarrow> ticket" where
  "release_ticket db t =
     (if lease_expired db t then
        t\<lparr>tk_status := Ready, tk_lease_owner := None, tk_lease_expires := None,
          tk_attempt := tk_attempt t + (if owner_stale db t then 1 else 0),
          tk_note := Some (if owner_stale db t then ''lease expired: executing worker gone''
                           else ''lease_expired_while_owner_alive (no retry consumed)'')\<rparr>
      else t)"

definition quarantine :: "string \<Rightarrow> db \<Rightarrow> db" where
  "quarantine owner db = db\<lparr>db_workers := map (\<lambda>w. if wk_id w = owner
     then w\<lparr>wk_status := ''quarantined'', wk_last_error := Some ''lease expired without completion''\<rparr> else w) (db_workers db)\<rparr>"

definition quarantine_row :: "string option \<times> bool \<Rightarrow> db \<Rightarrow> db" where
  "quarantine_row row db =
     (case fst row of Some (c # cs) \<Rightarrow> if snd row then quarantine (c # cs) db else db | _ \<Rightarrow> db)"

definition release_expired_leases :: "db \<Rightarrow> nat \<times> db" where
  "release_expired_leases db =
     (let rows = map (\<lambda>t. (tk_lease_owner t, owner_stale db t)) (filter (lease_expired db) (db_tickets db));
          db1 = db\<lparr>db_tickets := map (release_ticket db) (db_tickets db)\<rparr> in
      (length rows, fold quarantine_row rows db1))"

subsection \<open>A tick of advancement\<close>

definition ready_without_event :: "db \<Rightarrow> ticket \<Rightarrow> bool" where
  "ready_without_event db t =
     (tk_status t = Ready \<and> \<not> list_ex (\<lambda>e. ob_run e = tk_run t \<and> ob_type e = tk_event_type t \<and> ob_delivered e = None \<and>
        map_of (ob_payload e) ''ticket_id'' = Some (JString (tk_id t))) (db_outbox db))"

definition ready_backfill_one :: "hasher \<Rightarrow> ticket \<Rightarrow> nat \<times> db \<Rightarrow> nat \<times> db" where
  "ready_backfill_one h t acc =
     (if STAGE_SPEC (tk_stage t) = None then acc
      else (fst acc + 1, set_cursor ''__ready__'' (tk_stage t) (tk_seq t)
             (emit_ticket_event h (tk_id t) (tk_run t) (tk_stage t) (snd acc))))"

definition ready_backfill :: "hasher \<Rightarrow> db \<Rightarrow> nat \<times> db" where
  "ready_backfill h db =
     fold (ready_backfill_one h) (take 256 (sort_key tk_seq (filter (ready_without_event db) (db_tickets db)))) (0, db)"

definition advance_tickets :: "hasher \<Rightarrow> db \<Rightarrow> nat \<times> db" where
  "advance_tickets h db =
     (let corpora = sort (remdups (map tk_corpus (filter (\<lambda>t. tk_status t = Pending) (db_tickets db))));
          missing = (if corpora = [] then [] else missing_by_projection db);
          (n1, db1) = fold (\<lambda>c (n, d). let (k, d') = advance_pending_corpus h c (Some missing) d in (n + k, d')) corpora (0, db);
          (n2, db2) = ready_backfill h db1 in
      (n1 + n2, snd (release_expired_leases db2)))"

section \<open>The generation barrier\<close>

definition open_status :: "ticket_status \<Rightarrow> bool" where
  "open_status s = (s \<in> {Pending, Ready, Leased})"

record barrier =
  ba_open_tickets :: nat
  ba_open_by_status :: "((string \<times> ticket_status) \<times> nat) list"
  ba_incomplete :: nat
  ba_passed :: bool

definition blocking_open :: "string \<Rightarrow> db \<Rightarrow> ticket list" where
  "blocking_open corpus_id db = filter (\<lambda>t. tk_corpus t = corpus_id \<and> open_status (tk_status t) \<and> \<not> tk_archived t \<and>
     is_blocking (tk_stage t)) (db_tickets db)"

definition generation_barrier :: "string \<Rightarrow> (string, string list) dict \<Rightarrow> db \<Rightarrow> barrier" where
  "generation_barrier corpus_id missing db =
     (let m = (if missing = [] then missing_by_projection db else missing);
          rows = map (\<lambda>t. (tk_stage t, tk_status t)) (blocking_open corpus_id db);
          pending = map (\<lambda>g. (g, length (filter (\<lambda>x. x = g) rows))) (remdups rows);
          runs = length (filter (\<lambda>r. rn_corpus r = corpus_id) (db_runs db));
          incomplete = sum_list (map (\<lambda>p. if corpus_missing m p corpus_id then runs else 0) PROJECTIONS) in
      \<lparr>ba_open_tickets = sum_list (map snd pending), ba_open_by_status = pending, ba_incomplete = incomplete,
       ba_passed = (pending = [] \<and> incomplete = 0)\<rparr>)"

section \<open>Backpressure and fair creation\<close>

definition GLOBAL_EXTRACT_LIMIT :: nat where "GLOBAL_EXTRACT_LIMIT = 256"
definition CORPUS_EXTRACT_WATERMARK :: nat where "CORPUS_EXTRACT_WATERMARK = 64"

definition extract_active_count :: "db \<Rightarrow> nat" where
  "extract_active_count db = length (filter (\<lambda>t. tk_stage t = ''extract'' \<and> open_status (tk_status t)) (db_tickets db))"

definition corpus_extract_count :: "string \<Rightarrow> db \<Rightarrow> nat" where
  "corpus_extract_count corpus_id db =
     length (filter (\<lambda>t. tk_corpus t = corpus_id \<and> tk_stage t = ''extract'' \<and> open_status (tk_status t)) (db_tickets db))"

definition backpressure_decision :: "db \<Rightarrow> string \<Rightarrow> bool \<times> string" where
  "backpressure_decision db corpus_id =
     (if GLOBAL_EXTRACT_LIMIT \<le> extract_active_count db then (True, ''global_ceiling'')
      else if CORPUS_EXTRACT_WATERMARK \<le> corpus_extract_count corpus_id db then (True, ''corpus_watermark'')
      else (False, []))"

definition backpressure_paused :: "db \<Rightarrow> bool" where
  "backpressure_paused db = (GLOBAL_EXTRACT_LIMIT \<le> extract_active_count db)"

definition needs_service :: "db \<Rightarrow> run_row \<Rightarrow> bool" where
  "needs_service db r = (rn_status r \<in> {''intake'', ''reconciling'', ''degraded''} \<and> rn_corpus r \<in> set (db_corpora db) \<and>
     \<not> list_ex (\<lambda>t. tk_run t = rn_id r) (db_tickets db))"

definition active_corpora :: "db \<Rightarrow> (string, nat) dict" where
  "active_corpora db =
     (let cs = remdups (map tk_corpus (filter (\<lambda>t. tk_stage t = ''extract'' \<and> open_status (tk_status t)) (db_tickets db)));
          extra = filter (\<lambda>c. c \<notin> set cs) (remdups (map rn_corpus (filter (needs_service db) (db_runs db)))) in
      map (\<lambda>c. (c, corpus_extract_count c db)) cs @ map (\<lambda>c. (c, 0)) extra)"

definition gate :: "nat \<Rightarrow> bool \<Rightarrow> nat \<Rightarrow> bool" where
  "gate wm was_paused n =
     (if \<not> was_paused \<and> wm \<le> n then True
      else if was_paused \<and> n \<le> wm div 2 then False
      else was_paused)"

definition refresh_one :: "nat \<Rightarrow> string \<times> nat \<Rightarrow> (string, bool) dict \<times> db \<Rightarrow> (string, bool) dict \<times> db" where
  "refresh_one wm cn acc =
     (let (corpus_id, n) = cn; (changed, db) = acc;
          row = map_of (db_runtime db) corpus_id;
          was_paused = (case row of None \<Rightarrow> False | Some r \<Rightarrow> rt_paused r);
          eff_wm = (case row of None \<Rightarrow> wm | Some r \<Rightarrow> (case rt_watermark r of None \<Rightarrow> wm | Some w \<Rightarrow> if w = 0 then wm else w));
          paused = gate eff_wm was_paused n;
          row' = \<lparr>rt_active = n, rt_watermark = Some eff_wm, rt_paused = paused,
                  rt_last_tick = (case row of None \<Rightarrow> None | Some r \<Rightarrow> rt_last_tick r)\<rparr> in
      (if paused \<noteq> was_paused then dict_set corpus_id paused changed else changed,
       db\<lparr>db_runtime := dict_set corpus_id row' (db_runtime db)\<rparr>))"

definition refresh_corpus_runtime_state ::
  "nat option \<Rightarrow> db \<Rightarrow> ((string, nat) dict \<times> (string, bool) dict) \<times> db" where
  "refresh_corpus_runtime_state watermark db =
     (let wm = (case watermark of None \<Rightarrow> CORPUS_EXTRACT_WATERMARK | Some w \<Rightarrow> if w = 0 then CORPUS_EXTRACT_WATERMARK else w);
          active = active_corpora db;
          (changed, db1) = fold (refresh_one wm) active ([], db) in
      ((active, changed), db1))"

definition creation_rank :: "string \<times> runtime_row \<Rightarrow> (nat \<times> rat) \<times> string" where
  "creation_rank cr = (case rt_last_tick (snd cr) of None \<Rightarrow> ((0, 0), fst cr) | Some t \<Rightarrow> ((1, t), fst cr))"

definition eligible_creation_corpora :: "nat \<Rightarrow> db \<Rightarrow> string list" where
  "eligible_creation_corpora window db =
     map fst (take window (sort_key creation_rank
       (filter (\<lambda>(c, r). \<not> rt_paused r \<and> c \<notin> set (db_archived_corpora db)) (db_runtime db))))"

definition mark_served :: "string \<Rightarrow> db \<Rightarrow> db" where
  "mark_served corpus_id db = db\<lparr>db_runtime := map (\<lambda>(c, r). (c, if c = corpus_id then r\<lparr>rt_last_tick := Some (db_now db)\<rparr> else r)) (db_runtime db)\<rparr>"

definition serve_corpus :: "hasher \<Rightarrow> string \<Rightarrow> nat \<Rightarrow> string \<Rightarrow> nat \<times> db \<Rightarrow> nat \<times> db" where
  "serve_corpus h contract per corpus_id acc =
     (let (ensured, db) = acc; db1 = mark_served corpus_id db;
          runs = take per (sort_key rn_created (filter (\<lambda>r. rn_corpus r = corpus_id \<and> needs_service db1 r) (db_runs db1))) in
      fold (\<lambda>r (n, d). let (created, d') = ensure_run_tickets h (rn_id r) corpus_id (Some contract) d in (n + length created, d'))
        runs (ensured, db1))"

definition fair_ensure_tickets_backpressure_gated :: "hasher \<Rightarrow> string \<Rightarrow> nat \<Rightarrow> db \<Rightarrow> nat \<times> db" where
  "fair_ensure_tickets_backpressure_gated h contract window db =
     (let db1 = snd (refresh_corpus_runtime_state (Some CORPUS_EXTRACT_WATERMARK) db);
          eligible = eligible_creation_corpora window db1;
          per = max 1 (window div max (length eligible) 1) in
      fold (serve_corpus h contract per) eligible (0, db1))"

end
