(* ===== verification/Adapter_Manifest.thy ===== *)
theory Adapter_Manifest
  imports Py_Json
begin

text \<open>
  The manifests of the cognitive adapter (\<^verbatim>\<open>adapter/manifest.py\<close>, with the closed vocabulary of
  \<^verbatim>\<open>adapter/contracts.py\<close>): the step graph, its integrity check with the worklist search for the
  terminal step, and loading. A step definition has the fields the manifest schema declares; an
  optional field that is absent is \<open>None\<close>. Schema validation (the \<open>jsonschema\<close> package) is a
  parameter; error messages are constructors that carry the values the messages print.
\<close>

section \<open>Vocabulary\<close>

definition STEP_TYPES :: "string list" where
  "STEP_TYPES = [''POLYMATH_RETRIEVE'', ''POLYMATH_COMPILE_PLAN'', ''POLYMATH_GRAPH_EXPAND'', ''EXTERNAL_OPERATION'',
     ''AGENT_REASON'', ''HARNESS_ACTION'', ''VALIDATE'', ''BRANCH'', ''COMPILE_RESULT'']"

definition AGENT_ANSWERED_STEP_TYPES :: "string list" where
  "AGENT_ANSWERED_STEP_TYPES = [''AGENT_REASON'', ''HARNESS_ACTION'']"

definition AUTOMATIC_STEP_TYPES :: "string list" where
  "AUTOMATIC_STEP_TYPES = filter (\<lambda>t. t \<notin> set AGENT_ANSWERED_STEP_TYPES) STEP_TYPES"

definition PRIOR_EVIDENCE_KINDS :: "string list" where
  "PRIOR_EVIDENCE_KINDS = [''trail_prior'']"

definition CITABLE_EVIDENCE_KINDS :: "string list" where
  "CITABLE_EVIDENCE_KINDS = [''chunk'', ''document'', ''graph_fact'', ''graph_hop'', ''parent_map'', ''field_evidence'']"

section \<open>Manifests\<close>

datatype pred = Exists string | Equals string json | Count_Gte string int | Count_Lt string int
  | All_Of "pred list" | Any_Of "pred list" | Unknown_Op

record branch =
  br_when :: pred
  br_next :: string

record external_def =
  ex_system :: string
  ex_operation_kind :: string
  ex_availability :: "string option"
  ex_planned_node :: "string option"

record step_def =
  sp_id :: string
  sp_type :: string
  sp_title :: string
  sp_objective :: "string option"
  sp_next :: "string option"
  sp_output_schema :: "json option"
  sp_acceptance_rules :: "string list"
  sp_constraints :: "string list"
  sp_branches :: "branch list"
  sp_external :: "external_def option"
  sp_cognitive_op :: "string option"
  sp_theta_op :: "string option"
  sp_harness :: "string option option"
  sp_harness_block :: "(string, json) dict"
  sp_include :: "string list"

record budget_def =
  bg_max_steps :: int
  bg_max_agent_reason :: int
  bg_max_branch_loops :: int
  bg_max_external_operations :: "int option"
  bg_max_harness_actions :: "int option"
  bg_max_hypotheses :: "int option"

record manifest_identity =
  mi_adapter_id :: string
  mi_adapter_version :: string
  mi_workflow_version :: string
  mi_retrieval_policy_version :: string
  mi_input_schema_version :: string
  mi_output_schema_version :: string

record raw_manifest =
  rm_identity :: manifest_identity
  rm_budgets :: budget_def
  rm_entry :: string
  rm_terminal :: string
  rm_steps :: "step_def list"
  rm_input_schema :: "json option"

record manifest =
  mf_identity :: manifest_identity
  mf_entry :: string
  mf_terminal :: string
  mf_budgets :: budget_def
  mf_steps :: "(string, step_def) dict"
  mf_raw :: raw_manifest

datatype manifest_problem = Schema_Problem string | Duplicate_Step | Entry_Unknown string | Terminal_Unknown string
  | Terminal_Not_Compile | Unknown_Type string string | Compile_Has_Successor string | Next_Unknown string "string option"
  | Branch_Unknown string string | Agent_Needs string | External_System string | Planned_Needs_Node string
  | Branch_Needs string | Harness_Needs string | Harness_Misplaced string | Theta_Misplaced string
  | Branch_To_Harness string string | Terminal_Unreachable

datatype manifest_error = Unknown_Step string string | Bad_Manifest string "manifest_problem list"
  | Duplicate_Adapters "string list"

definition mf_adapter_id :: "manifest \<Rightarrow> string" where
  "mf_adapter_id m = mi_adapter_id (mf_identity m)"

definition step :: "manifest \<Rightarrow> string \<Rightarrow> manifest_error + step_def" where
  "step m sid = (case map_of (mf_steps m) sid of Some s \<Rightarrow> Inr s | None \<Rightarrow> Inl (Unknown_Step (mf_adapter_id m) sid))"

definition steps_by_id :: "step_def list \<Rightarrow> (string, step_def) dict" where
  "steps_by_id steps = fold (\<lambda>s. dict_set (sp_id s) s) steps []"

section \<open>The search for the terminal step\<close>

definition successors :: "step_def \<Rightarrow> string list" where
  "successors s = filter (\<lambda>x. x \<noteq> []) ((case sp_next s of None \<Rightarrow> [] | Some n \<Rightarrow> [n]) @ map br_next (sp_branches s))"

text \<open>
  The worklist is a stack: \<open>todo.pop()\<close> takes its last element, successors are pushed at the
  end. Ids already seen or not in the table are dropped.
\<close>

definition unseen :: "(string, step_def) dict \<Rightarrow> string list \<Rightarrow> string set" where
  "unseen by_id seen = fst ` set by_id - set seen"

lemma map_of_key: "map_of d k = Some v \<Longrightarrow> k \<in> fst ` set d"
  by (metis domI dom_map_of_conv_image_fst)

function visit :: "(string, step_def) dict \<Rightarrow> string list \<Rightarrow> string list \<Rightarrow> string list" where
  "visit by_id todo seen =
     (if todo = [] then seen
      else
        let cur = last todo; rest = butlast todo in
        if cur \<in> set seen then visit by_id rest seen
        else case map_of by_id cur of
          None \<Rightarrow> visit by_id rest seen
        | Some s \<Rightarrow> visit by_id (rest @ successors s) (cur # seen))"
  by pat_completeness auto
termination
proof (relation "measures [\<lambda>(by_id, todo, seen). card (unseen by_id seen), \<lambda>(by_id, todo, seen). length todo]")
  fix by_id :: "(string, step_def) dict" and todo seen cur rest s
  assume "cur = last todo" "rest = butlast todo" "cur \<notin> set seen" "map_of by_id cur = Some s"
  then have "unseen by_id (cur # seen) \<subset> unseen by_id seen"
    using map_of_key [of by_id cur s] by (auto simp: unseen_def)
  then have "card (unseen by_id (cur # seen)) < card (unseen by_id seen)"
    by (rule psubset_card_mono [rotated]) (simp add: unseen_def)
  then show "((by_id, rest @ successors s, cur # seen), by_id, todo, seen) \<in>
      measures [\<lambda>(by_id, todo, seen). card (unseen by_id seen), \<lambda>(by_id, todo, seen). length todo]" by simp
qed simp_all

declare visit.simps [simp del]

section \<open>Integrity\<close>

definition step_problems :: "(string, step_def) dict \<Rightarrow> step_def \<Rightarrow> manifest_problem list" where
  "step_problems by_id s =
     (let sid = sp_id s; typ = sp_type s; known = (\<lambda>x. map_of by_id x \<noteq> None) in
      (if typ \<notin> set STEP_TYPES then [Unknown_Type sid typ] else []) @
      (if typ = ''COMPILE_RESULT''
       then (if sp_next s \<noteq> None then [Compile_Has_Successor sid] else [])
       else (if (case sp_next s of None \<Rightarrow> False | Some n \<Rightarrow> known n) then [] else [Next_Unknown sid (sp_next s)])) @
      map (\<lambda>b. Branch_Unknown sid (br_next b)) (filter (\<lambda>b. \<not> known (br_next b)) (sp_branches s)) @
      (if typ = ''AGENT_REASON'' \<and> \<not> (some_str (sp_objective s) \<and>
          (case sp_output_schema s of None \<Rightarrow> False | Some j \<Rightarrow> truthy j)) then [Agent_Needs sid] else []) @
      (if typ = ''EXTERNAL_OPERATION''
       then (if map_option ex_system (sp_external s) \<noteq> Some ''trailsignal'' then [External_System sid] else []) @
            (case sp_external s of None \<Rightarrow> [] | Some e \<Rightarrow>
              if ex_availability e = Some ''planned'' \<and> \<not> some_str (ex_planned_node e) then [Planned_Needs_Node sid] else [])
       else []) @
      (if typ = ''BRANCH'' \<and> sp_branches s = [] \<and> \<not> some_str (sp_next s) then [Branch_Needs sid] else []) @
      (if typ = ''HARNESS_ACTION''
       then (if \<not> ((case sp_harness s of None \<Rightarrow> False | Some a \<Rightarrow> some_str a) \<and> some_str (sp_objective s))
             then [Harness_Needs sid] else [])
       else (if sp_harness s \<noteq> None then [Harness_Misplaced sid] else [])) @
      (if sp_theta_op s \<noteq> None \<and> typ \<noteq> ''AGENT_REASON'' then [Theta_Misplaced sid] else []) @
      (if typ = ''BRANCH''
       then map (\<lambda>b. Branch_To_Harness sid (br_next b))
              (filter (\<lambda>b. map_option sp_type (map_of by_id (br_next b)) = Some ''HARNESS_ACTION'') (sp_branches s))
       else []))"

definition graph_integrity_errors :: "raw_manifest \<Rightarrow> manifest_problem list" where
  "graph_integrity_errors raw =
     (let steps = rm_steps raw; ids = map sp_id steps; by_id = steps_by_id steps;
          entry = rm_entry raw; terminal = rm_terminal raw in
      (if card (set ids) \<noteq> length ids then [Duplicate_Step] else []) @
      (if map_of by_id entry = None then [Entry_Unknown entry] else []) @
      (case map_of by_id terminal of
         None \<Rightarrow> [Terminal_Unknown terminal]
       | Some t \<Rightarrow> if sp_type t \<noteq> ''COMPILE_RESULT'' then [Terminal_Not_Compile] else []) @
      concat (map (step_problems by_id) steps) @
      (if map_of by_id entry \<noteq> None \<and> map_of by_id terminal \<noteq> None \<and> terminal \<notin> set (visit by_id [entry] [])
       then [Terminal_Unreachable] else []))"

definition load_manifest :: "(raw_manifest \<Rightarrow> string list) \<Rightarrow> string \<Rightarrow> raw_manifest \<Rightarrow> manifest_error + manifest" where
  "load_manifest validate name raw =
     (let errors = map Schema_Problem (validate raw) @ graph_integrity_errors raw in
      if errors \<noteq> [] then Inl (Bad_Manifest name (take 5 errors))
      else Inr \<lparr>mf_identity = rm_identity raw, mf_entry = rm_entry raw,
                 mf_terminal = rm_terminal raw, mf_budgets = rm_budgets raw, mf_steps = steps_by_id (rm_steps raw),
                 mf_raw = raw\<rparr>)"

definition list_manifests :: "(raw_manifest \<Rightarrow> string list) \<Rightarrow> (string \<times> raw_manifest) list \<Rightarrow> manifest_error + manifest list" where
  "list_manifests validate files =
     res_bind (collect (\<lambda>(name, raw). map_sum id Some (load_manifest validate name raw)) (sort_key fst files)) (\<lambda>out.
       let ids = map mf_adapter_id out in
       if card (set ids) \<noteq> length ids then Inl (Duplicate_Adapters ids) else Inr (sort_key mf_adapter_id out))"

section \<open>The search finds exactly what is reachable\<close>

definition leads :: "(string, step_def) dict \<Rightarrow> string \<Rightarrow> string \<Rightarrow> bool" where
  "leads by_id a b = (\<exists>s. map_of by_id a = Some s \<and> b \<in> set (successors s))"

lemma visit_keeps: "set seen \<subseteq> set (visit by_id todo seen)"
  by (induction by_id todo seen rule: visit.induct) (subst visit.simps, auto simp: Let_def split: option.splits)

lemma visit_drop:
  "todo \<noteq> [] \<Longrightarrow> last todo \<in> set seen \<or> map_of by_id (last todo) = None \<Longrightarrow>
   visit by_id todo seen = visit by_id (butlast todo) seen"
  by (subst visit.simps) (auto simp add: Let_def)

lemma visit_push:
  "todo \<noteq> [] \<Longrightarrow> last todo \<notin> set seen \<Longrightarrow> map_of by_id (last todo) = Some s \<Longrightarrow>
   visit by_id todo seen = visit by_id (butlast todo @ successors s) (last todo # seen)"
  by (subst visit.simps) (simp add: Let_def)

lemma set_last: "todo \<noteq> [] \<Longrightarrow> set todo = insert (last todo) (set (butlast todo))"
  by (metis append_butlast_last_id list.simps(15) rotate1.simps(2) set_rotate1)

text \<open>Induction along the search: the worklist is empty, its top is dropped, or it is visited.\<close>

lemma visit_induct [case_names Done Drop Push]:
  assumes "\<And>seen. P [] seen"
    and "\<And>todo seen. todo \<noteq> [] \<Longrightarrow> last todo \<in> set seen \<or> map_of by_id (last todo) = None \<Longrightarrow>
      P (butlast todo) seen \<Longrightarrow> P todo seen"
    and "\<And>todo seen s. todo \<noteq> [] \<Longrightarrow> last todo \<notin> set seen \<Longrightarrow> map_of by_id (last todo) = Some s \<Longrightarrow>
      P (butlast todo @ successors s) (last todo # seen) \<Longrightarrow> P todo seen"
  shows "P todo seen"
  using assms
proof (induction by_id todo seen rule: visit.induct)
  case (1 by_id todo seen)
  consider "todo = []" | "todo \<noteq> []" "last todo \<in> set seen" | "todo \<noteq> []" "last todo \<notin> set seen" "map_of by_id (last todo) = None"
    | s where "todo \<noteq> []" "last todo \<notin> set seen" "map_of by_id (last todo) = Some s" by fastforce
  then show ?case
  proof cases
    case 1
    then show ?thesis using "1.prems"(1) by simp
  next
    case 2
    show ?thesis by (rule "1.prems"(2) [OF 2(1) disjI1 [OF 2(2)]]) (rule "1.IH"(1) [OF 2(1) refl refl 2(2) "1.prems"])
  next
    case 3
    show ?thesis by (rule "1.prems"(2) [OF 3(1) disjI2 [OF 3(3)]]) (rule "1.IH"(2) [OF 3(1) refl refl 3(2,3) "1.prems"])
  next
    case 4
    show ?thesis by (rule "1.prems"(3) [OF 4]) (rule "1.IH"(3) [OF 4(1) refl refl 4(2,3) "1.prems"])
  qed
qed

lemma visit_sound:
  "x \<in> set (visit by_id todo seen) \<Longrightarrow>
   x \<in> set seen \<or> map_of by_id x \<noteq> None \<and> (\<exists>t \<in> set todo. (leads by_id)\<^sup>*\<^sup>* t x)"
proof (induction todo seen rule: visit_induct [where by_id = by_id])
  case (Done seen)
  then show ?case by (simp add: visit.simps)
next
  case (Drop todo seen)
  then show ?case by (auto simp: visit_drop set_last)
next
  case (Push todo seen s)
  have "(leads by_id)\<^sup>*\<^sup>* (last todo) x" if "t \<in> set (successors s)" "(leads by_id)\<^sup>*\<^sup>* t x" for t
    using that Push(3) by (intro converse_rtranclp_into_rtranclp [of "leads by_id" "last todo" t]) (auto simp: leads_def)
  then show ?case using Push by (auto simp: visit_push set_last)
qed

lemma visit_closed:
  assumes "\<forall>a \<in> set seen. \<forall>b. leads by_id a b \<longrightarrow> map_of by_id b \<noteq> None \<longrightarrow> b \<in> set seen \<union> set todo"
  shows "{t \<in> set todo. map_of by_id t \<noteq> None} \<subseteq> set (visit by_id todo seen) \<and>
    (\<forall>a \<in> set (visit by_id todo seen). \<forall>b. leads by_id a b \<longrightarrow> map_of by_id b \<noteq> None \<longrightarrow> b \<in> set (visit by_id todo seen))"
  using assms
proof (induction todo seen rule: visit_induct [where by_id = by_id])
  case (Done seen)
  then show ?case by (simp add: visit.simps)
next
  case (Drop todo seen)
  have "\<forall>a \<in> set seen. \<forall>b. leads by_id a b \<longrightarrow> map_of by_id b \<noteq> None \<longrightarrow> b \<in> set seen \<union> set (butlast todo)"
  proof (intro ballI allI impI)
    fix a b
    assume "a \<in> set seen" "leads by_id a b" "map_of by_id b \<noteq> None"
    then have "b \<in> set seen \<union> insert (last todo) (set (butlast todo))" using Drop(4) set_last [OF Drop(1)] by blast
    then show "b \<in> set seen \<union> set (butlast todo)" using Drop(2) \<open>map_of by_id b \<noteq> None\<close> by auto
  qed
  from Drop(3) [OF this] show ?case
    using Drop(2) visit_keeps [of seen by_id "butlast todo"]
    unfolding visit_drop [OF Drop(1,2)] set_last [OF Drop(1)] by auto
next
  case (Push todo seen s)
  have "\<forall>a \<in> set (last todo # seen). \<forall>b. leads by_id a b \<longrightarrow> map_of by_id b \<noteq> None \<longrightarrow>
      b \<in> set (last todo # seen) \<union> set (butlast todo @ successors s)"
    using Push(3,5) set_last [OF Push(1)] by (auto simp: leads_def)
  from Push(4) [OF this] show ?case
    using visit_keeps [of "last todo # seen" by_id "butlast todo @ successors s"]
    unfolding visit_push [OF Push(1-3)] set_last [OF Push(1)] by auto
qed

lemma visit_reachable:
  "x \<in> set (visit by_id [a] []) \<longleftrightarrow> map_of by_id x \<noteq> None \<and> (leads by_id)\<^sup>*\<^sup>* a x"
proof
  assume "x \<in> set (visit by_id [a] [])"
  then show "map_of by_id x \<noteq> None \<and> (leads by_id)\<^sup>*\<^sup>* a x" using visit_sound [of x by_id "[a]" "[]"] by simp
next
  assume x: "map_of by_id x \<noteq> None \<and> (leads by_id)\<^sup>*\<^sup>* a x"
  have c: "map_of by_id a \<noteq> None \<Longrightarrow> a \<in> set (visit by_id [a] [])"
    "\<And>b d. b \<in> set (visit by_id [a] []) \<Longrightarrow> leads by_id b d \<Longrightarrow> map_of by_id d \<noteq> None \<Longrightarrow> d \<in> set (visit by_id [a] [])"
    using visit_closed [of "[]" by_id "[a]"] by auto
  have "(leads by_id)\<^sup>*\<^sup>* a x \<Longrightarrow> map_of by_id x \<noteq> None \<Longrightarrow> x \<in> set (visit by_id [a] [])"
  proof (induction rule: rtranclp_induct)
    case base
    then show ?case using c(1) by simp
  next
    case (step y z)
    have "map_of by_id y \<noteq> None" using step(2) by (auto simp: leads_def)
    then show ?case using c(2) step by blast
  qed
  then show "x \<in> set (visit by_id [a] [])" using x by blast
qed

text \<open>
  C33. The reachability check of a manifest is exact: the integrity check reports an unreachable
  terminal step exactly when entry and terminal are steps and no chain of \<open>next\<close> and branch
  edges through declared steps leads from one to the other.
\<close>

theorem terminal_check_exact:
  "Terminal_Unreachable \<in> set (graph_integrity_errors raw) \<longleftrightarrow>
   map_of (steps_by_id (rm_steps raw)) (rm_entry raw) \<noteq> None \<and>
   map_of (steps_by_id (rm_steps raw)) (rm_terminal raw) \<noteq> None \<and>
   \<not> (leads (steps_by_id (rm_steps raw)))\<^sup>*\<^sup>* (rm_entry raw) (rm_terminal raw)"
proof -
  have "Terminal_Unreachable \<notin> set (step_problems d s)" for d s by (auto simp: step_problems_def Let_def)
  then show ?thesis
    by (auto simp: graph_integrity_errors_def Let_def visit_reachable split: option.splits)
qed

section \<open>Admitted manifests are closed graphs\<close>

definition step_ok :: "(string, step_def) dict \<Rightarrow> string \<Rightarrow> step_def \<Rightarrow> bool" where
  "step_ok by_id sid s =
     (sp_id s = sid \<and> sp_type s \<in> set STEP_TYPES \<and>
      (if sp_type s = ''COMPILE_RESULT'' then sp_next s = None
       else \<exists>n. sp_next s = Some n \<and> map_of by_id n \<noteq> None) \<and>
      (\<forall>b \<in> set (sp_branches s). map_of by_id (br_next b) \<noteq> None \<and>
        (sp_type s = ''BRANCH'' \<longrightarrow> map_option sp_type (map_of by_id (br_next b)) \<noteq> Some ''HARNESS_ACTION'')) \<and>
      (sp_type s = ''EXTERNAL_OPERATION'' \<longrightarrow> sp_external s \<noteq> None) \<and>
      (sp_theta_op s \<noteq> None \<longrightarrow> sp_type s = ''AGENT_REASON''))"

definition wf_manifest :: "manifest \<Rightarrow> bool" where
  "wf_manifest m =
     (map_of (mf_steps m) (mf_entry m) \<noteq> None \<and>
      map_option sp_type (map_of (mf_steps m) (mf_terminal m)) = Some ''COMPILE_RESULT'' \<and>
      (leads (mf_steps m))\<^sup>*\<^sup>* (mf_entry m) (mf_terminal m) \<and>
      (\<forall>sid s. map_of (mf_steps m) sid = Some s \<longrightarrow> step_ok (mf_steps m) sid s))"

lemma steps_by_id_lookup: "map_of (steps_by_id steps) sid = Some s \<Longrightarrow> s \<in> set steps \<and> sp_id s = sid"
proof -
  have "map_of (fold (\<lambda>s. dict_set (sp_id s) s) steps d) sid = Some s \<Longrightarrow>
      s \<in> set steps \<and> sp_id s = sid \<or> map_of d sid = Some s" for d
    by (induction steps arbitrary: d) (fastforce split: if_splits)+
  from this [of "[]"] show "map_of (steps_by_id steps) sid = Some s \<Longrightarrow> s \<in> set steps \<and> sp_id s = sid"
    by (simp add: steps_by_id_def)
qed

lemma no_problems_step_ok: "step_problems by_id s = [] \<Longrightarrow> step_ok by_id (sp_id s) s"
  unfolding step_problems_def step_ok_def Let_def
  by (auto simp: filter_empty_conv split: if_splits option.splits)

lemma load_manifest_wf:
  assumes "load_manifest validate name raw = Inr m"
  shows "wf_manifest m"
proof -
  have e: "graph_integrity_errors raw = []" and m: "mf_steps m = steps_by_id (rm_steps raw)"
    "mf_entry m = rm_entry raw" "mf_terminal m = rm_terminal raw"
    using assms by (auto simp: load_manifest_def Let_def split: if_splits)
  have t: "map_of (steps_by_id (rm_steps raw)) (rm_entry raw) \<noteq> None"
    "map_option sp_type (map_of (steps_by_id (rm_steps raw)) (rm_terminal raw)) = Some ''COMPILE_RESULT''"
    "\<forall>s \<in> set (rm_steps raw). step_problems (steps_by_id (rm_steps raw)) s = []"
    "rm_terminal raw \<in> set (visit (steps_by_id (rm_steps raw)) [rm_entry raw] [])"
    using e by (auto simp: graph_integrity_errors_def Let_def split: if_splits option.splits)
  show ?thesis unfolding wf_manifest_def m
  proof (intro conjI allI impI)
    show "(leads (steps_by_id (rm_steps raw)))\<^sup>*\<^sup>* (rm_entry raw) (rm_terminal raw)"
      using t(4) by (simp add: visit_reachable)
  next
    fix sid s assume "map_of (steps_by_id (rm_steps raw)) sid = Some s"
    then show "step_ok (steps_by_id (rm_steps raw)) sid s"
      using steps_by_id_lookup no_problems_step_ok t(3) by blast
  qed (use t in simp_all)
qed

text \<open>
  The rule that an evidence gap loops through reasoning is checked for the branch targets only:
  the default successor of a BRANCH step may be a HARNESS_ACTION.
\<close>

lemma branch_default_may_be_harness:
  fixes mk :: "string \<Rightarrow> string \<Rightarrow> string option \<Rightarrow> string option option \<Rightarrow> step_def" and raw :: raw_manifest
  defines "mk \<equiv> \<lambda>sid typ nxt hs. \<lparr>sp_id = sid, sp_type = typ, sp_title = ''t'', sp_objective = Some ''o'', sp_next = nxt,
      sp_output_schema = None, sp_acceptance_rules = [], sp_constraints = [], sp_branches = [], sp_external = None,
      sp_cognitive_op = None, sp_theta_op = None, sp_harness = hs, sp_harness_block = [], sp_include = []\<rparr>"
  assumes "rm_entry raw = ''b''" "rm_terminal raw = ''e''"
    "rm_steps raw = [mk ''b'' ''BRANCH'' (Some ''h'') None, mk ''h'' ''HARNESS_ACTION'' (Some ''e'') (Some (Some ''AGENT_RESEARCH'')),
       mk ''e'' ''COMPILE_RESULT'' None None]"
  shows "graph_integrity_errors raw = []"
  unfolding graph_integrity_errors_def assms by code_simp

end
