(* ===== verification/Adapter_Run.thy ===== *)
theory Adapter_Run
  imports Adapter_Manifest
begin

text \<open>
  The runs of the cognitive adapter (\<^verbatim>\<open>adapter/transitions.py\<close>): the durable state of a run,
  predicates and navigation over the manifest graph, issuing a step within the budgets, accepting
  or refusing a submission, automatic outputs, and the terminal transitions. Every raise is an
  \<open>Inl\<close>. The JSON Schema validators are a parameter (\<open>contracts\<close>): each yields the violations
  (path and message) that \<open>iter_errors\<close> lists.
\<close>

section \<open>State\<close>

datatype run_status = Created | Running | Awaiting_Agent | Awaiting_Harness | Completed | At_Gap | Cancelled | Failed_Run

definition TERMINAL_RUN_STATUSES :: "run_status list" where
  "TERMINAL_RUN_STATUSES = [Completed, At_Gap, Cancelled, Failed_Run]"

record gap_info =
  gp_code :: string
  gp_message :: string
  gp_step :: "string option"

record run_state =
  rs_run_id :: string
  rs_adapter_id :: string
  rs_status :: run_status
  rs_current :: "string option"
  rs_sequence :: int
  rs_accepted :: int
  rs_loops :: int
  rs_agent :: int
  rs_external :: int
  rs_harness :: int
  rs_input :: "(string, json) dict"
  rs_options :: "(string, json) dict"
  rs_outputs :: "(string, json) dict"
  rs_order :: "string list"
  rs_failure :: "json option"
  rs_gap :: "gap_info option"

definition is_terminal :: "run_state \<Rightarrow> bool" where
  "is_terminal s = (rs_status s \<in> set TERMINAL_RUN_STATUSES)"

record ev_ref =
  er_id :: string
  er_kind :: "string option"

record step_context =
  cx_evidence_refs :: "ev_ref list"
  cx_inputs :: "(string, json) dict"
  cx_prior_step_ids :: "string list"
  cx_admitted :: "string list"
  cx_hypotheses :: "json list option"
  cx_registry :: "(string, json) dict option"

record issued_step =
  is_run_id :: string
  is_step_id :: string
  is_type :: string
  is_sequence :: int
  is_issued_at :: string
  is_objective :: string
  is_context :: step_context
  is_constraints :: "string list"
  is_output_schema :: json
  is_rules :: "string list"
  is_external :: "(string \<times> string) option"
  is_cognitive :: "string option"
  is_theta :: "string option"
  is_harness :: "(string, json) dict option"

record submission =
  sb_step_id :: string
  sb_kind :: "string option"
  sb_payload :: json

type_synonym violation = "string list \<times> string"

record run_view =
  vw_run_id :: string
  vw_identity :: manifest_identity
  vw_status :: run_status
  vw_current :: "string option"
  vw_type :: "string option"
  vw_issued :: int
  vw_accepted :: int
  vw_loops :: int
  vw_harness :: int
  vw_started :: string
  vw_updated :: string
  vw_terminal_at :: "string option"
  vw_failure :: "json option"
  vw_gap :: "gap_info option"
  vw_agent :: "string option"

record contracts =
  cv_schema :: "json \<Rightarrow> json \<Rightarrow> violation list"
  cv_action :: "(string, json) dict \<Rightarrow> violation list"
  cv_step :: "issued_step \<Rightarrow> violation list"
  cv_submission :: "submission \<Rightarrow> violation list"
  cv_receipt :: "json \<Rightarrow> violation list"
  cv_view :: "run_view \<Rightarrow> violation list"

datatype rejection = Problem string | Priors_Cited "string list" | Not_In_Context "string list" | Action_Mismatch | Run_Mismatch
  | Run_Terminal run_status | Not_Awaiting string "string option" | Wrong_Kind string string

datatype run_error = Manifest_Err manifest_error | Submission_Rejected "rejection list" | Budget_Exhausted string
  | Contract_Violation string "string list" | Issue_On_Terminal run_status | No_Successor | Needs_Harness_Action string
  | External_Missing string | Not_Running string | Cannot_Complete run_status

section \<open>Contract checks\<close>

definition path_str :: "string list \<Rightarrow> string" where
  "path_str ps = py_join (CHR ''/'') ps"

definition violations :: "violation list \<Rightarrow> string list" where
  "violations errs = map (\<lambda>(p, m). (if path_str p = [] then ''$'' else path_str p) @ '': '' @ m) (sort_key (\<lambda>e. e) errs)"

definition assert_valid :: "string \<Rightarrow> violation list \<Rightarrow> run_error + unit" where
  "assert_valid name errs = (if errs = [] then Inr () else Inl (Contract_Violation name (violations errs)))"

section \<open>Predicates\<close>

fun lookup_path :: "string list \<Rightarrow> json \<Rightarrow> json" where
  "lookup_path [] cur = cur"
| "lookup_path (p # ps) (JDict d) = (case map_of d p of None \<Rightarrow> JNull | Some v \<Rightarrow> lookup_path ps v)"
| "lookup_path (p # ps) _ = JNull"

definition lookup :: "string \<Rightarrow> json \<Rightarrow> json" where
  "lookup path ctx = lookup_path (split_char (CHR ''.'') path) ctx"

fun json_count :: "json \<Rightarrow> int" where
  "json_count (JList xs) = int (length xs)"
| "json_count (JDict d) = int (length d)"
| "json_count (JString s) = int (length s)"
| "json_count (JNum x) = int_trunc x"
| "json_count _ = 0"

fun evaluate_predicate :: "json \<Rightarrow> pred \<Rightarrow> bool" where
  "evaluate_predicate ctx (All_Of ps) = list_all (evaluate_predicate ctx) ps"
| "evaluate_predicate ctx (Any_Of ps) = list_ex (evaluate_predicate ctx) ps"
| "evaluate_predicate ctx (Exists path) = (lookup path ctx \<noteq> JNull)"
| "evaluate_predicate ctx (Equals path v) = json_eq (lookup path ctx) v"
| "evaluate_predicate ctx (Count_Gte path n) = (n \<le> json_count (lookup path ctx))"
| "evaluate_predicate ctx (Count_Lt path n) = (json_count (lookup path ctx) < n)"
| "evaluate_predicate ctx Unknown_Op = False"

definition run_ctx :: "run_state \<Rightarrow> json" where
  "run_ctx s = JDict
     [(''steps'', JDict (map (\<lambda>(sid, out). (sid, JDict [(''output'', out)])) (rs_outputs s))),
      (''run'', JDict [(''branch_loops'', JNum (of_int (rs_loops s))), (''sequence'', JNum (of_int (rs_sequence s))),
         (''steps_accepted'', JNum (of_int (rs_accepted s))), (''agent_reason_count'', JNum (of_int (rs_agent s))),
         (''external_operation_count'', JNum (of_int (rs_external s)))]),
      (''input'', JDict (rs_input s)), (''options'', JDict (rs_options s))]"

section \<open>Navigation and budgets\<close>

definition lift_manifest :: "manifest_error + 'a \<Rightarrow> run_error + 'a" where
  "lift_manifest r = (case r of Inl e \<Rightarrow> Inl (Manifest_Err e) | Inr x \<Rightarrow> Inr x)"

definition taken_branch :: "step_def \<Rightarrow> run_state \<Rightarrow> branch option" where
  "taken_branch cur s = find (\<lambda>b. evaluate_predicate (run_ctx s) (br_when b)) (sp_branches cur)"

definition next_step_id :: "manifest \<Rightarrow> run_state \<Rightarrow> run_error + string option" where
  "next_step_id m s =
     (case rs_current s of
        None \<Rightarrow> Inr (Some (mf_entry m))
      | Some c \<Rightarrow> res_bind (lift_manifest (step m c)) (\<lambda>cur.
          Inr (if sp_type cur = ''BRANCH''
               then (case taken_branch cur s of Some b \<Rightarrow> Some (br_next b) | None \<Rightarrow> sp_next cur)
               else sp_next cur)))"

definition unlimited :: int where "unlimited = 10 ^ 9"

definition check_budgets :: "manifest \<Rightarrow> run_state \<Rightarrow> string \<Rightarrow> bool \<Rightarrow> run_error + unit" where
  "check_budgets m s step_type took_branch =
     (let b = mf_budgets m in
      if bg_max_steps b < rs_sequence s + 1 then Inl (Budget_Exhausted ''max_steps'')
      else if step_type = ''AGENT_REASON'' \<and> bg_max_agent_reason b < rs_agent s + 1
        then Inl (Budget_Exhausted ''max_agent_reason'')
      else if step_type = ''EXTERNAL_OPERATION'' \<and>
          (case bg_max_external_operations b of None \<Rightarrow> unlimited | Some n \<Rightarrow> n) < rs_external s + 1
        then Inl (Budget_Exhausted ''max_external_operations'')
      else if step_type = ''HARNESS_ACTION'' \<and>
          (case bg_max_harness_actions b of None \<Rightarrow> unlimited | Some n \<Rightarrow> n) < rs_harness s + 1
        then Inl (Budget_Exhausted ''max_harness_actions'')
      else if took_branch \<and> bg_max_branch_loops b < rs_loops s + 1 then Inl (Budget_Exhausted ''max_branch_loops'')
      else Inr ())"

definition start_run :: "contracts \<Rightarrow> manifest \<Rightarrow> string \<Rightarrow> (string, json) dict \<Rightarrow> (string, json) dict \<Rightarrow> run_error + run_state" where
  "start_run c m run_id input_payload options =
     (let schema = (case rm_input_schema (mf_raw m) of
            Some j \<Rightarrow> if truthy j then j else JDict [(''type'', JString ''object'')]
          | None \<Rightarrow> JDict [(''type'', JString ''object'')]);
          errors = map snd (cv_schema c schema (JDict input_payload)) in
      if errors \<noteq> [] then Inl (Submission_Rejected (map (\<lambda>m. Problem (''input: '' @ m)) (sort errors)))
      else Inr \<lparr>rs_run_id = run_id, rs_adapter_id = mf_adapter_id m, rs_status = Created, rs_current = None,
        rs_sequence = 0, rs_accepted = 0, rs_loops = 0, rs_agent = 0, rs_external = 0, rs_harness = 0,
        rs_input = input_payload, rs_options = options, rs_outputs = [], rs_order = [], rs_failure = None, rs_gap = None\<rparr>)"

section \<open>Issuing a step\<close>

record issue_args =
  ia_issued_at :: string
  ia_evidence_refs :: "ev_ref list"
  ia_inputs :: "(string, json) dict"
  ia_hypotheses :: "json list"
  ia_registry :: "(string, json) dict"
  ia_harness_action :: "(string, json) dict"
  ia_admitted :: "string list"

definition took_branch :: "manifest \<Rightarrow> run_state \<Rightarrow> string \<Rightarrow> bool" where
  "took_branch m s sid =
     (case rs_current s of
        None \<Rightarrow> False
      | Some c \<Rightarrow> (case map_of (mf_steps m) c of
          None \<Rightarrow> False
        | Some cur \<Rightarrow> sp_type cur = ''BRANCH'' \<and> Some sid \<noteq> sp_next cur))"

definition issue_context :: "run_state \<Rightarrow> issue_args \<Rightarrow> step_context" where
  "issue_context s a = \<lparr>cx_evidence_refs = ia_evidence_refs a, cx_inputs = ia_inputs a,
     cx_prior_step_ids = map fst (rs_outputs s), cx_admitted = ia_admitted a,
     cx_hypotheses = (if ia_hypotheses a = [] then None else Some (ia_hypotheses a)),
     cx_registry = (if ia_registry a = [] then None else Some (ia_registry a))\<rparr>"

definition build_step :: "run_state \<Rightarrow> issue_args \<Rightarrow> string \<Rightarrow> step_def \<Rightarrow> int \<Rightarrow> issued_step" where
  "build_step s a sid spec seq =
     \<lparr>is_run_id = rs_run_id s, is_step_id = sid, is_type = sp_type spec, is_sequence = seq, is_issued_at = ia_issued_at a,
      is_objective = or_str (sp_objective spec) (if sp_title spec \<noteq> [] then sp_title spec else sid),
      is_context = issue_context s a, is_constraints = sp_constraints spec,
      is_output_schema = (case sp_output_schema spec of
          Some j \<Rightarrow> if truthy j then j else JDict [(''type'', JString ''object'')] | None \<Rightarrow> JDict [(''type'', JString ''object'')]),
      is_rules = sp_acceptance_rules spec,
      is_external = (if sp_type spec = ''EXTERNAL_OPERATION''
          then map_option (\<lambda>e. (ex_system e, ex_operation_kind e)) (sp_external spec) else None),
      is_cognitive = (if some_str (sp_cognitive_op spec) then sp_cognitive_op spec
          else if sp_type spec = ''AGENT_REASON'' \<and> some_str (sp_theta_op spec) then Some ''theta'' else None),
      is_theta = sp_theta_op spec,
      is_harness = (if sp_type spec = ''HARNESS_ACTION'' then Some (ia_harness_action a) else None)\<rparr>"

definition status_for :: "string \<Rightarrow> run_status" where
  "status_for t = (if t = ''AGENT_REASON'' then Awaiting_Agent else if t = ''HARNESS_ACTION'' then Awaiting_Harness else Running)"

definition bump :: "bool \<Rightarrow> int \<Rightarrow> int" where
  "bump b n = n + (if b then 1 else 0)"

definition advance_state :: "run_state \<Rightarrow> string \<Rightarrow> string \<Rightarrow> bool \<Rightarrow> run_state" where
  "advance_state s sid t took =
     s\<lparr>rs_status := status_for t, rs_current := Some sid, rs_sequence := rs_sequence s + 1,
       rs_loops := bump took (rs_loops s), rs_agent := bump (t = ''AGENT_REASON'') (rs_agent s),
       rs_external := bump (t = ''EXTERNAL_OPERATION'') (rs_external s),
       rs_harness := bump (t = ''HARNESS_ACTION'') (rs_harness s)\<rparr>"

definition harness_check :: "contracts \<Rightarrow> string \<Rightarrow> step_def \<Rightarrow> issue_args \<Rightarrow> run_error + unit" where
  "harness_check c sid spec a =
     (if sp_type spec \<noteq> ''HARNESS_ACTION'' then Inr ()
      else if ia_harness_action a = [] then Inl (Needs_Harness_Action sid)
      else assert_valid ''harness_action'' (cv_action c (ia_harness_action a)))"

definition issue_step :: "contracts \<Rightarrow> manifest \<Rightarrow> run_state \<Rightarrow> issue_args \<Rightarrow> run_error + (run_state \<times> issued_step)" where
  "issue_step c m s a =
     (if is_terminal s then Inl (Issue_On_Terminal (rs_status s))
      else res_bind (next_step_id m s) (\<lambda>nxt.
        case nxt of
          None \<Rightarrow> Inl No_Successor
        | Some sid \<Rightarrow>
            res_bind (lift_manifest (step m sid)) (\<lambda>spec.
            res_bind (check_budgets m s (sp_type spec) (took_branch m s sid)) (\<lambda>_.
            res_bind (harness_check c sid spec a) (\<lambda>_.
            if sp_type spec = ''EXTERNAL_OPERATION'' \<and> sp_external spec = None then Inl (External_Missing sid)
            else
              let stp = build_step s a sid spec (rs_sequence s + 1) in
              res_bind (assert_valid ''adapter_step'' (cv_step c stp)) (\<lambda>_.
                Inr (advance_state s sid (sp_type spec) (took_branch m s sid), stp)))))))"

section \<open>Outputs in acceptance order\<close>

definition bump_order :: "string list \<Rightarrow> string \<Rightarrow> string list" where
  "bump_order order step_id = filter (\<lambda>x. x \<noteq> step_id) order @ [step_id]"

definition output_value :: "string \<Rightarrow> json \<Rightarrow> json option" where
  "output_value key out =
     (case out of
        JDict d \<Rightarrow> (case map_of d key of
            Some v \<Rightarrow> Some v
          | None \<Rightarrow> (case find (\<lambda>v. case v of JDict e \<Rightarrow> map_of e key \<noteq> None | _ \<Rightarrow> False) (map snd d) of
                Some (JDict e) \<Rightarrow> map_of e key | _ \<Rightarrow> None))
      | _ \<Rightarrow> None)"

fun first_value :: "(string, json) dict \<Rightarrow> string \<Rightarrow> string list \<Rightarrow> json option" where
  "first_value outs key [] = None"
| "first_value outs key (sid # sids) =
     (case (case map_of outs sid of None \<Rightarrow> None | Some out \<Rightarrow> output_value key out) of
        Some v \<Rightarrow> Some v
      | None \<Rightarrow> first_value outs key sids)"

definition newest_output :: "run_state \<Rightarrow> string \<Rightarrow> json option" where
  "newest_output s key =
     first_value (rs_outputs s) key (rev (if rs_order s = [] then map fst (rs_outputs s) else rs_order s))"

section \<open>Submissions\<close>

definition cites_key :: "string \<Rightarrow> bool" where
  "cites_key k = suffix ''_ids'' k"

fun json_strings :: "json list \<Rightarrow> string list" where
  "json_strings [] = []"
| "json_strings (JString s # xs) = s # json_strings xs"
| "json_strings (_ # xs) = json_strings xs"

fun cited_ids :: "json \<Rightarrow> string list"
  and cited_in_dict :: "(string \<times> json) list \<Rightarrow> string list"
  and cited_in_list :: "json list \<Rightarrow> string list" where
  "cited_ids (JDict d) = cited_in_dict d"
| "cited_ids (JList xs) = cited_in_list xs"
| "cited_ids (JString s) = []"
| "cited_ids (JNum x) = []"
| "cited_ids (JBool b) = []"
| "cited_ids JNull = []"
| "cited_in_dict [] = []"
| "cited_in_dict ((k, v) # d) =
     (if cites_key k \<and> (case v of JList xs \<Rightarrow> True | _ \<Rightarrow> False)
      then (case v of JList xs \<Rightarrow> json_strings xs | _ \<Rightarrow> []) else cited_ids v) @ cited_in_dict d"
| "cited_in_list [] = []"
| "cited_in_list (v # vs) = cited_ids v @ cited_in_list vs"

definition is_prior :: "ev_ref \<Rightarrow> bool" where
  "is_prior r = (case er_kind r of None \<Rightarrow> False | Some k \<Rightarrow> k \<in> set PRIOR_EVIDENCE_KINDS)"

definition sorted_set :: "string list \<Rightarrow> string list" where
  "sorted_set xs = sort (remdups xs)"

definition payload_problem :: "violation \<Rightarrow> string" where
  "payload_problem e = (if fst e = [] then ''payload'' else ''payload/'' @ path_str (fst e)) @ '': '' @ snd e"

definition validate_submission :: "contracts \<Rightarrow> issued_step \<Rightarrow> json \<Rightarrow> rejection list" where
  "validate_submission c stp payload =
     (let errors = map (Problem \<circ> payload_problem) (sort_key (\<lambda>e. e) (cv_schema c (is_output_schema stp) payload));
          refs = cx_evidence_refs (is_context stp);
          allowed = map er_id (filter (\<lambda>r. \<not> is_prior r) refs);
          priors = map er_id (filter is_prior refs);
          cited = cited_ids payload;
          cited_priors = sorted_set (filter (\<lambda>x. x \<in> set priors) cited);
          uncited = (if allowed \<noteq> [] \<or> cited \<noteq> []
                     then sorted_set (filter (\<lambda>x. x \<notin> set allowed \<and> x \<notin> set priors) cited) else []) in
      errors @ (if cited_priors \<noteq> [] then [Priors_Cited (take 10 cited_priors)] else []) @
      (if uncited \<noteq> [] then [Not_In_Context (take 10 uncited)] else []))"

definition jget :: "(string, json) dict \<Rightarrow> string \<Rightarrow> json" where
  "jget d k = (case map_of d k of None \<Rightarrow> JNull | Some v \<Rightarrow> v)"

definition validate_receipt :: "contracts \<Rightarrow> issued_step \<Rightarrow> json \<Rightarrow> rejection list" where
  "validate_receipt c stp payload =
     (let action = (case is_harness stp of None \<Rightarrow> [] | Some d \<Rightarrow> d) in
      map (\<lambda>e. Problem (''payload: '' @ e)) (violations (cv_receipt c payload)) @
      (case payload of
         JDict d \<Rightarrow>
           (if \<not> json_eq (jget d ''action_id'') (jget action ''action_id'') then [Action_Mismatch] else []) @
           (if \<not> json_eq (jget d ''run_id'') (JString (is_run_id stp)) then [Run_Mismatch] else [])
       | _ \<Rightarrow> []))"

definition expected_for :: "string \<Rightarrow> (run_status \<times> string) option" where
  "expected_for t = (if t = ''AGENT_REASON'' then Some (Awaiting_Agent, ''reasoning'')
     else if t = ''HARNESS_ACTION'' then Some (Awaiting_Harness, ''receipt'') else None)"

definition record_output :: "run_state \<Rightarrow> string \<Rightarrow> json \<Rightarrow> run_state" where
  "record_output s step_id out =
     s\<lparr>rs_accepted := rs_accepted s + 1, rs_outputs := dict_set step_id out (rs_outputs s),
       rs_order := bump_order (rs_order s) step_id\<rparr>"

definition submission_errors :: "contracts \<Rightarrow> issued_step \<Rightarrow> submission \<Rightarrow> rejection list" where
  "submission_errors c stp sub = (if is_type stp = ''HARNESS_ACTION'' then validate_receipt c stp (sb_payload sub)
     else validate_submission c stp (sb_payload sub))"

definition accept_submission :: "contracts \<Rightarrow> run_state \<Rightarrow> issued_step \<Rightarrow> submission \<Rightarrow> run_error + run_state" where
  "accept_submission c s stp sub =
     res_bind (assert_valid ''adapter_submission'' (cv_submission c sub)) (\<lambda>_.
       if is_terminal s then Inl (Submission_Rejected [Run_Terminal (rs_status s)])
       else case expected_for (is_type stp) of
         None \<Rightarrow> Inl (Submission_Rejected [Not_Awaiting (sb_step_id sub) (rs_current s)])
       | Some (status, kind) \<Rightarrow>
           if rs_status s \<noteq> status \<or> Some (is_step_id stp) \<noteq> rs_current s \<or> Some (sb_step_id sub) \<noteq> rs_current s
           then Inl (Submission_Rejected [Not_Awaiting (sb_step_id sub) (rs_current s)])
           else if some_str (sb_kind sub) \<and> sb_kind sub \<noteq> Some kind
           then Inl (Submission_Rejected [Wrong_Kind (the (sb_kind sub)) kind])
           else if submission_errors c stp sub \<noteq> [] then Inl (Submission_Rejected (submission_errors c stp sub))
           else Inr ((record_output s (is_step_id stp) (sb_payload sub))\<lparr>rs_status := Running\<rparr>))"

definition record_automatic_output :: "run_state \<Rightarrow> string \<Rightarrow> json \<Rightarrow> run_error + run_state" where
  "record_automatic_output s step_id out =
     (if rs_current s \<noteq> Some step_id \<or> rs_status s \<noteq> Running then Inl (Not_Running step_id)
      else Inr (record_output s step_id out))"

section \<open>Terminal transitions\<close>

definition cancel_run :: "run_state \<Rightarrow> run_state" where
  "cancel_run s = (if is_terminal s then s else s\<lparr>rs_status := Cancelled\<rparr>)"

definition terminal_gap :: "run_state \<Rightarrow> string \<Rightarrow> string \<Rightarrow> string option \<Rightarrow> run_state" where
  "terminal_gap s code message step_id =
     (if is_terminal s then s
      else s\<lparr>rs_status := At_Gap, rs_gap := Some \<lparr>gp_code = code, gp_message = message,
             gp_step = (if some_str step_id then step_id else None)\<rparr>\<rparr>)"

definition complete_run :: "run_state \<Rightarrow> run_error + run_state" where
  "complete_run s = (if rs_status s \<noteq> Running then Inl (Cannot_Complete (rs_status s)) else Inr (s\<lparr>rs_status := Completed\<rparr>))"

definition run_status_view ::
  "contracts \<Rightarrow> manifest \<Rightarrow> run_state \<Rightarrow> string \<Rightarrow> string \<Rightarrow> string option \<Rightarrow> string option \<Rightarrow> run_error + run_view" where
  "run_status_view c m s started updated terminal_at agent =
     (let spec = (if some_str (rs_current s) then map_sum id Some (lift_manifest (step m (the (rs_current s)))) else Inr None) in
      res_bind spec (\<lambda>sp.
        let view = \<lparr>vw_run_id = rs_run_id s, vw_identity = mf_identity m, vw_status = rs_status s, vw_current = rs_current s,
              vw_type = map_option sp_type sp, vw_issued = rs_sequence s, vw_accepted = rs_accepted s, vw_loops = rs_loops s,
              vw_harness = rs_harness s, vw_started = started, vw_updated = updated, vw_terminal_at = terminal_at,
              vw_failure = rs_failure s, vw_gap = rs_gap s, vw_agent = agent\<rparr> in
        res_bind (assert_valid ''adapter_run_status'' (cv_view c view)) (\<lambda>_. Inr view)))"

end
