(* ===== verification/Act.thy ===== *)
theory Act
  imports Py_Strings
begin

text \<open>
  Operations on a state that may raise: an operation returns the exception or its value, and the
  state at that moment, so that what an exception leaves behind is part of the model. \<open>act_each\<close>
  is a \<open>for\<close> loop with an index. \<open>keeps_state\<close> is the partial-correctness rule the component proofs
  use: what an operation keeps whether it returns or raises.
\<close>

type_synonym ('s, 'e, 'a) act = "'s \<Rightarrow> ('e + 'a) \<times> 's"

definition act_return :: "'a \<Rightarrow> ('s, 'e, 'a) act" where
  "act_return x s = (Inr x, s)"

definition act_raise :: "'e \<Rightarrow> ('s, 'e, 'a) act" where
  "act_raise e s = (Inl e, s)"

definition act_get :: "('s, 'e, 's) act" where
  "act_get s = (Inr s, s)"

definition act_modify :: "('s \<Rightarrow> 's) \<Rightarrow> ('s, 'e, unit) act" where
  "act_modify f s = (Inr (), f s)"

definition act_bind :: "('s, 'e, 'a) act \<Rightarrow> ('a \<Rightarrow> ('s, 'e, 'b) act) \<Rightarrow> ('s, 'e, 'b) act" where
  "act_bind m f s = (case m s of (Inl e, s') \<Rightarrow> (Inl e, s') | (Inr x, s') \<Rightarrow> f x s')"

text \<open>A pure result as an operation, with its error translated.\<close>

definition act_lift :: "('e \<Rightarrow> 'f) \<Rightarrow> 'e + 'a \<Rightarrow> ('s, 'f, 'a) act" where
  "act_lift g r = (case r of Inl e \<Rightarrow> act_raise (g e) | Inr x \<Rightarrow> act_return x)"

text \<open>\<open>try m except e: h e\<close>: the state the exception left is the one the handler starts from.\<close>

definition act_catch :: "('s, 'e, 'a) act \<Rightarrow> ('e \<Rightarrow> ('s, 'e, 'a) act) \<Rightarrow> ('s, 'e, 'a) act" where
  "act_catch m h s = (case m s of (Inl e, s') \<Rightarrow> h e s' | (Inr x, s') \<Rightarrow> (Inr x, s'))"

fun act_each :: "(nat \<Rightarrow> 'a \<Rightarrow> ('s, 'e, unit) act) \<Rightarrow> nat \<Rightarrow> 'a list \<Rightarrow> ('s, 'e, unit) act" where
  "act_each f n [] = act_return ()"
| "act_each f n (x # xs) = act_bind (f n x) (\<lambda>_. act_each f (n + 1) xs)"

lemma act_bind_Inr: "act_bind m f l = (Inr x, l') \<longleftrightarrow> (\<exists>y l1. m l = (Inr y, l1) \<and> f y l1 = (Inr x, l'))"
  by (auto simp: act_bind_def split: prod.splits sum.splits)

lemma act_base_simps [simp]:
  "act_return x l = (r, l') \<longleftrightarrow> r = Inr x \<and> l' = l"
  "act_raise e l = (r, l') \<longleftrightarrow> r = Inl e \<and> l' = l"
  "act_get l = (rg, l') \<longleftrightarrow> rg = Inr l \<and> l' = l"
  "act_modify f l = (r1, l') \<longleftrightarrow> r1 = Inr () \<and> l' = f l"
  by (auto simp: act_return_def act_raise_def act_get_def act_modify_def)

lemma act_lift_Inr [simp]: "act_lift g r l = (Inr x, l') \<longleftrightarrow> r = Inr x \<and> l' = l"
  by (auto simp: act_lift_def split: sum.splits)

lemma act_each_from:
  assumes "act_each f n xs l = (Inr u, l')" "P n l"
    and "\<And>i l l'. P i l \<Longrightarrow> n \<le> i \<Longrightarrow> i < n + length xs \<Longrightarrow> f i (xs ! (i - n)) l = (Inr (), l') \<Longrightarrow> P (i + 1) l'"
  shows "P (n + length xs) l'"
  using assms
proof (induction xs arbitrary: n l)
  case (Cons x xs)
  from Cons.prems(1) obtain l1 where l1: "f n x l = (Inr (), l1)" and rest: "act_each f (n + 1) xs l1 = (Inr u, l')"
    by (auto simp: act_bind_Inr)
  have "P (n + 1) l1" using Cons.prems(3) [OF Cons.prems(2)] l1 by simp
  moreover have "P (i + 1) l'" if "P i l" "n + 1 \<le> i" "i < n + 1 + length xs" "f i (xs ! (i - (n + 1))) l = (Inr (), l')" for i l l'
  proof (rule Cons.prems(3) [OF that(1)])
    have "i - n = Suc (i - (n + 1))" using that(2) by simp
    then show "f i ((x # xs) ! (i - n)) l = (Inr (), l')" using that(4) by simp
  qed (use that in simp_all)
  ultimately have "P (n + 1 + length xs) l'" by (rule Cons.IH [OF rest])
  then show ?case by simp
qed simp

lemma act_each_keeps:
  assumes "act_each f 0 xs l = (Inr u, l')" "P 0 l"
    and "\<And>i l l'. P i l \<Longrightarrow> i < length xs \<Longrightarrow> f i (xs ! i) l = (Inr (), l') \<Longrightarrow> P (i + 1) l'"
  shows "P (length xs) l'"
  using act_each_from [of f 0 xs l u l' P] assms by simp

section \<open>What an operation keeps\<close>

text \<open>From a state with \<open>P\<close>, \<open>m\<close> ends in a state with \<open>P\<close>, and a value it returns has \<open>Q\<close>.\<close>

definition keeps_state :: "('s \<Rightarrow> bool) \<Rightarrow> ('s, 'e, 'a) act \<Rightarrow> ('a \<Rightarrow> bool) \<Rightarrow> bool" where
  "keeps_state P m Q \<longleftrightarrow> (\<forall>l r l'. P l \<longrightarrow> m l = (r, l') \<longrightarrow> P l' \<and> (\<forall>x. r = Inr x \<longrightarrow> Q x))"

lemma keeps_state_bind:
  assumes m: "keeps_state P m Q" and f: "\<And>x. Q x \<Longrightarrow> keeps_state P (f x) R"
  shows "keeps_state P (act_bind m f) R"
  unfolding keeps_state_def
proof (intro allI impI)
  fix l r l' assume P: "P l" and e: "act_bind m f l = (r, l')"
  obtain q l1 where q: "m l = (q, l1)" by fastforce
  have 1: "P l1 \<and> (\<forall>x. q = Inr x \<longrightarrow> Q x)" using m P q unfolding keeps_state_def by blast
  show "P l' \<and> (\<forall>x. r = Inr x \<longrightarrow> R x)"
  proof (cases q)
    case (Inl a) then show ?thesis using e q 1 by (auto simp: act_bind_def)
  next
    case (Inr x)
    then have "f x l1 = (r, l')" using e q by (simp add: act_bind_def)
    then show ?thesis using f 1 Inr unfolding keeps_state_def by blast
  qed
qed

lemma keeps_state_then: "keeps_state P m (\<lambda>_. True) \<Longrightarrow> (\<And>x. keeps_state P (f x) R) \<Longrightarrow> keeps_state P (act_bind m f) R"
  by (rule keeps_state_bind)

lemma keeps_state_pointwise: "(\<And>l. \<exists>m'. keeps_state P m' Q \<and> m l = m' l) \<Longrightarrow> keeps_state P m Q"
  unfolding keeps_state_def by metis

lemma keeps_state_return [intro]: "Q x \<Longrightarrow> keeps_state P (act_return x) Q"
  and keeps_state_raise [intro]: "keeps_state P (act_raise e) Q"
  and keeps_state_get [intro]: "keeps_state P act_get (\<lambda>_. True)"
  and keeps_state_modify [intro]: "(\<And>l. P l \<Longrightarrow> P (g l)) \<Longrightarrow> keeps_state P (act_modify g) (\<lambda>_. True)"
  and keeps_state_lift [intro]: "keeps_state P (act_lift h r) (\<lambda>_. True)"
  by (auto simp: keeps_state_def act_lift_def split: sum.splits)

lemma keeps_state_each:
  "(\<And>n x. x \<in> set xs \<Longrightarrow> keeps_state P (f n x) (\<lambda>_. True)) \<Longrightarrow> keeps_state P (act_each f n xs) (\<lambda>_. True)"
  by (induction xs arbitrary: n) (auto intro!: keeps_state_then)

lemma keeps_stateD: "keeps_state P m Q \<Longrightarrow> P l \<Longrightarrow> P (snd (m l))"
  unfolding keeps_state_def by (metis prod.collapse)

section \<open>What an operation leaves alone\<close>

text \<open>\<open>m\<close> does not change what \<open>obs\<close> sees, whether it returns or raises, and a value it returns has \<open>Q\<close>.\<close>

definition leaves :: "('s \<Rightarrow> 'o) \<Rightarrow> ('s, 'e, 'a) act \<Rightarrow> ('a \<Rightarrow> bool) \<Rightarrow> bool" where
  "leaves obs m Q \<longleftrightarrow> (\<forall>l r l'. m l = (r, l') \<longrightarrow> obs l' = obs l \<and> (\<forall>x. r = Inr x \<longrightarrow> Q x))"

named_theorems leaves_intros \<open>operations that leave an observed part of the state alone\<close>

lemma leavesI: "(\<And>l r l'. m l = (r, l') \<Longrightarrow> obs l' = obs l \<and> (\<forall>x. r = Inr x \<longrightarrow> Q x)) \<Longrightarrow> leaves obs m Q"
  by (simp add: leaves_def)

lemma leavesD: "leaves obs m Q \<Longrightarrow> m l = (r, l') \<Longrightarrow> obs l' = obs l"
  and leaves_value: "leaves obs m Q \<Longrightarrow> m l = (Inr x, l') \<Longrightarrow> Q x"
  by (auto simp: leaves_def)

lemma leaves_weaken: "leaves obs m Q \<Longrightarrow> (\<And>x. Q x \<Longrightarrow> R x) \<Longrightarrow> leaves obs m R"
  by (auto simp: leaves_def)

lemma leaves_bind:
  assumes m: "leaves obs m Q" and f: "\<And>x. Q x \<Longrightarrow> leaves obs (f x) R"
  shows "leaves obs (act_bind m f) R"
proof (rule leavesI)
  fix l r l' assume e: "act_bind m f l = (r, l')"
  obtain q l1 where q: "m l = (q, l1)" by fastforce
  have 1: "obs l1 = obs l" by (rule leavesD [OF m q])
  show "obs l' = obs l \<and> (\<forall>x. r = Inr x \<longrightarrow> R x)"
  proof (cases q)
    case (Inl a) then show ?thesis using e q 1 by (auto simp: act_bind_def)
  next
    case (Inr x)
    then have fx: "f x l1 = (r, l')" "Q x" using e q leaves_value [OF m] by (auto simp: act_bind_def)
    show ?thesis using f [OF fx(2)] fx(1) 1 by (auto simp: leaves_def)
  qed
qed

lemma leaves_then: "leaves obs m (\<lambda>_. True) \<Longrightarrow> (\<And>x. leaves obs (f x) R) \<Longrightarrow> leaves obs (act_bind m f) R"
  by (rule leaves_bind)

lemma leaves_catch:
  assumes m: "leaves obs m Q" and h: "\<And>e. leaves obs (h e) Q"
  shows "leaves obs (act_catch m h) Q"
proof (rule leavesI)
  fix l r l' assume e: "act_catch m h l = (r, l')"
  obtain q l1 where q: "m l = (q, l1)" by fastforce
  have 1: "obs l1 = obs l" by (rule leavesD [OF m q])
  show "obs l' = obs l \<and> (\<forall>x. r = Inr x \<longrightarrow> Q x)"
  proof (cases q)
    case (Inl a)
    then have "h a l1 = (r, l')" using e q by (simp add: act_catch_def)
    then show ?thesis using h 1 by (auto simp: leaves_def)
  next
    case (Inr x) then show ?thesis using e q 1 leaves_value [OF m] by (auto simp: act_catch_def)
  qed
qed

lemma leaves_basic [leaves_intros]:
  "Q x \<Longrightarrow> leaves obs (act_return x) Q" "leaves obs (act_raise e) Q" "leaves obs act_get (\<lambda>_. True)"
  "leaves obs (act_lift g r) (\<lambda>x. r = Inr x)"
  by (auto simp: leaves_def act_lift_def split: sum.splits)

lemma leaves_lift: "leaves obs (act_lift g r) (\<lambda>_. True)"
  by (rule leaves_weaken [OF leaves_basic(4)]) simp

lemma leaves_modify: "(\<And>l. obs (g l) = obs l) \<Longrightarrow> leaves obs (act_modify g) (\<lambda>_. True)"
  by (simp add: leaves_def)

section \<open>Triples for a normal return\<close>

text \<open>From a state with \<open>P\<close>, when \<open>m\<close> returns \<open>x\<close>, \<open>Q x\<close> holds of the state it ends in.\<close>

definition ends :: "('s \<Rightarrow> bool) \<Rightarrow> ('s, 'e, 'a) act \<Rightarrow> ('a \<Rightarrow> 's \<Rightarrow> bool) \<Rightarrow> bool" where
  "ends P m Q \<longleftrightarrow> (\<forall>l x l'. P l \<longrightarrow> m l = (Inr x, l') \<longrightarrow> Q x l')"

lemma endsI: "(\<And>l x l'. P l \<Longrightarrow> m l = (Inr x, l') \<Longrightarrow> Q x l') \<Longrightarrow> ends P m Q"
  by (auto simp: ends_def)

lemma endsD: "ends P m Q \<Longrightarrow> P l \<Longrightarrow> m l = (Inr x, l') \<Longrightarrow> Q x l'"
  by (auto simp: ends_def)

lemma ends_bind: "ends P m Q \<Longrightarrow> (\<And>x. ends (Q x) (f x) R) \<Longrightarrow> ends P (act_bind m f) R"
  by (fastforce simp: ends_def act_bind_Inr)

lemma ends_pre: "(\<And>l. P l \<Longrightarrow> P' l) \<Longrightarrow> ends P' m Q \<Longrightarrow> ends P m Q"
  and ends_post: "ends P m Q' \<Longrightarrow> (\<And>x l. Q' x l \<Longrightarrow> Q x l) \<Longrightarrow> ends P m Q"
  by (auto simp: ends_def)

lemma ends_when: "(F \<Longrightarrow> ends P m Q) \<Longrightarrow> ends (\<lambda>l. F \<and> P l) m Q"
  by (auto simp: ends_def)

text \<open>An operation that leaves what \<open>P\<close> looks at alone.\<close>

lemma ends_quiet: "leaves obs m (\<lambda>_. True) \<Longrightarrow> (\<And>l l'. obs l' = obs l \<Longrightarrow> P l \<Longrightarrow> P l') \<Longrightarrow> ends P m (\<lambda>_. P)"
  by (auto simp: ends_def leaves_def)

lemma ends_return: "ends (P x) (act_return x) P"
  and ends_raise: "ends P' (act_raise e) P"
  and ends_get: "ends P'' act_get (\<lambda>l0 l. l0 = l \<and> P'' l)"
  and ends_lift: "ends Q' (act_lift g r) (\<lambda>x l. r = Inr x \<and> Q' l)"
  by (auto simp: ends_def)

lemma ends_get_bind: "(\<And>l. ends P (f l) Q) \<Longrightarrow> ends P (act_bind act_get f) Q"
  by (auto simp: ends_def act_bind_Inr)

lemma ends_lift_bind: "(\<And>x. r = Inr x \<Longrightarrow> ends P (f x) Q) \<Longrightarrow> ends P (act_bind (act_lift g r) f) Q"
  by (auto simp: ends_def act_bind_Inr)

end
