(* ===== verification/Hypotheses.thy ===== *)
theory Hypotheses
  imports Adapter_Run Act
begin

text \<open>
  The hypothesis ledger of the adapter (\<^verbatim>\<open>adapter/hypotheses.py\<close>): generating hypotheses from a
  step's evidence, and applying transition requests (revise, split, merge, weaken, strengthen,
  contradict, kill, promote) to the current revisions.

  Dicts that are shared and later written through are kept in a store: the knowledge-support items
  of a hypothesis are addresses into a list of \<open>support\<close> records (a split child may inherit the
  parent's items, and \<open>_state\<close> writes roles into them). Everything else is copied by the code
  before it is changed and is a value here. An operation is an \<open>act\<close> on the
  ledger, so that what an exception leaves behind in the store is visible. SHA-256 and the JSON Schema validators are parameters (\<open>hyp_env\<close>).
\<close>

section \<open>Data\<close>

datatype hyp_status = H_Proposed | H_Filtered | H_Retained | H_Revised | H_Split | H_Merged | H_Weakened | H_Strengthened
  | H_Contradicted | H_Killed | H_Promoted

datatype hyp_kind = GENERATE | REVISE | SPLIT | MERGE | WEAKEN | STRENGTHEN | CONTRADICT | KILL | PROMOTE

datatype hyp_actor = Theta | Phi | Runtime | Other_Actor string

definition TRANSITION_KINDS :: "(string \<times> hyp_kind) list" where
  "TRANSITION_KINDS = [(''GENERATE'', GENERATE), (''REVISE'', REVISE), (''SPLIT'', SPLIT), (''MERGE'', MERGE), (''WEAKEN'', WEAKEN),
     (''STRENGTHEN'', STRENGTHEN), (''CONTRADICT'', CONTRADICT), (''KILL'', KILL), (''PROMOTE'', PROMOTE)]"

definition THETA_KINDS :: "hyp_kind list" where
  "THETA_KINDS = [GENERATE, REVISE, SPLIT]"

fun RESULTING_STATUS :: "hyp_kind \<Rightarrow> hyp_status" where
  "RESULTING_STATUS GENERATE = H_Proposed"
| "RESULTING_STATUS REVISE = H_Revised"
| "RESULTING_STATUS SPLIT = H_Split"
| "RESULTING_STATUS MERGE = H_Merged"
| "RESULTING_STATUS WEAKEN = H_Weakened"
| "RESULTING_STATUS STRENGTHEN = H_Strengthened"
| "RESULTING_STATUS CONTRADICT = H_Contradicted"
| "RESULTING_STATUS KILL = H_Killed"
| "RESULTING_STATUS PROMOTE = H_Promoted"

definition ABSORBED_STATUSES :: "hyp_status list" where
  "ABSORBED_STATUSES = [H_Killed, H_Merged]"

datatype id_field = Chunk_Id | Document_Id | Graph_Fact_Id | Retrieval_Trace_Id

definition KNOWLEDGE_ID_FIELD :: "(string \<times> id_field) list" where
  "KNOWLEDGE_ID_FIELD = [(''chunk'', Chunk_Id), (''document'', Document_Id), (''parent_map'', Document_Id), (''graph_fact'', Graph_Fact_Id),
     (''graph_hop'', Graph_Fact_Id), (''query_receipt'', Retrieval_Trace_Id)]"

definition CAUSE_KINDS :: "string list" where
  "CAUSE_KINDS = [''chunk'', ''document'', ''graph_fact'', ''graph_hop'', ''parent_map'', ''trail_prior'', ''field_evidence'',
     ''evidence_admission'', ''hypothesis'', ''step_output'']"

record support =
  su_chunk :: "string option"
  su_document :: "string option"
  su_fact :: "string option"
  su_trace :: "string option"
  su_role :: string

record prior =
  po_snapshot :: string
  po_record :: string
  po_role :: string

record gap =
  gq_id :: string
  gq_question :: string
  gq_role :: string
  gq_status :: string

type_synonym contradiction = "string \<times> string list"
type_synonym cause = "string \<times> string"

text \<open>The seven free-text fields a revision may change.\<close>

record hyp_text =
  ht_statement :: json
  ht_mechanism :: json
  ht_population :: json
  ht_activity :: json
  ht_task :: json
  ht_context :: json
  ht_friction :: json

record hyp_state =
  hs_id :: string
  hs_run :: string
  hs_parents :: "string list"
  hs_revision :: int
  hs_text :: hyp_text
  hs_status :: hyp_status
  hs_support :: "nat list"
  hs_priors :: "prior list"
  hs_field :: "string list"
  hs_assumptions :: "string list"
  hs_contradictions :: "contradiction list"
  hs_falsifiers :: "string list"
  hs_gaps :: "gap list"
  hs_created :: string
  hs_updated :: string

record hyp_transition =
  tn_id :: string
  tn_run :: string
  tn_hid :: string
  tn_kind :: hyp_kind
  tn_actor :: hyp_actor
  tn_step :: string
  tn_sequence :: int
  tn_parents :: "string list"
  tn_children :: "string list"
  tn_causes :: "cause list"
  tn_from :: "int option"
  tn_to :: int
  tn_status :: hyp_status
  tn_reason :: string
  tn_receipt_hash :: "string option"
  tn_recorded :: string

section \<open>Proposals and requests\<close>

text \<open>
  What the agent (or a verdict) sends. A field the code reads with \<open>.get(k) or []\<close> is the empty
  list when missing; a text field is \<open>JNull\<close> when missing. \<open>pr_statement\<close> keeps missing apart.
\<close>

record prior_ref =
  pq_record :: string
  pq_role :: "string option"

record gap_request =
  gi_id :: "string option"
  gi_question :: "string option"
  gi_role :: "string option"
  gi_status :: "string option"

type_synonym contradiction_request = "string option \<times> string list"

record hyp_proposal =
  pr_statement :: "json option"
  pr_text :: hyp_text
  pr_supporting :: "string list"
  pr_priors :: "prior_ref list"
  pr_roles :: "(string, string) dict"
  pr_contradictions :: "contradiction_request list"
  pr_gaps :: "gap_request list"
  pr_assumptions :: "string list"
  pr_falsifiers :: "string list"

record hyp_request =
  rq_kind :: string
  rq_hid :: string
  rq_causes :: "cause list"
  rq_reason :: "string option"
  rq_field :: "string list"
  rq_children :: "hyp_proposal list"
  rq_into :: string
  rq_changes :: "(string, json) dict"
  rq_contradictions :: "contradiction_request list"

datatype hyp_label = At_Hypothesis nat | At_Transition nat | At_Child nat nat

datatype hyp_error = Bad_Count nat int | No_Statement nat | No_Citation nat
  | Not_In_Refs hyp_label string | Prior_Cited hyp_label string | Non_Citable hyp_label string string
  | Not_A_Prior string | No_Snapshot
  | Bad_Kind nat string | Unknown_Hypothesis nat string | Absorbed nat string hyp_status | Needs_Phi nat string | Unknown_Actor nat hyp_actor
  | Bad_Cause nat cause | No_Cause nat | Not_Admitted nat string
  | No_Children nat | Too_Many_Hypotheses nat int | Bad_Merge_Target nat string | No_Contradiction nat

datatype hyp_exn = Hypothesis_Rejected "hyp_error list" | Hyp_Contract string "string list" | Stop_Iteration | Key_Error string

record hyp_env =
  he_sha :: "string \<Rightarrow> string"
  he_state :: "support list \<Rightarrow> hyp_state \<Rightarrow> violation list"
  he_transition :: "hyp_transition \<Rightarrow> violation list"

section \<open>Identities\<close>

definition hypothesis_id :: "hyp_env \<Rightarrow> string \<Rightarrow> string \<Rightarrow> nat \<Rightarrow> string" where
  "hypothesis_id env run_id step_id ordinal = ''hyp_'' @ take 24 (he_sha env (py_join (CHR '':'') [run_id, step_id, dec_nat ordinal]))"

definition transition_id :: "hyp_env \<Rightarrow> string \<Rightarrow> string \<Rightarrow> int \<Rightarrow> nat \<Rightarrow> string" where
  "transition_id env run_id hid sequence ordinal =
     ''hxt_'' @ take 24 (he_sha env (py_join (CHR '':'') [run_id, hid, dec_int sequence, dec_nat ordinal]))"

section \<open>The ledger and its actions\<close>

record ledger =
  lg_store :: "support list"
  lg_new :: "(string, hyp_state) dict"
  lg_live :: "(string, hyp_state) dict"
  lg_trans :: "hyp_transition list"
  lg_ordinal :: nat
  lg_errors :: "hyp_error list"

type_synonym 'a lact = "(ledger, hyp_exn, 'a) act"

definition act_errors :: "hyp_error list \<Rightarrow> unit lact" where
  "act_errors es = act_modify (\<lambda>l. l\<lparr>lg_errors := lg_errors l @ es\<rparr>)"

definition act_valid :: "string \<Rightarrow> violation list \<Rightarrow> unit lact" where
  "act_valid name vs = (if vs = [] then act_return () else act_raise (Hyp_Contract name (violations vs)))"

text \<open>New items enter the store at the next addresses.\<close>

definition alloc_items :: "support list \<Rightarrow> nat list lact" where
  "alloc_items items l =
     (Inr [length (lg_store l) ..< length (lg_store l) + length items], l\<lparr>lg_store := lg_store l @ items\<rparr>)"

section \<open>Citations and priors\<close>

definition allowed_refs :: "cause list \<Rightarrow> (string, string) dict" where
  "allowed_refs refs = fold (\<lambda>(k, i). dict_set i k) refs []"

definition knowledge_item :: "id_field \<Rightarrow> string \<Rightarrow> support" where
  "knowledge_item f i =
     (let s = \<lparr>su_chunk = None, su_document = None, su_fact = None, su_trace = None, su_role = ''background''\<rparr>
      in case f of Chunk_Id \<Rightarrow> s\<lparr>su_chunk := Some i\<rparr> | Document_Id \<Rightarrow> s\<lparr>su_document := Some i\<rparr>
         | Graph_Fact_Id \<Rightarrow> s\<lparr>su_fact := Some i\<rparr> | Retrieval_Trace_Id \<Rightarrow> s\<lparr>su_trace := Some i\<rparr>)"

fun split_cited :: "hyp_label \<Rightarrow> (string, string) dict \<Rightarrow> string list \<Rightarrow> support list \<times> string list \<times> cause list \<times> hyp_error list" where
  "split_cited lb allowed [] = ([], [], [], [])"
| "split_cited lb allowed (i # ids) =
     (case split_cited lb allowed ids of (su, fe, ca, er) \<Rightarrow>
        (case map_of allowed i of
           None \<Rightarrow> (su, fe, ca, Not_In_Refs lb i # er)
         | Some k \<Rightarrow>
             if k \<in> set PRIOR_EVIDENCE_KINDS then (su, fe, ca, Prior_Cited lb i # er)
             else if k \<notin> set CITABLE_EVIDENCE_KINDS then (su, fe, ca, Non_Citable lb i k # er)
             else if k = ''field_evidence'' then (su, i # fe, (k, i) # ca, er)
             else (case map_of KNOWLEDGE_ID_FIELD k of
                     Some f \<Rightarrow> (knowledge_item f i # su, fe, (k, i) # ca, er)
                   | None \<Rightarrow> (su, fe, (k, i) # ca, er))))"

fun split_priors :: "prior_ref list \<Rightarrow> (string, string) dict \<Rightarrow> string option \<Rightarrow> prior list \<times> cause list \<times> hyp_error list" where
  "split_priors [] allowed snapshot = ([], [], [])"
| "split_priors (p # ps) allowed snapshot =
     (case split_priors ps allowed snapshot of (out, ca, er) \<Rightarrow>
        if \<not> (case map_of allowed (pq_record p) of None \<Rightarrow> False | Some k \<Rightarrow> k \<in> set PRIOR_EVIDENCE_KINDS)
        then (out, ca, Not_A_Prior (pq_record p) # er)
        else (case snapshot of
                None \<Rightarrow> (out, ca, No_Snapshot # er)
              | Some sid \<Rightarrow>
                  if sid = [] then (out, ca, No_Snapshot # er)
                  else (\<lparr>po_snapshot = sid, po_record = pq_record p,
                          po_role = (case pq_role p of None \<Rightarrow> ''niche_candidate'' | Some r \<Rightarrow> r)\<rparr> # out,
                        (''trail_prior'', pq_record p) # ca, er)))"

section \<open>A state from a proposal\<close>

definition support_id :: "support \<Rightarrow> string option" where
  "support_id s = find (\<lambda>v. v \<noteq> []) (List.map_filter (\<lambda>x. x) [su_chunk s, su_document s, su_fact s, su_trace s])"

text \<open>
  The roles a proposal declares are written into the items, in place. An item without an id makes
  \<open>next\<close> raise \<open>StopIteration\<close>.
\<close>

fun write_roles :: "(string, string) dict \<Rightarrow> nat list \<Rightarrow> unit lact" where
  "write_roles roles [] l = (Inr (), l)"
| "write_roles roles (a # as) l =
     (case support_id (lg_store l ! a) of
        None \<Rightarrow> (Inl Stop_Iteration, l)
      | Some rid \<Rightarrow>
          write_roles roles as
            (case map_of roles rid of
               None \<Rightarrow> l
             | Some r \<Rightarrow> l\<lparr>lg_store := (lg_store l)[a := (lg_store l ! a)\<lparr>su_role := r\<rparr>]\<rparr>))"

definition cited_contradictions :: "string \<Rightarrow> contradiction_request list \<Rightarrow> contradiction list" where
  "cited_contradictions dflt cs = map (\<lambda>(s, ids). (or_str s dflt, ids)) (filter (\<lambda>(s, ids). ids \<noteq> []) cs)"

definition open_gaps :: "string \<Rightarrow> gap_request list \<Rightarrow> gap list" where
  "open_gaps hid gs =
     map (\<lambda>(n, g). \<lparr>gq_id = or_str (gi_id g) (''gap_'' @ take 8 (drop 4 hid) @ ''_'' @ dec_nat n),
                    gq_question = or_str (gi_question g) [],
                    gq_role = (case gi_role g of None \<Rightarrow> ''behavior'' | Some r \<Rightarrow> r),
                    gq_status = (case gi_status g of None \<Rightarrow> ''open'' | Some r \<Rightarrow> r)\<rparr>)
       (filter (\<lambda>(n, g). some_str (gi_question g)) (enumerate 0 gs))"

definition ledger_state :: "string \<Rightarrow> string \<Rightarrow> hyp_proposal \<Rightarrow> json \<Rightarrow> string list \<Rightarrow> nat list \<Rightarrow> prior list \<Rightarrow> string list \<Rightarrow> string \<Rightarrow> hyp_state lact" where
  "ledger_state hid run_id p statement parents addrs priors field recorded =
     act_bind (write_roles (pr_roles p) addrs) (\<lambda>_.
       act_return \<lparr>hs_id = hid, hs_run = run_id, hs_parents = parents, hs_revision = 0,
         hs_text = (pr_text p)\<lparr>ht_statement := statement\<rparr>, hs_status = H_Proposed, hs_support = addrs, hs_priors = priors,
         hs_field = sorted_set field, hs_assumptions = pr_assumptions p,
         hs_contradictions = cited_contradictions ''cited contradicting evidence'' (pr_contradictions p),
         hs_falsifiers = pr_falsifiers p, hs_gaps = open_gaps hid (pr_gaps p), hs_created = recorded, hs_updated = recorded\<rparr>)"

definition make_transition :: "hyp_env \<Rightarrow> string \<Rightarrow> string \<Rightarrow> hyp_kind \<Rightarrow> hyp_actor \<Rightarrow> issued_step \<Rightarrow> nat \<Rightarrow> string list \<Rightarrow> string list \<Rightarrow> cause list
    \<Rightarrow> int option \<Rightarrow> int \<Rightarrow> hyp_status \<Rightarrow> string \<Rightarrow> string \<Rightarrow> hyp_transition lact" where
  "make_transition env run_id hid kind actor stp ordinal parents children causes from_rev to_rev status reason recorded =
     (let t = \<lparr>tn_id = transition_id env run_id hid (is_sequence stp) ordinal, tn_run = run_id, tn_hid = hid, tn_kind = kind, tn_actor = actor,
         tn_step = is_step_id stp, tn_sequence = is_sequence stp, tn_parents = parents, tn_children = children, tn_causes = causes,
         tn_from = from_rev, tn_to = to_rev, tn_status = status, tn_reason = reason, tn_receipt_hash = None, tn_recorded = recorded\<rparr>
      in act_bind (act_valid ''hypothesis_transition'' (he_transition env t)) (\<lambda>_. act_return t))"

definition act_ordinal :: "nat lact" where
  "act_ordinal l = (Inr (lg_ordinal l), l)"

text \<open>\<open>transitions.append(...); ordinal += 1\<close>.\<close>

definition emit :: "hyp_env \<Rightarrow> string \<Rightarrow> string \<Rightarrow> hyp_kind \<Rightarrow> hyp_actor \<Rightarrow> issued_step \<Rightarrow> string list \<Rightarrow> string list \<Rightarrow> cause list
    \<Rightarrow> int option \<Rightarrow> int \<Rightarrow> hyp_status \<Rightarrow> string \<Rightarrow> string \<Rightarrow> unit lact" where
  "emit env run_id hid kind actor stp parents children causes from_rev to_rev status reason recorded =
     act_bind act_ordinal (\<lambda>n.
     act_bind (make_transition env run_id hid kind actor stp n parents children causes from_rev to_rev status reason recorded) (\<lambda>t.
       act_modify (\<lambda>l. l\<lparr>lg_trans := lg_trans l @ [t], lg_ordinal := lg_ordinal l + 1\<rparr>)))"

definition newest :: "ledger \<Rightarrow> string \<Rightarrow> hyp_state option" where
  "newest l hid = (case map_of (lg_new l) hid of Some s \<Rightarrow> Some s | None \<Rightarrow> map_of (lg_live l) hid)"

text \<open>\<open>bump\<close>: one new revision per hypothesis and call, however often it is changed in the call.\<close>

definition bump_revision :: "string \<Rightarrow> string \<Rightarrow> (hyp_state \<Rightarrow> hyp_state) \<Rightarrow> hyp_state lact" where
  "bump_revision recorded hid changes l =
     (case newest l hid of
        None \<Rightarrow> (Inl (Key_Error hid), l)
      | Some base \<Rightarrow>
          let st = (changes base)\<lparr>hs_revision := hs_revision base + (if hid \<in> fst ` set (lg_new l) then 0 else 1), hs_updated := recorded\<rparr>
          in (Inr st, l\<lparr>lg_new := dict_set hid st (lg_new l)\<rparr>))"

definition act_state_valid :: "hyp_env \<Rightarrow> hyp_state \<Rightarrow> unit lact" where
  "act_state_valid env st l = act_valid ''hypothesis_state'' (he_state env (map ((!) (lg_store l)) (hs_support st)) st) l"

section \<open>Generating hypotheses\<close>

text \<open>A statement is blank when it is missing or a string of white space; any other value has a non-blank \<open>str()\<close>.\<close>

definition blank_statement :: "json option \<Rightarrow> bool" where
  "blank_statement x = (case x of None \<Rightarrow> True | Some (JString s) \<Rightarrow> py_strip s = [] | Some _ \<Rightarrow> False)"

definition key_refs :: "ev_ref list \<Rightarrow> hyp_exn + cause list" where
  "key_refs refs = collect (\<lambda>r. case er_kind r of None \<Rightarrow> Inl (Key_Error ''kind'') | Some k \<Rightarrow> Inr (Some (k, er_id r))) refs"

definition generate_one :: "hyp_env \<Rightarrow> string \<Rightarrow> issued_step \<Rightarrow> (string, string) dict \<Rightarrow> string option \<Rightarrow> string \<Rightarrow> string list \<Rightarrow> nat
    \<Rightarrow> nat \<Rightarrow> hyp_proposal option \<Rightarrow> unit lact" where
  "generate_one env run_id stp allowed snapshot recorded parents ordinal_base n proposal =
     (case proposal of None \<Rightarrow> act_errors [No_Statement n]
      | Some p \<Rightarrow>
          if blank_statement (pr_statement p) then act_errors [No_Statement n]
          else (case (split_cited (At_Hypothesis n) allowed (pr_supporting p), split_priors (pr_priors p) allowed snapshot) of
            ((items, field, causes, er), (priors, pcauses, per)) \<Rightarrow>
              act_bind (act_errors (er @ per)) (\<lambda>_.
              if causes = [] then act_errors [No_Citation n]
              else
                let hid = hypothesis_id env run_id (is_step_id stp) (ordinal_base + n) in
                act_bind (alloc_items items) (\<lambda>addrs.
                act_bind (ledger_state hid run_id p (case pr_statement p of None \<Rightarrow> JNull | Some s \<Rightarrow> s) parents addrs priors field recorded) (\<lambda>st.
                act_bind (act_state_valid env st) (\<lambda>_.
                act_bind (act_modify (\<lambda>l. l\<lparr>lg_new := lg_new l @ [(hid, st)]\<rparr>)) (\<lambda>_.
                act_bind (make_transition env run_id hid GENERATE Theta stp n parents [] (causes @ pcauses) None 0 H_Proposed ''THETA_GENERATED'' recorded) (\<lambda>t.
                  act_modify (\<lambda>l. l\<lparr>lg_trans := lg_trans l @ [t]\<rparr>)))))))))"

definition ledger_init :: "support list \<Rightarrow> (string, hyp_state) dict \<Rightarrow> ledger" where
  "ledger_init store live = \<lparr>lg_store = store, lg_new = [], lg_live = live, lg_trans = [], lg_ordinal = 0, lg_errors = []\<rparr>"

text \<open>The common end: collected errors are raised, else the new states and transitions are returned.\<close>

definition ledger_result :: "(hyp_state list \<times> hyp_transition list) lact" where
  "ledger_result l =
     (if lg_errors l \<noteq> [] then (Inl (Hypothesis_Rejected (lg_errors l)), l) else (Inr (map snd (lg_new l), lg_trans l), l))"

definition generate :: "hyp_env \<Rightarrow> string \<Rightarrow> issued_step \<Rightarrow> hyp_proposal option list \<Rightarrow> string option \<Rightarrow> string \<Rightarrow> int \<Rightarrow> string list \<Rightarrow> nat
    \<Rightarrow> (hyp_state list \<times> hyp_transition list) lact" where
  "generate env run_id stp proposals snapshot recorded max_hypotheses parents ordinal_base =
     (case key_refs (cx_evidence_refs (is_context stp)) of
        Inl e \<Rightarrow> act_raise e
      | Inr refs \<Rightarrow>
          act_bind (if proposals = [] \<or> max_hypotheses < int (length proposals)
                    then act_errors [Bad_Count (length proposals) max_hypotheses] else act_return ()) (\<lambda>_.
          act_bind (act_each (generate_one env run_id stp (allowed_refs refs) snapshot recorded parents ordinal_base) 0 proposals) (\<lambda>_.
            ledger_result)))"

section \<open>Transition requests\<close>

fun check_causes :: "nat \<Rightarrow> (string, string) dict \<Rightarrow> cause list \<Rightarrow> cause list \<times> hyp_error list" where
  "check_causes n allowed [] = ([], [])"
| "check_causes n allowed ((k, i) # cs) =
     (case check_causes n allowed cs of (ok, er) \<Rightarrow>
        if k \<notin> set CAUSE_KINDS \<or> map_of allowed i \<noteq> Some k then (ok, Bad_Cause n (k, i) # er) else ((k, i) # ok, er))"

fun check_field :: "nat \<Rightarrow> (string, string) dict \<Rightarrow> string list \<Rightarrow> string list \<times> hyp_error list" where
  "check_field n allowed [] = ([], [])"
| "check_field n allowed (f # fs) =
     (case check_field n allowed fs of (ok, er) \<Rightarrow>
        if map_of allowed f \<noteq> Some ''field_evidence'' then (ok, Not_Admitted n f # er) else (f # ok, er))"

definition revise_text :: "(string, json) dict \<Rightarrow> hyp_text \<Rightarrow> hyp_text" where
  "revise_text ch t =
     (let put = (\<lambda>k old. case map_of ch k of None \<Rightarrow> old | Some v \<Rightarrow> v) in
      \<lparr>ht_statement = put ''statement'' (ht_statement t), ht_mechanism = put ''mechanism'' (ht_mechanism t),
       ht_population = put ''population'' (ht_population t), ht_activity = put ''activity'' (ht_activity t),
       ht_task = put ''task'' (ht_task t), ht_context = put ''context'' (ht_context t),
       ht_friction = put ''suspected_friction'' (ht_friction t)\<rparr>)"

fun actor_upper :: "hyp_actor \<Rightarrow> string" where
  "actor_upper Theta = ''THETA''"
| "actor_upper Phi = ''PHI''"
| "actor_upper Runtime = ''RUNTIME''"
| "actor_upper (Other_Actor s) = s"

text \<open>The fixed arguments of one call of \<open>apply\<close>.\<close>

record apply_call =
  ac_env :: hyp_env
  ac_run :: string
  ac_step :: issued_step
  ac_actor :: hyp_actor
  ac_allowed :: "(string, string) dict"
  ac_recorded :: string
  ac_max :: int

definition call_emit :: "apply_call \<Rightarrow> string \<Rightarrow> hyp_kind \<Rightarrow> string list \<Rightarrow> string list \<Rightarrow> cause list \<Rightarrow> int option \<Rightarrow> int \<Rightarrow> hyp_status \<Rightarrow> string \<Rightarrow> unit lact" where
  "call_emit c hid kind parents children causes from_rev to_rev status reason =
     emit (ac_env c) (ac_run c) hid kind (ac_actor c) (ac_step c) parents children causes from_rev to_rev status reason (ac_recorded c)"

definition child_id :: "apply_call \<Rightarrow> nat \<Rightarrow> nat \<Rightarrow> string" where
  "child_id c n k = hypothesis_id (ac_env c) (ac_run c) (is_step_id (ac_step c)) (100 * (n + 1) + k)"

definition split_child :: "apply_call \<Rightarrow> nat \<Rightarrow> hyp_state \<Rightarrow> string \<Rightarrow> cause list \<Rightarrow> string \<Rightarrow> nat \<Rightarrow> hyp_proposal \<Rightarrow> unit lact" where
  "split_child c n prev hid causes reason k child =
     (let cid = child_id c n k in
      case split_cited (At_Child n k) (allowed_refs (map (\<lambda>(i, v). (v, i)) (ac_allowed c))) (pr_supporting child) of (cs, cf, cc, er) \<Rightarrow>
      act_bind (act_errors er) (\<lambda>_.
      act_bind (if cs \<noteq> [] then alloc_items cs else act_return (hs_support prev)) (\<lambda>addrs.
      act_bind (ledger_state cid (ac_run c) child
                 (case pr_statement child of None \<Rightarrow> ht_statement (hs_text prev) | Some s \<Rightarrow> if truthy s then s else ht_statement (hs_text prev))
                 [hid] addrs (hs_priors prev) (cf @ hs_field prev) (ac_recorded c)) (\<lambda>st.
      act_bind (act_state_valid (ac_env c) st) (\<lambda>_.
      act_bind (act_modify (\<lambda>l. l\<lparr>lg_new := dict_set cid st (lg_new l), lg_live := dict_set cid st (lg_live l)\<rparr>)) (\<lambda>_.
        call_emit c cid GENERATE [hid] [] (causes @ [(''hypothesis'', hid)] @ cc) None 0 H_Proposed reason))))))"

definition apply_split :: "apply_call \<Rightarrow> nat \<Rightarrow> hyp_request \<Rightarrow> hyp_state \<Rightarrow> cause list \<Rightarrow> string \<Rightarrow> unit lact" where
  "apply_split c n rq prev causes reason l =
     (if rq_children rq = [] then act_errors [No_Children n] l
      else if ac_max c < int (length (lg_live l) + length (rq_children rq)) then act_errors [Too_Many_Hypotheses n (ac_max c)] l
      else
        act_bind (act_each (split_child c n prev (rq_hid rq) causes reason) 0 (rq_children rq)) (\<lambda>_.
        act_bind (bump_revision (ac_recorded c) (rq_hid rq) (\<lambda>s. s\<lparr>hs_status := H_Split\<rparr>)) (\<lambda>st.
          call_emit c (rq_hid rq) SPLIT (hs_parents prev) (map (child_id c n) [0 ..< length (rq_children rq)]) causes
            (Some (hs_revision prev)) (hs_revision st) H_Split reason)) l)"

definition revised_status :: "hyp_status \<Rightarrow> hyp_status" where
  "revised_status s = (if s \<noteq> H_Proposed then s else H_Revised)"

text \<open>\<open>[s for s in mine if s not in theirs]\<close> compares the items by value.\<close>

definition merged_support :: "support list \<Rightarrow> nat list \<Rightarrow> nat list \<Rightarrow> nat list" where
  "merged_support store theirs mine = theirs @ filter (\<lambda>a. store ! a \<notin> (!) store ` set theirs) mine"

definition merge_into :: "support list \<Rightarrow> hyp_state \<Rightarrow> hyp_state \<Rightarrow> string \<Rightarrow> string list \<Rightarrow> hyp_state \<Rightarrow> hyp_state" where
  "merge_into store tgt prev hid field_add s = s\<lparr>
     hs_parents := sorted_set (hs_parents tgt @ [hid]),
     hs_support := merged_support store (hs_support tgt) (hs_support prev),
     hs_field := sorted_set (hs_field tgt @ hs_field prev @ field_add),
     hs_contradictions := hs_contradictions tgt @ filter (\<lambda>x. x \<notin> set (hs_contradictions tgt)) (hs_contradictions prev)\<rparr>"

definition apply_merge :: "apply_call \<Rightarrow> nat \<Rightarrow> hyp_request \<Rightarrow> hyp_state \<Rightarrow> cause list \<Rightarrow> string \<Rightarrow> string list \<Rightarrow> unit lact" where
  "apply_merge c n rq prev causes reason field_add l =
     (let into = rq_into rq; hid = rq_hid rq in
      case (if map_of (lg_live l) into = None then None else newest l into) of
        None \<Rightarrow> act_errors [Bad_Merge_Target n into] l
      | Some tgt \<Rightarrow>
          if into = hid \<or> hs_status tgt \<in> set ABSORBED_STATUSES then act_errors [Bad_Merge_Target n into] l
          else
            act_bind (bump_revision (ac_recorded c) into (merge_into (lg_store l) tgt prev hid field_add)) (\<lambda>t2.
            act_bind (act_state_valid (ac_env c) t2) (\<lambda>_.
            act_bind (call_emit c into REVISE (hs_parents t2) [] (causes @ [(''hypothesis'', hid)]) (Some (hs_revision tgt)) (hs_revision t2)
                       (revised_status (hs_status t2)) ''MERGED_IN'') (\<lambda>_.
            act_bind (act_modify (\<lambda>l. l\<lparr>lg_new := dict_set into (t2\<lparr>hs_status := revised_status (hs_status t2)\<rparr>) (lg_new l)\<rparr>)) (\<lambda>_.
            act_bind (bump_revision (ac_recorded c) hid (\<lambda>s. s\<lparr>hs_status := H_Merged\<rparr>)) (\<lambda>st.
              call_emit c hid MERGE (hs_parents prev) [into] causes (Some (hs_revision prev)) (hs_revision st) H_Merged reason))))) l)"

definition plain_change :: "hyp_request \<Rightarrow> hyp_kind \<Rightarrow> hyp_state \<Rightarrow> contradiction list \<Rightarrow> string list \<Rightarrow> hyp_state \<Rightarrow> hyp_state" where
  "plain_change rq kind prev contra field_add s = s\<lparr>
     hs_status := RESULTING_STATUS kind,
     hs_text := (if kind = REVISE then revise_text (rq_changes rq) (hs_text s) else hs_text s),
     hs_contradictions := (if kind = CONTRADICT then hs_contradictions prev @ contra else hs_contradictions s),
     hs_field := (if field_add \<noteq> [] then sorted_set (hs_field prev @ field_add) else hs_field s)\<rparr>"

definition apply_plain :: "apply_call \<Rightarrow> nat \<Rightarrow> hyp_request \<Rightarrow> hyp_kind \<Rightarrow> hyp_state \<Rightarrow> cause list \<Rightarrow> string \<Rightarrow> string list \<Rightarrow> unit lact" where
  "apply_plain c n rq kind prev causes reason field_add =
     (let contra = cited_contradictions ''contradicting evidence admitted'' (rq_contradictions rq) in
      if kind = CONTRADICT \<and> contra = [] then act_errors [No_Contradiction n]
      else
        act_bind (bump_revision (ac_recorded c) (rq_hid rq) (plain_change rq kind prev contra field_add)) (\<lambda>st.
        act_bind (act_state_valid (ac_env c) st) (\<lambda>_.
          call_emit c (rq_hid rq) kind (hs_parents st) [] causes (Some (hs_revision prev)) (hs_revision st) (hs_status st) reason)))"

definition apply_request :: "apply_call \<Rightarrow> nat \<Rightarrow> hyp_request \<Rightarrow> unit lact" where
  "apply_request c n rq l =
     (let hid = rq_hid rq in
      case map_of TRANSITION_KINDS (rq_kind rq) of
        None \<Rightarrow> act_errors [Bad_Kind n (rq_kind rq)] l
      | Some kind \<Rightarrow>
      if kind = GENERATE then act_errors [Bad_Kind n (rq_kind rq)] l
      else (case (map_of (lg_live l) hid, newest l hid) of
        (Some old, Some prev) \<Rightarrow>
          if hs_status prev \<in> set ABSORBED_STATUSES then act_errors [Absorbed n hid (hs_status old)] l
          else if ac_actor c = Theta \<and> kind \<notin> set THETA_KINDS then act_errors [Needs_Phi n (rq_kind rq)] l
          else if ac_actor c \<notin> {Theta, Phi, Runtime} then act_errors [Unknown_Actor n (ac_actor c)] l
          else (case (check_causes n (ac_allowed c) (rq_causes rq), check_field n (ac_allowed c) (rq_field rq)) of
            ((causes, cer), (field_add, fer)) \<Rightarrow>
              if causes = [] then act_errors (cer @ [No_Cause n]) l
              else
                let reason = or_str (rq_reason rq) (actor_upper (ac_actor c) @ ''_'' @ rq_kind rq) in
                act_bind (act_errors (cer @ fer)) (\<lambda>_.
                  if kind = SPLIT then apply_split c n rq prev causes reason
                  else if kind = MERGE then apply_merge c n rq prev causes reason field_add
                  else apply_plain c n rq kind prev causes reason field_add) l)
      | _ \<Rightarrow> act_errors [Unknown_Hypothesis n hid] l))"

definition apply_requests :: "apply_call \<Rightarrow> support list \<Rightarrow> (string, hyp_state) dict \<Rightarrow> hyp_request list
    \<Rightarrow> (hyp_exn + hyp_state list \<times> hyp_transition list) \<times> ledger" where
  "apply_requests c store current requests =
     act_bind (act_each (apply_request c) 0 requests) (\<lambda>_. ledger_result) (ledger_init store current)"

section \<open>Views\<close>

definition context_view :: "(string, hyp_state) dict \<Rightarrow> (string \<times> int \<times> hyp_status \<times> json) list" where
  "context_view current =
     map (\<lambda>(h, s). (h, hs_revision s, hs_status s, ht_statement (hs_text s))) (filter (\<lambda>(h, s). hs_status s \<notin> set ABSORBED_STATUSES) current)"

datatype lineage_error = Without_Cause string | Unproduced string int | Lost_Parent string string

definition lineage_intact :: "hyp_state list \<Rightarrow> hyp_transition list \<Rightarrow> lineage_error list" where
  "lineage_intact states transitions =
     map (\<lambda>t. Without_Cause (tn_id t)) (filter (\<lambda>t. tn_causes t = []) transitions) @
     concat (map (\<lambda>s.
       let own = filter (\<lambda>t. tn_hid t = hs_id s) transitions in
       (if hs_revision s \<notin> tn_to ` set own then [Unproduced (hs_id s) (hs_revision s)] else []) @
       concat (map (\<lambda>t. map (Lost_Parent (hs_id s)) (filter (\<lambda>p. p \<notin> set (hs_parents s) \<and> tn_kind t = GENERATE) (tn_parents t))) own)) states)"

end
