(* ===== verification/Adapter_Store.thy ===== *)
theory Adapter_Store
  imports Hypotheses
begin

text \<open>
  The durable tables of the adapter (\<^verbatim>\<open>adapter/store.py\<close>, with the keys of its migrations): runs with
  their lease, issued steps, hypothesis revisions and transitions, harness actions, admitted
  evidence and results. A table is the list of its rows in insertion order; a statement is a
  function on it; \<open>now()\<close> is an argument. JSON columns hold the value that was written: the key order
  that JSONB does not keep is not modelled (the run keeps its own \<open>output_order\<close>).
\<close>

section \<open>Rows\<close>

datatype step_status = Step_Issued | Step_Accepted | Step_Rejected | Step_Executed | Step_Failed | Step_Skipped

datatype action_status = Act_Issued | Act_Received | Act_Admitted | Act_Rejected

text \<open>What a receipt lists under \<open>validation.errors\<close>.\<close>

datatype receipt_error = Sub_Error rejection | Ledger_Error hyp_error | Message string

record step_receipt =
  rc_run :: string
  rc_step :: string
  rc_type :: string
  rc_sequence :: int
  rc_status :: step_status
  rc_started :: string
  rc_ended :: string
  rc_wall_ms :: int
  rc_evidence :: "string list"
  rc_external :: "string list"
  rc_model :: "string option"
  rc_ok :: bool
  rc_errors :: "receipt_error list"
  rc_failure :: "(string \<times> string) option"
  rc_hash :: string
  rc_transitions :: "string list option"
  rc_harness_hash :: "string option"
  rc_admission :: "string option"

record run_row =
  rw_state :: run_state
  rw_identity :: manifest_identity
  rw_key :: "string option"
  rw_agent :: "string option"
  rw_created :: instant
  rw_updated :: instant
  rw_terminal :: "instant option"
  rw_owner :: "string option"
  rw_expires :: "instant option"

record step_row =
  sw_run :: string
  sw_sequence :: int
  sw_status :: step_status
  sw_step :: issued_step
  sw_submission :: "submission option"
  sw_output :: "json option"
  sw_receipt :: "step_receipt option"
  sw_external :: "(string, json) dict option"
  sw_ended :: "instant option"

text \<open>A stored revision holds its knowledge items by value.\<close>

record hyp_row =
  hr_state :: hyp_state
  hr_items :: "support list"

record action_row =
  xa_id :: string
  xa_run :: string
  xa_step :: string
  xa_sequence :: int
  xa_status :: action_status
  xa_action :: "(string, json) dict"
  xa_receipt :: "json option"
  xa_receipt_hash :: "string option"
  xa_admission :: "string option"

record admitted_item =
  am_evidence :: string
  am_observation :: string
  am_role :: string
  am_polarity :: string
  am_group :: string
  am_hypotheses :: "string list"

record admission =
  ad_run :: string
  ad_action :: string
  ad_id :: string
  ad_admitted :: "admitted_item list"

record evidence_row =
  ev_item :: admitted_item
  ev_run :: string
  ev_action :: string
  ev_admission :: string
  ev_at :: instant

record adapter_result =
  ar_run :: string
  ar_identity :: manifest_identity
  ar_status :: run_status
  ar_started :: instant
  ar_terminal :: "instant option"
  ar_output :: "(string, json) dict"
  ar_evidence :: "string list"
  ar_queries :: "string list"
  ar_receipts :: "string list"
  ar_externals :: "json list"
  ar_hypotheses :: "string list"
  ar_admitted :: "string list"
  ar_actions :: "string list"
  ar_harnesses :: "string list"
  ar_snapshots :: "string list"
  ar_scores :: "string list"
  ar_contradictions :: "json list"
  ar_unknowns :: "json list"
  ar_gap :: "gap_info option"
  ar_agent :: "string option"

record adapter_db =
  db_runs :: "run_row list"
  db_steps :: "step_row list"
  db_hyps :: "hyp_row list"
  db_trans :: "hyp_transition list"
  db_actions :: "action_row list"
  db_evidence :: "evidence_row list"
  db_results :: "(string \<times> adapter_result \<times> string) list"

section \<open>Runs\<close>

abbreviation row_run :: "run_row \<Rightarrow> string" where
  "row_run r \<equiv> rs_run_id (rw_state r)"

text \<open>\<open>None\<close> is the violation of the primary key or of the unique idempotency key.\<close>

definition insert_run :: "instant \<Rightarrow> run_state \<Rightarrow> manifest \<Rightarrow> string option \<Rightarrow> string option \<Rightarrow> adapter_db \<Rightarrow> adapter_db option" where
  "insert_run now s m key agent db =
     (if list_ex (\<lambda>r. row_run r = rs_run_id s \<or> (key \<noteq> None \<and> rw_key r = key)) (db_runs db) then None
      else Some (db\<lparr>db_runs := db_runs db @ [\<lparr>rw_state = s, rw_identity = mf_identity m, rw_key = key, rw_agent = agent, rw_created = now,
             rw_updated = now, rw_terminal = None, rw_owner = None, rw_expires = None\<rparr>]\<rparr>))"

definition find_run_by_idempotency :: "string \<Rightarrow> adapter_db \<Rightarrow> string option" where
  "find_run_by_idempotency key db = map_option row_run (find (\<lambda>r. rw_key r = Some key) (db_runs db))"

definition load_run :: "string \<Rightarrow> adapter_db \<Rightarrow> run_row option" where
  "load_run run_id db = find (\<lambda>r. row_run r = run_id) (db_runs db)"

definition update_runs :: "(run_row \<Rightarrow> bool) \<Rightarrow> (run_row \<Rightarrow> run_row) \<Rightarrow> adapter_db \<Rightarrow> adapter_db" where
  "update_runs P f db = db\<lparr>db_runs := map (\<lambda>r. if P r then f r else r) (db_runs db)\<rparr>"

text \<open>The input, the options and the adapter of a run are written once; \<open>terminal_at\<close> is set once.\<close>

definition save_state :: "instant \<Rightarrow> run_state \<Rightarrow> adapter_db \<Rightarrow> adapter_db" where
  "save_state now s = update_runs (\<lambda>r. row_run r = rs_run_id s)
     (\<lambda>r. r\<lparr>rw_state := s\<lparr>rs_adapter_id := rs_adapter_id (rw_state r), rs_input := rs_input (rw_state r), rs_options := rs_options (rw_state r)\<rparr>,
            rw_updated := now,
            rw_terminal := (if is_terminal s \<and> rw_terminal r = None then Some now else rw_terminal r)\<rparr>)"

section \<open>Steps\<close>

definition insert_step :: "issued_step \<Rightarrow> adapter_db \<Rightarrow> adapter_db option" where
  "insert_step stp db =
     (if list_ex (\<lambda>w. sw_run w = is_run_id stp \<and> sw_sequence w = is_sequence stp) (db_steps db) then None
      else Some (db\<lparr>db_steps := db_steps db @ [\<lparr>sw_run = is_run_id stp, sw_sequence = is_sequence stp, sw_status = Step_Issued, sw_step = stp,
             sw_submission = None, sw_output = None, sw_receipt = None, sw_external = None, sw_ended = None\<rparr>]\<rparr>))"

text \<open>\<open>ORDER BY sequence DESC LIMIT 1\<close>; the sequence is unique per run.\<close>

definition current_step :: "string \<Rightarrow> adapter_db \<Rightarrow> step_row option" where
  "current_step run_id db =
     (case filter (\<lambda>w. sw_run w = run_id) (db_steps db) of [] \<Rightarrow> None | w # ws \<Rightarrow> Some (py_max sw_sequence w ws))"

definition list_steps :: "string \<Rightarrow> adapter_db \<Rightarrow> step_row list" where
  "list_steps run_id db = sort_key sw_sequence (filter (\<lambda>w. sw_run w = run_id) (db_steps db))"

definition coalesce :: "'a option \<Rightarrow> 'a option \<Rightarrow> 'a option" where
  "coalesce x y = (case x of None \<Rightarrow> y | Some _ \<Rightarrow> x)"

definition finish_step :: "instant \<Rightarrow> string \<Rightarrow> int \<Rightarrow> step_status \<Rightarrow> step_receipt option \<Rightarrow> json option \<Rightarrow> submission option
    \<Rightarrow> (string, json) dict option \<Rightarrow> adapter_db \<Rightarrow> adapter_db" where
  "finish_step now run_id sequence status receipt out sub external db =
     db\<lparr>db_steps := map (\<lambda>w. if sw_run w = run_id \<and> sw_sequence w = sequence
        then w\<lparr>sw_status := status, sw_receipt := coalesce receipt (sw_receipt w), sw_output := coalesce out (sw_output w),
               sw_submission := coalesce sub (sw_submission w),
               sw_external := coalesce (case external of Some [] \<Rightarrow> None | x \<Rightarrow> x) (sw_external w),
               sw_ended := (if status \<in> {Step_Accepted, Step_Executed, Step_Failed, Step_Skipped} then Some now else sw_ended w)\<rparr>
        else w) (db_steps db)\<rparr>"

definition insert_result :: "string \<Rightarrow> adapter_result \<Rightarrow> string \<Rightarrow> adapter_db \<Rightarrow> adapter_db" where
  "insert_result run_id res result_hash db =
     (if list_ex (\<lambda>(r, _). r = run_id) (db_results db) then db else db\<lparr>db_results := db_results db @ [(run_id, res, result_hash)]\<rparr>)"

definition load_result :: "string \<Rightarrow> adapter_db \<Rightarrow> adapter_result option" where
  "load_result run_id db = map_option fst (map_of (db_results db) run_id)"

section \<open>Hypotheses\<close>

definition insert_revision :: "support list \<Rightarrow> hyp_state \<Rightarrow> hyp_row list \<Rightarrow> hyp_row list" where
  "insert_revision store s rows =
     (if list_ex (\<lambda>r. hs_id (hr_state r) = hs_id s \<and> hs_revision (hr_state r) = hs_revision s) rows then rows
      else rows @ [\<lparr>hr_state = s, hr_items = map ((!) store) (hs_support s)\<rparr>])"

definition insert_hypothesis_revisions :: "support list \<Rightarrow> hyp_state list \<Rightarrow> adapter_db \<Rightarrow> adapter_db" where
  "insert_hypothesis_revisions store states db = db\<lparr>db_hyps := fold (insert_revision store) states (db_hyps db)\<rparr>"

definition insert_transition :: "hyp_transition \<Rightarrow> hyp_transition list \<Rightarrow> hyp_transition list" where
  "insert_transition t ts = (if list_ex (\<lambda>u. tn_id u = tn_id t) ts then ts else ts @ [t])"

definition insert_transitions :: "hyp_transition list \<Rightarrow> adapter_db \<Rightarrow> adapter_db" where
  "insert_transitions ts db = db\<lparr>db_trans := fold insert_transition ts (db_trans db)\<rparr>"

text \<open>The newest revision of each hypothesis of the run, in the order the hypotheses were first inserted.\<close>

definition newer_row :: "hyp_row \<Rightarrow> (string, hyp_row) dict \<Rightarrow> (string, hyp_row) dict" where
  "newer_row r out =
     (case map_of out (hs_id (hr_state r)) of
        None \<Rightarrow> dict_set (hs_id (hr_state r)) r out
      | Some old \<Rightarrow> if hs_revision (hr_state old) < hs_revision (hr_state r) then dict_set (hs_id (hr_state r)) r out else out)"

definition newest_rows :: "string \<Rightarrow> hyp_row list \<Rightarrow> (string, hyp_row) dict" where
  "newest_rows run_id rows = fold newer_row (filter (\<lambda>r. hs_run (hr_state r) = run_id) rows) []"

text \<open>Loading gives every revision items of its own.\<close>

fun load_rows :: "(string, hyp_row) dict \<Rightarrow> support list \<Rightarrow> support list \<times> (string, hyp_state) dict" where
  "load_rows [] store = (store, [])"
| "load_rows ((h, r) # rows) store =
     (case load_rows rows (store @ hr_items r) of (store', cur) \<Rightarrow>
        (store', (h, (hr_state r)\<lparr>hs_support := [length store ..< length store + length (hr_items r)]\<rparr>) # cur))"

definition current_hypotheses :: "string \<Rightarrow> adapter_db \<Rightarrow> support list \<times> (string, hyp_state) dict" where
  "current_hypotheses run_id db = load_rows (newest_rows run_id (db_hyps db)) []"

definition list_transitions :: "string \<Rightarrow> adapter_db \<Rightarrow> hyp_transition list" where
  "list_transitions run_id db = sort_key (\<lambda>t. (tn_sequence t, tn_id t)) (filter (\<lambda>t. tn_run t = run_id) (db_trans db))"

section \<open>Harness actions and admitted evidence\<close>

definition insert_harness_action :: "string \<Rightarrow> string \<Rightarrow> string \<Rightarrow> (string, json) dict \<Rightarrow> int \<Rightarrow> adapter_db \<Rightarrow> adapter_db" where
  "insert_harness_action action_id run_id step_id action sequence db =
     (if list_ex (\<lambda>a. xa_id a = action_id) (db_actions db) then db
      else db\<lparr>db_actions := db_actions db @ [\<lparr>xa_id = action_id, xa_run = run_id, xa_step = step_id, xa_sequence = sequence,
        xa_status = Act_Issued, xa_action = action, xa_receipt = None, xa_receipt_hash = None, xa_admission = None\<rparr>]\<rparr>)"

definition update_action :: "string \<Rightarrow> (action_row \<Rightarrow> action_row) \<Rightarrow> adapter_db \<Rightarrow> adapter_db" where
  "update_action action_id f db = db\<lparr>db_actions := map (\<lambda>a. if xa_id a = action_id then f a else a) (db_actions db)\<rparr>"

definition record_receipt :: "string \<Rightarrow> json \<Rightarrow> string \<Rightarrow> adapter_db \<Rightarrow> adapter_db" where
  "record_receipt action_id receipt receipt_hash =
     update_action action_id (\<lambda>a. a\<lparr>xa_status := Act_Received, xa_receipt := Some receipt, xa_receipt_hash := Some receipt_hash\<rparr>)"

definition insert_evidence :: "instant \<Rightarrow> admission \<Rightarrow> admitted_item \<Rightarrow> evidence_row list \<Rightarrow> evidence_row list" where
  "insert_evidence now adm it rows =
     (if list_ex (\<lambda>e. am_evidence (ev_item e) = am_evidence it) rows then rows
      else rows @ [\<lparr>ev_item = it, ev_run = ad_run adm, ev_action = ad_action adm, ev_admission = ad_id adm, ev_at = now\<rparr>])"

definition record_admission :: "instant \<Rightarrow> admission \<Rightarrow> adapter_db \<Rightarrow> adapter_db" where
  "record_admission now adm db =
     (update_action (ad_action adm)
        (\<lambda>a. a\<lparr>xa_status := (if ad_admitted adm \<noteq> [] then Act_Admitted else Act_Rejected), xa_admission := Some (ad_id adm)\<rparr>) db)
     \<lparr>db_evidence := fold (insert_evidence now adm) (ad_admitted adm) (db_evidence db)\<rparr>"

definition harness_action_row :: "string \<Rightarrow> adapter_db \<Rightarrow> action_row option" where
  "harness_action_row action_id db = find (\<lambda>a. xa_id a = action_id) (db_actions db)"

definition list_harness_actions :: "string \<Rightarrow> adapter_db \<Rightarrow> action_row list" where
  "list_harness_actions run_id db = sort_key xa_sequence (filter (\<lambda>a. xa_run a = run_id) (db_actions db))"

definition admitted_evidence_refs :: "string \<Rightarrow> adapter_db \<Rightarrow> ev_ref list" where
  "admitted_evidence_refs run_id db =
     map (\<lambda>e. \<lparr>er_id = am_evidence (ev_item e), er_kind = Some ''field_evidence''\<rparr>)
       (sort_key (\<lambda>e. (ev_at e, am_evidence (ev_item e))) (filter (\<lambda>e. ev_run e = run_id) (db_evidence db)))"

definition admission_ids :: "string \<Rightarrow> adapter_db \<Rightarrow> string list" where
  "admission_ids run_id db = sorted_set (map ev_admission (filter (\<lambda>e. ev_run e = run_id) (db_evidence db)))"

section \<open>Leases\<close>

text \<open>\<open>locked\<close>: the rows another transaction holds, which \<open>SKIP LOCKED\<close> passes over.\<close>

definition claimable :: "instant \<Rightarrow> (string \<Rightarrow> bool) \<Rightarrow> run_row \<Rightarrow> bool" where
  "claimable now locked r \<longleftrightarrow> rs_status (rw_state r) = Running
     \<and> (case rw_expires r of None \<Rightarrow> True | Some e \<Rightarrow> e < now) \<and> \<not> locked (row_run r)"

definition claim_run :: "instant \<Rightarrow> (string \<Rightarrow> bool) \<Rightarrow> string \<Rightarrow> instant \<Rightarrow> adapter_db \<Rightarrow> string option \<times> adapter_db" where
  "claim_run now locked owner lease db =
     (case filter (claimable now locked) (db_runs db) of
        [] \<Rightarrow> (None, db)
      | r # rs \<Rightarrow>
          let run_id = row_run (py_min rw_updated r rs)
          in (Some run_id, update_runs (\<lambda>r. row_run r = run_id) (\<lambda>r. r\<lparr>rw_owner := Some owner, rw_expires := Some (now + lease)\<rparr>) db))"

definition renew_lease :: "instant \<Rightarrow> string \<Rightarrow> string \<Rightarrow> instant \<Rightarrow> adapter_db \<Rightarrow> bool \<times> adapter_db" where
  "renew_lease now run_id owner lease db =
     (let mine = (\<lambda>r. row_run r = run_id \<and> rw_owner r = Some owner)
      in (length (filter mine (db_runs db)) = 1, update_runs mine (\<lambda>r. r\<lparr>rw_expires := Some (now + lease)\<rparr>) db))"

definition release_lease :: "string \<Rightarrow> string \<Rightarrow> adapter_db \<Rightarrow> adapter_db" where
  "release_lease run_id owner =
     update_runs (\<lambda>r. row_run r = run_id \<and> rw_owner r = Some owner) (\<lambda>r. r\<lparr>rw_owner := None, rw_expires := None\<rparr>)"

end
