(* ===== verification/Adapter_Service.thy ===== *)
theory Adapter_Service
  imports Adapter_Store
begin

text \<open>
  The adapter-run service (\<^verbatim>\<open>adapter/service.py\<close>), the transaction of \<^verbatim>\<open>db.py\<close> and the loop of
  \<^verbatim>\<open>workers/adapter_step_worker.py\<close>: starting, advancing, answering and cancelling runs over the tables
  of \<open>Adapter_Store\<close>. An operation is an \<open>act\<close> on the tables; \<open>tx\<close> keeps its effect only when it
  returns. Executors, hashes, clocks and schema validators are arguments. What an executor or the
  agent sends is a record of the fields the code reads, beside the JSON it stores.
\<close>

section \<open>Environment\<close>

datatype svc_error = Unknown_Run string | Unknown_Adapter string | Run_Failed run_error | Ledger_Failed hyp_exn
  | Ledger_Rejected "hyp_error list" | Not_Terminal run_status | Integrity_Error string | Type_Error string

type_synonym 'a svc = "(adapter_db, svc_error, 'a) act"

record run_handle =
  rf_run :: string
  rf_adapter :: string
  rf_version :: string
  rf_workflow :: string
  rf_created :: string
  rf_status :: run_status

record service_env =
  sv_contracts :: contracts
  sv_hyp :: hyp_env
  sv_manifests :: "(string, manifest) dict"
  sv_hash :: "json \<Rightarrow> string"
  sv_receipt_hash :: "step_receipt \<Rightarrow> string"
  sv_result_hash :: "adapter_result \<Rightarrow> string"
  sv_seconds :: "string \<Rightarrow> rat"
  sv_render :: "hyp_error list \<Rightarrow> string"
  sv_request_valid :: "string \<Rightarrow> (string, json) dict \<Rightarrow> (string, json) dict \<Rightarrow> violation list"
  sv_receipt_valid :: "step_receipt \<Rightarrow> violation list"
  sv_external_valid :: "(string, json) dict \<Rightarrow> violation list"
  sv_admission_valid :: "admission \<Rightarrow> violation list"
  sv_result_valid :: "adapter_result \<Rightarrow> violation list"
  sv_ref_valid :: "run_handle \<Rightarrow> violation list"
  sv_iso :: "instant \<Rightarrow> string"

text \<open>The clock readings of one call: issuing, starting and ending a step, and the database's.\<close>

record tick =
  tk_issued :: string
  tk_started :: string
  tk_ended :: string
  tk_now :: instant

record theta_payload =
  th_hypotheses :: "hyp_proposal option list option"
  th_transitions :: "hyp_request list option"

record outcome =
  oc_pending :: bool
  oc_external :: "(string, json) dict option"
  oc_gap :: "(string \<times> string) option"
  oc_output :: "(string, json) dict option"
  oc_refs :: "json list"
  oc_admission :: "admission option"
  oc_verdicts :: "hyp_request list"

type_synonym executor = "issued_step \<Rightarrow> (string, json) dict option \<Rightarrow> json option \<Rightarrow> run_state \<Rightarrow> manifest \<Rightarrow> string + outcome"

definition svc_check :: "string \<Rightarrow> violation list \<Rightarrow> unit svc" where
  "svc_check name vs = act_lift Run_Failed (assert_valid name vs)"

definition svc_try :: "string \<Rightarrow> (adapter_db \<Rightarrow> adapter_db option) \<Rightarrow> unit svc" where
  "svc_try what f db = (case f db of None \<Rightarrow> (Inl (Integrity_Error what), db) | Some db' \<Rightarrow> (Inr (), db'))"

definition manifest_for :: "service_env \<Rightarrow> string \<Rightarrow> manifest svc" where
  "manifest_for env adapter_id = act_lift id (case map_of (sv_manifests env) adapter_id of None \<Rightarrow> Inl (Unknown_Adapter adapter_id) | Some m \<Rightarrow> Inr m)"

definition svc_load :: "string \<Rightarrow> run_row svc" where
  "svc_load run_id db = (case load_run run_id db of None \<Rightarrow> (Inl (Unknown_Run run_id), db) | Some r \<Rightarrow> (Inr r, db))"

text \<open>One transaction: commit on a clean exit, roll back on an exception.\<close>

definition tx :: "'a svc \<Rightarrow> 'a svc" where
  "tx m db = (case m db of (Inl e, _) \<Rightarrow> (Inl e, db) | (Inr x, db') \<Rightarrow> (Inr x, db'))"

section \<open>JSON fields\<close>

text \<open>\<open>str()\<close> of a string, a whole number or a constant; of anything else it is not modelled.\<close>

fun json_text :: "json \<Rightarrow> string" where
  "json_text (JString s) = s"
| "json_text (JNum x) = dec_int (int_trunc x)"
| "json_text JNull = ''None''"
| "json_text (JBool b) = (if b then ''True'' else ''False'')"
| "json_text _ = []"

definition json_or :: "json \<Rightarrow> json \<Rightarrow> json" where
  "json_or a b = (if truthy a then a else b)"

fun json_items :: "json \<Rightarrow> json list" where
  "json_items (JList xs) = xs"
| "json_items _ = []"

fun json_fields :: "json \<Rightarrow> (string, json) dict" where
  "json_fields (JDict d) = d"
| "json_fields _ = []"

definition dict_update :: "('k, 'v) dict \<Rightarrow> ('k, 'v) dict \<Rightarrow> ('k, 'v) dict" where
  "dict_update d e = fold (\<lambda>(k, v). dict_set k v) e d"

definition ref_of_json :: "json \<Rightarrow> ev_ref option" where
  "ref_of_json j = (case j of
     JDict d \<Rightarrow> (case map_of d ''id'' of
         Some v \<Rightarrow> Some \<lparr>er_id = json_text v, er_kind = map_option json_text (map_of d ''kind'')\<rparr>
       | None \<Rightarrow> None)
   | _ \<Rightarrow> None)"

definition registry_snapshot :: "run_state \<Rightarrow> (string \<times> string) option" where
  "registry_snapshot s =
     (case newest_output s ''registry_snapshot'' of
        Some (JDict d) \<Rightarrow>
          if truthy (jget d ''snapshot_id'') \<and> truthy (jget d ''content_hash'')
          then Some (json_text (jget d ''snapshot_id''), json_text (jget d ''content_hash'')) else None
      | _ \<Rightarrow> None)"

definition snapshot_json :: "string \<times> string \<Rightarrow> (string, json) dict" where
  "snapshot_json sn = [(''snapshot_id'', JString (fst sn)), (''content_hash'', JString (snd sn))]"

section \<open>The evidence a step shows\<close>

definition MAX_CONTEXT_REFS :: nat where "MAX_CONTEXT_REFS = 200"

definition CONTEXT_BUDGET :: "(string \<times> nat) list" where
  "CONTEXT_BUDGET = [(''field_evidence'', 80), (''chunk'', 50), (''graph_fact'', 40), (''other'', 30)]"

definition context_class :: "string \<Rightarrow> string" where
  "context_class k = (if k \<in> {''field_evidence'', ''chunk'', ''graph_fact''} then k else ''other'')"

definition ref_class :: "ev_ref \<Rightarrow> string" where
  "ref_class r = context_class (case er_kind r of None \<Rightarrow> [] | Some k \<Rightarrow> k)"

fun first_refs :: "string list \<Rightarrow> ev_ref list \<Rightarrow> ev_ref list" where
  "first_refs seen [] = []"
| "first_refs seen (r # rs) = (if er_id r \<in> set seen then first_refs seen rs else r # first_refs (er_id r # seen) rs)"

text \<open>The reserved floors, then the spare places handed out in class order.\<close>

fun spill :: "nat \<Rightarrow> (nat \<times> nat) list \<Rightarrow> nat list" where
  "spill spare [] = []"
| "spill spare ((len, tk) # rest) = (let extra = min spare (len - tk) in (tk + extra) # spill (spare - extra) rest)"

definition balance :: "(nat \<times> nat) list \<Rightarrow> nat list" where
  "balance sizes =
     (let floors = map (\<lambda>(len, budget). (len, min len budget)) sizes
      in spill (MAX_CONTEXT_REFS - sum_list (map snd floors)) floors)"

definition step_refs :: "run_state \<Rightarrow> ev_ref list" where
  "step_refs s =
     concat (map (\<lambda>sid. List.map_filter ref_of_json
         (json_items (jget (json_fields (case map_of (rs_outputs s) sid of None \<Rightarrow> JNull | Some v \<Rightarrow> v)) ''_evidence_refs'')))
       (if rs_order s = [] then map fst (rs_outputs s) else rs_order s))"

definition show_refs :: "ev_ref list \<Rightarrow> ev_ref list" where
  "show_refs refs =
     (let bucket = (\<lambda>c. filter (\<lambda>r. ref_class r = c) refs);
          counts = balance (map (\<lambda>(c, budget). (length (bucket c), budget)) CONTEXT_BUDGET)
      in take MAX_CONTEXT_REFS (concat (map2 (\<lambda>n (c, budget). take n (bucket c)) counts CONTEXT_BUDGET)))"

definition context_refs :: "run_state \<Rightarrow> adapter_db \<Rightarrow> ev_ref list" where
  "context_refs s db = show_refs (first_refs [] (admitted_evidence_refs (rs_run_id s) db @ step_refs s))"

section \<open>Receipts\<close>

definition rehash :: "service_env \<Rightarrow> step_receipt \<Rightarrow> step_receipt" where
  "rehash env r = r\<lparr>rc_hash := sv_receipt_hash env (r\<lparr>rc_hash := []\<rparr>)\<rparr>"

definition make_receipt :: "service_env \<Rightarrow> tick \<Rightarrow> issued_step \<Rightarrow> step_status \<Rightarrow> string list \<Rightarrow> string list \<Rightarrow> string option \<Rightarrow> bool
    \<Rightarrow> receipt_error list \<Rightarrow> (string \<times> string) option \<Rightarrow> step_receipt svc" where
  "make_receipt env tk stp status evidence external model ok errors failure =
     (let r = rehash env \<lparr>rc_run = is_run_id stp, rc_step = is_step_id stp, rc_type = is_type stp, rc_sequence = is_sequence stp, rc_status = status,
          rc_started = tk_started tk, rc_ended = tk_ended tk,
          rc_wall_ms = max 0 (int_trunc ((sv_seconds env (tk_ended tk) - sv_seconds env (tk_started tk)) * 1000)),
          rc_evidence = evidence, rc_external = external, rc_model = model, rc_ok = ok, rc_errors = errors, rc_failure = failure, rc_hash = [],
          rc_transitions = None, rc_harness_hash = None, rc_admission = None\<rparr>
      in act_bind (svc_check ''adapter_step_receipt'' (sv_receipt_valid env r)) (\<lambda>_. act_return r))"

definition finish :: "tick \<Rightarrow> string \<Rightarrow> int \<Rightarrow> step_status \<Rightarrow> step_receipt option \<Rightarrow> json option \<Rightarrow> submission option \<Rightarrow> (string, json) dict option \<Rightarrow> unit svc" where
  "finish tk run_id sequence status receipt out sub external =
     act_modify (finish_step (tk_now tk) run_id sequence status receipt out sub external)"

definition svc_save :: "tick \<Rightarrow> run_state \<Rightarrow> unit svc" where
  "svc_save tk s = act_modify (save_state (tk_now tk) s)"

section \<open>Handing research to the harness\<close>

definition absorbed :: "hyp_state \<Rightarrow> bool" where
  "absorbed s \<longleftrightarrow> hs_status s \<in> set ABSORBED_STATUSES"

definition live_hypotheses :: "(string, hyp_state) dict \<Rightarrow> string list" where
  "live_hypotheses hyps = map fst (filter (\<lambda>(h, s). \<not> absorbed s) hyps)"

definition text_or :: "json \<Rightarrow> string \<Rightarrow> string" where
  "text_or j dflt = (if truthy j then json_text j else dflt)"

definition harness_id :: "service_env \<Rightarrow> string \<Rightarrow> string \<Rightarrow> int \<Rightarrow> string" where
  "harness_id env run_id step_id sequence =
     ''hact_'' @ take 24 (he_sha (sv_hyp env) (py_join (CHR '':'') [run_id, step_id, dec_int sequence]))"

text \<open>The fields an action copies from the directive \<open>d\<close> and the manifest's harness block \<open>hb\<close>.\<close>

definition harness_fields :: "(string, json) dict \<Rightarrow> (string, json) dict \<Rightarrow> step_def \<Rightarrow> string \<Rightarrow> (string, json) dict" where
  "harness_fields d hb spec step_id =
     [(''action_kind'', jget hb ''action_kind''),
      (''objective'', JString (take 4000 (text_or (jget d ''objective'')
          (if some_str (sp_objective spec) then or_str (sp_objective spec) [] else if sp_title spec \<noteq> [] then sp_title spec else step_id)))),
      (''evidence_gaps'', JList (take 200 (json_items (jget d ''evidence_gaps'')))),
      (''search_intents'', JList (take 100 (json_items (jget d ''search_intents'')))),
      (''preferred_source_roles'', JList (take 50 (json_items (json_or (jget hb ''preferred_source_roles'') (jget d ''preferred_source_roles''))))),
      (''disallowed_source_roles'', JList (take 50 (json_items (json_or (jget hb ''disallowed_source_roles'') (jget d ''disallowed_source_roles''))))),
      (''freshness_requirement'', JDict
         [(''max_age_days'', (case map_of hb ''freshness_max_age_days'' of Some v \<Rightarrow> v
             | None \<Rightarrow> jget (json_fields (jget d ''freshness_requirement'')) ''max_age_days'')),
          (''policy_ref'', jget (json_fields (jget d ''freshness_requirement'')) ''policy_ref'')]),
      (''geography'', jget d ''geography''), (''language'', jget d ''language''),
      (''minimum_independent_sources'',
         json_or (jget hb ''minimum_independent_sources'') (json_or (jget d ''minimum_independent_sources'') (JNum 1))),
      (''success_condition'', JString (take 2000 (text_or (jget d ''success_condition'') ''the evidence gaps are answered by independent sources''))),
      (''falsification_condition'', JString (take 2000 (text_or (jget d ''falsification_condition'') ''independent sources contradict the hypotheses''))),
      (''budget'', JDict (dict_update (dict_update [(''max_queries'', JNum 20), (''max_sources'', JNum 15), (''max_observations'', JNum 60)]
          (json_fields (jget d ''budget''))) (json_fields (jget hb ''budget''))))]"

definition compile_harness_action :: "service_env \<Rightarrow> run_state \<Rightarrow> step_def \<Rightarrow> string \<Rightarrow> int \<Rightarrow> (string, hyp_state) dict
    \<Rightarrow> (string \<times> string) option \<Rightarrow> string \<Rightarrow> (string, json) dict option" where
  "compile_harness_action env s spec step_id sequence hyps snapshot issued_at =
     (case (newest_output s ''research_directive'', snapshot) of
        (Some (JDict d), Some sn) \<Rightarrow>
          if \<not> truthy (jget d ''search_intents'') then None
          else
            let own = map JString (live_hypotheses hyps);
                live = (if own \<noteq> [] then own else json_items (jget d ''hypothesis_ids''))
            in if live = [] then None
               else Some ([(''action_id'', JString (harness_id env (rs_run_id s) step_id sequence)), (''run_id'', JString (rs_run_id s)),
                   (''step_id'', JString step_id), (''hypothesis_ids'', JList (take 64 live))] @
                 harness_fields d (sp_harness_block spec) spec step_id @
                 [(''registry_snapshot'', JDict (snapshot_json sn)), (''issued_at'', JString issued_at)])
      | _ \<Rightarrow> None)"

section \<open>Hypotheses: theta and phi\<close>

definition THETA_GENERATORS :: "string list" where
  "THETA_GENERATORS = [''generate_hypotheses'', ''split_hypotheses'', ''derive_mechanisms'', ''cross_map_frictions'', ''derive_physical_jobs'',
     ''derive_analogies'', ''generate_product_mechanisms'']"

definition may_generate :: "issued_step \<Rightarrow> bool" where
  "may_generate stp \<longleftrightarrow> (case is_theta stp of None \<Rightarrow> True | Some t \<Rightarrow> t \<in> set THETA_GENERATORS)
     \<and> (is_cognitive stp = Some ''theta'' \<or> some_str (is_theta stp))"

definition max_hypotheses_of :: "manifest \<Rightarrow> int" where
  "max_hypotheses_of m = (case bg_max_hypotheses (mf_budgets m) of None \<Rightarrow> 8 | Some n \<Rightarrow> n)"

text \<open>\<open>max(0, max_h - live) or 1\<close>.\<close>

definition room_for :: "int \<Rightarrow> (string, hyp_state) dict \<Rightarrow> int" where
  "room_for max_h current =
     (let room = max 0 (max_h - int (length (live_hypotheses current))) in if room = 0 then 1 else room)"

definition allowed_causes :: "string \<Rightarrow> issued_step \<Rightarrow> (string, hyp_state) dict \<Rightarrow> adapter_db \<Rightarrow> svc_error + (string, string) dict" where
  "allowed_causes run_id stp current db =
     (case key_refs (cx_evidence_refs (is_context stp)) of
        Inl e \<Rightarrow> Inl (Ledger_Failed e)
      | Inr refs \<Rightarrow>
          (case load_run run_id db of
             None \<Rightarrow> Inl (Type_Error ''load_run'')
           | Some r \<Rightarrow> Inr (dict_update (dict_update (dict_update (dict_update (allowed_refs refs)
                 (map (\<lambda>(h, _). (h, ''hypothesis'')) current))
                 (map (\<lambda>a. (a, ''evidence_admission'')) (admission_ids run_id db)))
                 (map (\<lambda>r. (er_id r, ''field_evidence'')) (admitted_evidence_refs run_id db)))
                 (map (\<lambda>(sid, _). (sid, ''step_output'')) (rs_outputs (rw_state r))))))"

definition persist :: "support list \<Rightarrow> hyp_state list \<Rightarrow> hyp_transition list \<Rightarrow> unit svc" where
  "persist store states trs = act_modify (\<lambda>db. insert_transitions trs (insert_hypothesis_revisions store states db))"

definition theta_generate :: "service_env \<Rightarrow> string \<Rightarrow> issued_step \<Rightarrow> manifest \<Rightarrow> run_state \<Rightarrow> hyp_proposal option list \<Rightarrow> string
    \<Rightarrow> support list \<times> (string, hyp_state) dict \<Rightarrow> ((support list \<times> (string, hyp_state) dict) \<times> string list \<times> string list) svc" where
  "theta_generate env run_id stp m s proposals now cur =
     (case generate (sv_hyp env) run_id stp proposals (map_option fst (registry_snapshot s)) now (room_for (max_hypotheses_of m) (snd cur)) []
             (length (snd cur)) (ledger_init (fst cur) []) of
        (Inl e, _) \<Rightarrow> act_raise (Ledger_Failed e)
      | (Inr (states, trs), l) \<Rightarrow>
          act_bind (persist (lg_store l) states trs) (\<lambda>_.
            act_return ((lg_store l, dict_update (snd cur) (map (\<lambda>st. (hs_id st, st)) states)), map hs_id states, map tn_id trs)))"

definition ledger_apply :: "service_env \<Rightarrow> string \<Rightarrow> issued_step \<Rightarrow> manifest \<Rightarrow> hyp_actor \<Rightarrow> (string, string) dict \<Rightarrow> hyp_request list \<Rightarrow> string
    \<Rightarrow> support list \<times> (string, hyp_state) dict \<Rightarrow> string list svc" where
  "ledger_apply env run_id stp m actor allowed requests now cur =
     (case apply_requests \<lparr>ac_env = sv_hyp env, ac_run = run_id, ac_step = stp, ac_actor = actor, ac_allowed = allowed, ac_recorded = now,
             ac_max = max_hypotheses_of m\<rparr> (fst cur) (snd cur) requests of
        (Inl e, _) \<Rightarrow> act_raise (Ledger_Failed e)
      | (Inr (states, trs), l) \<Rightarrow> act_bind (persist (lg_store l) states trs) (\<lambda>_. act_return (map tn_id trs)))"

definition ids_json :: "string list \<Rightarrow> json" where
  "ids_json ids = JList (map JString ids)"

definition apply_theta :: "service_env \<Rightarrow> string \<Rightarrow> issued_step \<Rightarrow> manifest \<Rightarrow> run_state \<Rightarrow> (string, json) dict \<Rightarrow> theta_payload \<Rightarrow> string
    \<Rightarrow> ((string, json) dict \<times> string list) svc" where
  "apply_theta env run_id stp m s payload theta now =
     act_bind act_get (\<lambda>db.
     let cur = current_hypotheses run_id db in
     act_bind (case th_hypotheses theta of
         Some ps \<Rightarrow> if may_generate stp
           then act_bind (theta_generate env run_id stp m s ps now cur) (\<lambda>(cur', ids, tids).
             act_return (cur', dict_set ''hypothesis_ids'' (ids_json ids) payload, tids))
           else act_return (cur, payload, [])
       | None \<Rightarrow> act_return (cur, payload, [])) (\<lambda>(cur', out, tids).
     case th_transitions theta of
       Some (rq # rqs) \<Rightarrow>
         act_bind act_get (\<lambda>db'.
         act_bind (act_lift id (allowed_causes run_id stp (snd cur') db')) (\<lambda>allowed.
         act_bind (ledger_apply env run_id stp m Theta allowed (rq # rqs) now cur') (\<lambda>tids'.
           act_return (dict_set ''hypothesis_transition_ids'' (ids_json tids') out, tids @ tids'))))
     | _ \<Rightarrow> act_return (out, tids)))"

fun join_semi :: "string list \<Rightarrow> string" where
  "join_semi [] = []"
| "join_semi [x] = x"
| "join_semi (x # xs) = x @ ''; '' @ join_semi xs"

text \<open>\<open>Some (code, message)\<close> is the typed gap the caller ends the run with.\<close>

definition apply_admission :: "service_env \<Rightarrow> tick \<Rightarrow> string \<Rightarrow> admission option \<Rightarrow> (string, json) dict
    \<Rightarrow> ((string \<times> string) option \<times> (string, json) dict) svc" where
  "apply_admission env tk run_id adm out =
     (case adm of
        None \<Rightarrow> act_return (None, out)
      | Some a \<Rightarrow>
          if sv_admission_valid env a \<noteq> [] \<or> ad_run a \<noteq> run_id
          then act_return (Some (''ADMISSION_INVALID'',
            if sv_admission_valid env a \<noteq> [] then join_semi (take 5 (violations (sv_admission_valid env a)))
            else ''admission run_id mismatch''), out)
          else
            act_bind act_get (\<lambda>db.
            if harness_action_row (ad_action a) db = None
            then act_return (Some (''ADMISSION_INVALID'', ''admission for unknown harness action '' @ ad_action a), out)
            else
              act_bind (act_modify (record_admission (tk_now tk) a)) (\<lambda>_.
                act_return (None, dict_set ''_admitted_evidence_ids'' (ids_json (map am_evidence (ad_admitted a))) out))))"

definition apply_phi_outputs :: "service_env \<Rightarrow> tick \<Rightarrow> string \<Rightarrow> issued_step \<Rightarrow> manifest \<Rightarrow> outcome \<Rightarrow> (string, json) dict
    \<Rightarrow> ((string \<times> string) option \<times> (string, json) dict) svc" where
  "apply_phi_outputs env tk run_id stp m oc out =
     act_bind (apply_admission env tk run_id (oc_admission oc) out) (\<lambda>(g, out').
     if g \<noteq> None \<or> oc_verdicts oc = [] then act_return (g, out')
     else
       act_bind act_get (\<lambda>db.
       let cur = current_hypotheses run_id db in
       act_bind (act_lift id (allowed_causes run_id stp (snd cur) db)) (\<lambda>allowed.
       act_bind (act_lift Ledger_Failed (key_refs (List.map_filter ref_of_json (oc_refs oc)))) (\<lambda>refs.
         act_catch
           (act_bind (ledger_apply env run_id stp m Phi (dict_update allowed (map (\<lambda>(k, i). (i, k)) refs)) (oc_verdicts oc) (tk_started tk) cur) (\<lambda>tids.
              act_return (None, dict_set ''hypothesis_transition_ids'' (ids_json tids) out')))
           (\<lambda>e. case e of
              Ledger_Failed (Hypothesis_Rejected es) \<Rightarrow> act_return (Some (''PHI_VERDICT_INVALID'', sv_render env (take 5 es)), out')
            | _ \<Rightarrow> act_raise e)))))"

section \<open>The terminal result\<close>

definition KNOWLEDGE_KINDS :: "string list" where
  "KNOWLEDGE_KINDS = [''chunk'', ''document'', ''graph_fact'', ''graph_hop'', ''parent_map'']"

fun collect_json :: "string \<Rightarrow> json \<Rightarrow> json list"
  and collect_dict :: "string \<Rightarrow> (string \<times> json) list \<Rightarrow> json list"
  and collect_list :: "string \<Rightarrow> json list \<Rightarrow> json list" where
  "collect_json key (JDict d) = collect_dict key d"
| "collect_json key (JList xs) = collect_list key xs"
| "collect_json key _ = []"
| "collect_dict key [] = []"
| "collect_dict key ((k, v) # d) =
     (if k = key \<and> (case v of JList _ \<Rightarrow> True | _ \<Rightarrow> False) then json_items v else collect_json key v) @ collect_dict key d"
| "collect_list key [] = []"
| "collect_list key (x # xs) = collect_json key x @ collect_list key xs"

definition ordered_outputs :: "run_state \<Rightarrow> json list" where
  "ordered_outputs s = List.map_filter (map_of (rs_outputs s)) (if rs_order s = [] then map fst (rs_outputs s) else rs_order s)"

definition collect_lists :: "run_state \<Rightarrow> string \<Rightarrow> json list" where
  "collect_lists s key = concat (map (collect_json key) (ordered_outputs s))"

definition result_output :: "run_state \<Rightarrow> string list \<Rightarrow> (string, json) dict" where
  "result_output s include =
     fold (\<lambda>key out. case newest_output s key of None \<Rightarrow> out | Some v \<Rightarrow> if v = JNull then out else dict_set key v out)
       (filter (\<lambda>k. k \<noteq> ''lineage'') include) []"

definition external_op :: "json \<Rightarrow> (string, json) dict \<Rightarrow> json" where
  "external_op system e = JDict [(''external_system'', system), (''operation_kind'', jget e ''operation_kind''),
     (''operation_id'', jget e ''operation_id''), (''record_ids'', JList (json_items (jget e ''record_ids'')))]"

text \<open>Sub-operations a composite step reports are added once per operation id.\<close>

fun add_sub_ops :: "json list \<Rightarrow> json list \<Rightarrow> json list" where
  "add_sub_ops ops [] = ops"
| "add_sub_ops ops (j # js) =
     (let e = json_fields j in
      if truthy (jget e ''operation_id'') \<and> \<not> list_ex (\<lambda>x. json_eq (jget (json_fields x) ''operation_id'') (jget e ''operation_id'')) ops
      then add_sub_ops (ops @ [external_op (case map_of e ''external_system'' of Some v \<Rightarrow> v | None \<Rightarrow> JString ''trailsignal'') e]) js
      else add_sub_ops ops js)"

definition external_ops :: "run_state \<Rightarrow> step_row list \<Rightarrow> json list" where
  "external_ops s rows =
     add_sub_ops (List.map_filter (\<lambda>w. map_option (\<lambda>e. external_op (jget e ''external_system'') e) (sw_external w)) rows)
       (concat (map (\<lambda>o'. json_items (jget (json_fields o') ''_external_operations'')) (ordered_outputs s)))"

definition snapshot_ids :: "run_state \<Rightarrow> string list" where
  "snapshot_ids s = sorted_set (filter (\<lambda>x. x \<noteq> ''None'')
     (List.map_filter (\<lambda>(sid, out). case output_value ''registry_snapshot'' out of
        Some (JDict d) \<Rightarrow> Some (json_text (jget d ''snapshot_id'')) | _ \<Rightarrow> None) (rs_outputs s)))"

definition score_ids :: "run_state \<Rightarrow> string list" where
  "score_ids s = sorted_set (json_strings (collect_lists s ''trail_score_record_ids'') @
     (case newest_output s ''trail_score'' of
        Some (JDict d) \<Rightarrow> if truthy (jget d ''record_id'') then [json_text (jget d ''record_id'')] else []
      | _ \<Rightarrow> []))"

definition refs_of_kind :: "string list \<Rightarrow> ev_ref list \<Rightarrow> string list" where
  "refs_of_kind kinds refs = sorted_set (map er_id (filter (\<lambda>r. case er_kind r of None \<Rightarrow> False | Some k \<Rightarrow> k \<in> set kinds) refs))"

definition result_of :: "manifest \<Rightarrow> run_row \<Rightarrow> run_state \<Rightarrow> (string, json) dict \<Rightarrow> instant \<Rightarrow> adapter_db \<Rightarrow> adapter_result" where
  "result_of m row s out now db =
     (let run_id = rs_run_id s; refs = context_refs s db; actions = list_harness_actions run_id db in
      \<lparr>ar_run = run_id, ar_identity = mf_identity m, ar_status = (if is_terminal s then rs_status s else Completed),
       ar_started = rw_created row, ar_terminal = Some (case rw_terminal row of None \<Rightarrow> now | Some t \<Rightarrow> t), ar_output = out,
       ar_evidence = refs_of_kind KNOWLEDGE_KINDS refs, ar_queries = refs_of_kind [''query_receipt''] refs,
       ar_receipts = map rc_hash (List.map_filter sw_receipt (list_steps run_id db)),
       ar_externals = external_ops s (list_steps run_id db),
       ar_hypotheses = sort (map fst (snd (current_hypotheses run_id db))),
       ar_admitted = sort (map er_id (admitted_evidence_refs run_id db)),
       ar_actions = map xa_id actions,
       ar_harnesses = sorted_set (map json_text (filter (\<lambda>j. j \<noteq> JNull) (List.map_filter (\<lambda>a. map_option (\<lambda>r. jget (json_fields r) ''harness_id'') (xa_receipt a)) actions))),
       ar_snapshots = snapshot_ids s, ar_scores = score_ids s,
       ar_contradictions = filter (\<lambda>j. case j of JDict _ \<Rightarrow> True | _ \<Rightarrow> False) (collect_lists s ''contradictions''),
       ar_unknowns = map (\<lambda>u. case u of JString t \<Rightarrow> JDict [(''about'', u)] | _ \<Rightarrow> u) (collect_lists s ''unknowns''),
       ar_gap = rs_gap s, ar_agent = rw_agent row\<rparr>)"

text \<open>\<open>output=None\<close> gathers the manifest's \<open>include\<close> keys; a ref without a kind is a \<open>KeyError\<close>.\<close>

definition compile_result :: "service_env \<Rightarrow> tick \<Rightarrow> string \<Rightarrow> run_state \<Rightarrow> manifest \<Rightarrow> (string, json) dict option \<Rightarrow> adapter_result svc" where
  "compile_result env tk run_id s m given =
     act_bind (svc_load run_id) (\<lambda>row.
     act_bind (act_lift Run_Failed (lift_manifest (step m (mf_terminal m)))) (\<lambda>spec.
     act_bind act_get (\<lambda>db.
     act_bind (act_lift Ledger_Failed (key_refs (context_refs s db))) (\<lambda>_.
       let res = result_of m row s (case given of Some d \<Rightarrow> d | None \<Rightarrow> result_output s (sp_include spec)) (tk_now tk) db in
       act_bind (svc_check ''adapter_result'' (sv_result_valid env res)) (\<lambda>_.
       act_bind (act_modify (insert_result run_id res (sv_result_hash env res))) (\<lambda>_. act_return res))))))"

section \<open>Lifecycle\<close>

definition run_ref :: "service_env \<Rightarrow> string \<Rightarrow> run_handle svc" where
  "run_ref env run_id =
     act_bind (svc_load run_id) (\<lambda>r.
     let ref = \<lparr>rf_run = run_id, rf_adapter = rs_adapter_id (rw_state r), rf_version = mi_adapter_version (rw_identity r),
           rf_workflow = mi_workflow_version (rw_identity r), rf_created = sv_iso env (rw_created r), rf_status = rs_status (rw_state r)\<rparr> in
     act_bind (svc_check ''adapter_run_ref'' (sv_ref_valid env ref)) (\<lambda>_. act_return ref))"

definition svc_status :: "service_env \<Rightarrow> string \<Rightarrow> run_view svc" where
  "svc_status env run_id =
     act_bind (svc_load run_id) (\<lambda>r.
     act_bind (manifest_for env (rs_adapter_id (rw_state r))) (\<lambda>m.
       act_lift Run_Failed (run_status_view (sv_contracts env) m (rw_state r) (sv_iso env (rw_created r)) (sv_iso env (rw_updated r))
         (map_option (sv_iso env) (rw_terminal r)) (rw_agent r))))"

text \<open>The step awaiting an answer, or the status alone.\<close>

definition next_step :: "service_env \<Rightarrow> string \<Rightarrow> (issued_step option \<times> run_view) svc" where
  "next_step env run_id =
     act_bind (svc_status env run_id) (\<lambda>st.
     act_bind act_get (\<lambda>db.
       act_return (if vw_status st \<in> {Awaiting_Agent, Awaiting_Harness}
         then (case current_step run_id db of Some w \<Rightarrow> if sw_status w = Step_Issued then Some (sw_step w) else None | None \<Rightarrow> None)
         else None, st)))"

text \<open>\<open>uuid\<close> is the random part of the id of a run without an idempotency key.\<close>

definition start_run_id :: "service_env \<Rightarrow> string \<Rightarrow> string \<Rightarrow> string" where
  "start_run_id env adapter_id key = ''adr_'' @ take 32 (he_sha (sv_hyp env) (adapter_id @ '':'' @ key))"

definition start_body :: "service_env \<Rightarrow> tick \<Rightarrow> string \<Rightarrow> (string, json) dict \<Rightarrow> (string, json) dict \<Rightarrow> string \<Rightarrow> string svc" where
  "start_body env tk adapter_id payload opts uuid =
     act_bind (manifest_for env adapter_id) (\<lambda>m.
     act_bind (svc_check ''adapter_run_request'' (sv_request_valid env adapter_id payload opts)) (\<lambda>_.
     let keyed_run = truthy (jget opts ''idempotency_key''); key = json_text (jget opts ''idempotency_key''); full = adapter_id @ '':'' @ key in
     act_bind act_get (\<lambda>db.
       case (if keyed_run then find_run_by_idempotency full db else None) of
         Some existing \<Rightarrow> act_return existing
       | None \<Rightarrow>
           let run_id = start_run_id env adapter_id (if keyed_run then key else uuid) in
           act_bind (act_lift Run_Failed (start_run (sv_contracts env) m run_id payload opts)) (\<lambda>s.
           act_bind (svc_try ''adapter_runs'' (insert_run (tk_now tk) (s\<lparr>rs_status := Running\<rparr>) m (if keyed_run then Some full else None)
               (if truthy (jget opts ''agent_identity'') then Some (json_text (jget opts ''agent_identity'')) else None))) (\<lambda>_.
             act_return run_id)))))"

definition start :: "service_env \<Rightarrow> tick \<Rightarrow> string \<Rightarrow> (string, json) dict \<Rightarrow> (string, json) dict \<Rightarrow> string \<Rightarrow> run_handle svc" where
  "start env tk adapter_id payload opts uuid = act_bind (start_body env tk adapter_id payload opts uuid) (run_ref env)"

text \<open>A submission with its model or agent, and the payload's hypotheses and transitions read as records.\<close>

record answer =
  an_submission :: submission
  an_model :: "string option"
  an_agent :: "string option"
  an_theta :: theta_payload

definition answer_who :: "answer \<Rightarrow> string option" where
  "answer_who a = (if some_str (an_model a) then an_model a else an_agent a)"

definition submit_receipt :: "service_env \<Rightarrow> tick \<Rightarrow> string \<Rightarrow> int \<Rightarrow> run_state \<Rightarrow> issued_step \<Rightarrow> answer \<Rightarrow> (string, json) dict \<Rightarrow> unit svc" where
  "submit_receipt env tk run_id q s stp a rec =
     (let rhash = sv_hash env (JDict rec); action_id = json_text (jget (case is_harness stp of None \<Rightarrow> [] | Some d \<Rightarrow> d) ''action_id'');
          out = JDict (dict_set ''_receipt_hash'' (JString rhash) (dict_set ''_harness_action_id'' (JString action_id) rec)) in
      act_bind (act_modify (record_receipt action_id (JDict rec) rhash)) (\<lambda>_.
      act_bind (make_receipt env tk stp Step_Accepted [] []
          (if truthy (jget rec ''harness_id'') then Some (json_text (jget rec ''harness_id'')) else answer_who a) True [] None) (\<lambda>r.
      act_bind (finish tk run_id q Step_Accepted (Some (rehash env (r\<lparr>rc_harness_hash := Some rhash\<rparr>))) (Some out) (Some (an_submission a)) None) (\<lambda>_.
        svc_save tk (s\<lparr>rs_outputs := dict_set (is_step_id stp) out (rs_outputs s)\<rparr>)))))"

definition submit_reasoning :: "service_env \<Rightarrow> tick \<Rightarrow> string \<Rightarrow> int \<Rightarrow> manifest \<Rightarrow> run_state \<Rightarrow> run_state \<Rightarrow> issued_step \<Rightarrow> answer \<Rightarrow> (string, json) dict \<Rightarrow> unit svc" where
  "submit_reasoning env tk run_id q m s s' stp a payload =
     act_bind (act_catch (apply_theta env run_id stp m s payload (an_theta a) (tk_started tk)) (\<lambda>e. case e of
         Ledger_Failed (Hypothesis_Rejected es) \<Rightarrow>
           act_bind (make_receipt env tk stp Step_Rejected [] [] (answer_who a) False (map Ledger_Error es) None) (\<lambda>r.
           act_bind (finish tk run_id q Step_Issued (Some r) None None None) (\<lambda>_. act_raise (Ledger_Rejected es)))
       | _ \<Rightarrow> act_raise e)) (\<lambda>(out, tids).
     act_bind (make_receipt env tk stp Step_Accepted (sorted_set (cited_ids (sb_payload (an_submission a)))) [] (answer_who a) True [] None) (\<lambda>r.
     act_bind (finish tk run_id q Step_Accepted (Some (if tids = [] then r else rehash env (r\<lparr>rc_transitions := Some tids\<rparr>)))
         (Some (JDict out)) (Some (an_submission a)) None) (\<lambda>_.
       svc_save tk (s'\<lparr>rs_outputs := dict_set (is_step_id stp) (JDict out) (rs_outputs s')\<rparr>))))"

definition submit_body :: "service_env \<Rightarrow> tick \<Rightarrow> string \<Rightarrow> answer \<Rightarrow> unit svc" where
  "submit_body env tk run_id a =
     act_bind (svc_load run_id) (\<lambda>row.
     act_bind (manifest_for env (rs_adapter_id (rw_state row))) (\<lambda>m.
     act_bind act_get (\<lambda>db.
       case current_step run_id db of
         None \<Rightarrow> act_raise (Run_Failed (Submission_Rejected [Problem ''no step has been issued'']))
       | Some w \<Rightarrow>
           let stp = sw_step w; sub = an_submission a in
           (case accept_submission (sv_contracts env) (rw_state row) stp sub of
              Inl (Submission_Rejected es) \<Rightarrow>
                act_bind (make_receipt env tk stp Step_Rejected [] [] (an_model a) False (map Sub_Error es) None) (\<lambda>r.
                act_bind (finish tk run_id (sw_sequence w) Step_Issued (Some r) None None None) (\<lambda>_. act_raise (Run_Failed (Submission_Rejected es))))
            | Inl e \<Rightarrow> act_raise (Run_Failed e)
            | Inr s' \<Rightarrow>
                (case sb_payload sub of
                   JDict payload \<Rightarrow>
                     if is_type stp = ''HARNESS_ACTION'' then submit_receipt env tk run_id (sw_sequence w) s' stp a payload
                     else submit_reasoning env tk run_id (sw_sequence w) m (rw_state row) s' stp a payload
                 | _ \<Rightarrow> act_raise (Type_Error ''payload''))))))"

definition submit :: "service_env \<Rightarrow> tick \<Rightarrow> string \<Rightarrow> answer \<Rightarrow> run_view svc" where
  "submit env tk run_id a = act_bind (submit_body env tk run_id a) (\<lambda>_. svc_status env run_id)"

text \<open>Cancelling: the external system is told on a best effort; its answer or error is recorded.\<close>

definition cancel_body :: "service_env \<Rightarrow> tick \<Rightarrow> string \<Rightarrow> ((string, json) dict \<Rightarrow> string + (string, json) dict option) option \<Rightarrow> unit svc" where
  "cancel_body env tk run_id external_cancel =
     act_bind (svc_load run_id) (\<lambda>row.
     if is_terminal (rw_state row) then act_return ()
     else
       act_bind act_get (\<lambda>db.
       act_bind (case (current_step run_id db, external_cancel) of
           (Some w, Some call) \<Rightarrow>
             (case sw_external w of
                Some (e # ext) \<Rightarrow>
                  if jget (e # ext) ''phase'' = JString ''TERMINAL'' then act_return ()
                  else
                    let failed = (\<lambda>msg. finish tk run_id (sw_sequence w) (sw_status w) None None None
                          (Some (dict_set ''failure'' (JDict [(''code'', JString ''EXTERNAL_CANCEL_FAILED''), (''message'', JString (take 2000 msg))]) (e # ext))))
                    in (case call (e # ext) of
                          Inl msg \<Rightarrow> failed msg
                        | Inr (Some (u # us)) \<Rightarrow>
                            if sv_external_valid env (u # us) = [] then finish tk run_id (sw_sequence w) (sw_status w) None None None (Some (u # us))
                            else failed (concat (violations (sv_external_valid env (u # us))))
                        | Inr _ \<Rightarrow> act_return ())
              | _ \<Rightarrow> act_return ())
         | _ \<Rightarrow> act_return ()) (\<lambda>_.
         svc_save tk (cancel_run (rw_state row)))))"

definition cancel :: "service_env \<Rightarrow> tick \<Rightarrow> string \<Rightarrow> ((string, json) dict \<Rightarrow> string + (string, json) dict option) option \<Rightarrow> run_view svc" where
  "cancel env tk run_id external_cancel = act_bind (cancel_body env tk run_id external_cancel) (\<lambda>_. svc_status env run_id)"

definition result :: "service_env \<Rightarrow> tick \<Rightarrow> string \<Rightarrow> adapter_result svc" where
  "result env tk run_id =
     act_bind (svc_load run_id) (\<lambda>row.
     if \<not> is_terminal (rw_state row) then act_raise (Not_Terminal (rs_status (rw_state row)))
     else
       act_bind act_get (\<lambda>db.
         case load_result run_id db of
           Some res \<Rightarrow> act_return res
         | None \<Rightarrow>
             act_bind (manifest_for env (rs_adapter_id (rw_state row))) (\<lambda>m.
               compile_result env tk run_id (rw_state row) m (Some []))))"

section \<open>The step engine\<close>

text \<open>What \<open>advance\<close> has in hand: a step to execute (with what an earlier attempt left on its row), or a reason to stop.\<close>

datatype pick = Pick_Stop run_state
  | Pick_Step run_state issued_step "(string, json) dict option" "json option"

definition stop_at_gap :: "tick \<Rightarrow> run_state \<Rightarrow> string \<Rightarrow> string \<Rightarrow> string option \<Rightarrow> pick svc" where
  "stop_at_gap tk s code msg sid =
     (let s' = terminal_gap s code msg sid in act_bind (svc_save tk s') (\<lambda>_. act_return (Pick_Stop s')))"

definition view_json :: "(string \<times> int \<times> hyp_status \<times> json) \<Rightarrow> (hyp_status \<Rightarrow> string) \<Rightarrow> json" where
  "view_json v name = (case v of (h, n, st, stm) \<Rightarrow>
     JDict [(''hypothesis_id'', JString h), (''revision'', JNum (of_int n)), (''status'', JString (name st)), (''statement'', stm)])"

fun status_name :: "hyp_status \<Rightarrow> string" where
  "status_name H_Proposed = ''proposed''"
| "status_name H_Filtered = ''filtered''"
| "status_name H_Retained = ''retained''"
| "status_name H_Revised = ''revised''"
| "status_name H_Split = ''split''"
| "status_name H_Merged = ''merged''"
| "status_name H_Weakened = ''weakened''"
| "status_name H_Strengthened = ''strengthened''"
| "status_name H_Contradicted = ''contradicted''"
| "status_name H_Killed = ''killed''"
| "status_name H_Promoted = ''promoted''"

definition issue_args_of :: "tick \<Rightarrow> run_state \<Rightarrow> (string, hyp_state) dict \<Rightarrow> (string, json) dict option \<Rightarrow> adapter_db \<Rightarrow> issue_args" where
  "issue_args_of tk s hyps action db =
     \<lparr>ia_issued_at = tk_issued tk, ia_evidence_refs = context_refs s db, ia_inputs = rs_input s,
      ia_hypotheses = map (\<lambda>v. view_json v status_name) (context_view hyps),
      ia_registry = (case registry_snapshot s of None \<Rightarrow> [] | Some sn \<Rightarrow> snapshot_json sn),
      ia_harness_action = (case action of None \<Rightarrow> [] | Some d \<Rightarrow> d),
      ia_admitted = map er_id (admitted_evidence_refs (rs_run_id s) db)\<rparr>"

definition issue_now :: "service_env \<Rightarrow> tick \<Rightarrow> manifest \<Rightarrow> run_state \<Rightarrow> (string, hyp_state) dict \<Rightarrow> (string, json) dict option \<Rightarrow> pick svc" where
  "issue_now env tk m s hyps action =
     act_bind act_get (\<lambda>db.
       case issue_step (sv_contracts env) m s (issue_args_of tk s hyps action db) of
         Inl (Budget_Exhausted b) \<Rightarrow> stop_at_gap tk s ''BUDGET_EXHAUSTED'' b (rs_current s)
       | Inl e \<Rightarrow> act_raise (Run_Failed e)
       | Inr (s', stp) \<Rightarrow>
           act_bind (svc_try ''adapter_steps'' (insert_step stp)) (\<lambda>_.
           act_bind (case action of
               Some (f # fs) \<Rightarrow> act_modify (insert_harness_action (json_text (jget (f # fs) ''action_id'')) (rs_run_id s) (is_step_id stp) (f # fs) (is_sequence stp))
             | _ \<Rightarrow> act_return ()) (\<lambda>_.
           act_bind (svc_save tk s') (\<lambda>_.
             act_return (if is_type stp \<in> {''AGENT_REASON'', ''HARNESS_ACTION''} then Pick_Stop s' else Pick_Step s' stp None None)))))"

definition issue_next :: "service_env \<Rightarrow> tick \<Rightarrow> manifest \<Rightarrow> run_state \<Rightarrow> pick svc" where
  "issue_next env tk m s =
     act_bind act_get (\<lambda>db.
     let hyps = snd (current_hypotheses (rs_run_id s) db) in
     act_bind (act_lift Run_Failed (next_step_id m s)) (\<lambda>nxt.
       if some_str nxt
       then act_bind (act_lift Run_Failed (lift_manifest (step m (or_str nxt [])))) (\<lambda>spec.
         if sp_type spec = ''HARNESS_ACTION''
         then (case compile_harness_action env s spec (or_str nxt []) (rs_sequence s + 1) hyps (registry_snapshot s) (tk_issued tk) of
             None \<Rightarrow> stop_at_gap tk s ''HARNESS_DIRECTIVE_MISSING''
               (or_str nxt [] @ '': no compiled research directive, registry snapshot or live hypothesis to hand to the harness'') nxt
           | Some action \<Rightarrow> issue_now env tk m s hyps (Some action))
         else issue_now env tk m s hyps None)
       else issue_now env tk m s hyps None))"

definition pick_step :: "service_env \<Rightarrow> tick \<Rightarrow> manifest \<Rightarrow> run_state \<Rightarrow> pick svc" where
  "pick_step env tk m s =
     act_bind act_get (\<lambda>db.
       case current_step (rs_run_id s) db of
         Some w \<Rightarrow> if sw_status w = Step_Issued then act_return (Pick_Step s (sw_step w) (sw_external w) (case sw_output w of Some j \<Rightarrow> if truthy j then Some j else None | None \<Rightarrow> None)) else issue_next env tk m s
       | None \<Rightarrow> issue_next env tk m s)"

definition run_compile :: "service_env \<Rightarrow> tick \<Rightarrow> manifest \<Rightarrow> run_state \<Rightarrow> issued_step \<Rightarrow> run_state svc" where
  "run_compile env tk m s stp =
     act_bind (compile_result env tk (rs_run_id s) s m None) (\<lambda>res.
     let out = JDict [(''result_hash'', JString (sv_result_hash env res))] in
     act_bind (make_receipt env tk stp Step_Executed (ar_evidence res) [] None True [] None) (\<lambda>r.
     act_bind (finish tk (rs_run_id s) (is_sequence stp) Step_Executed (Some r) (Some out) None None) (\<lambda>_.
     act_bind (act_lift Run_Failed (record_automatic_output s (is_step_id stp) out)) (\<lambda>s1.
     act_bind (act_lift Run_Failed (complete_run s1)) (\<lambda>s2.
     act_bind (svc_save tk s2) (\<lambda>_. act_return s2))))))"

definition skip_at_gap :: "service_env \<Rightarrow> tick \<Rightarrow> run_state \<Rightarrow> issued_step \<Rightarrow> string \<Rightarrow> string \<Rightarrow> string \<Rightarrow> (string, json) dict option \<Rightarrow> json option \<Rightarrow> run_state svc" where
  "skip_at_gap env tk s stp code msg err external out =
     act_bind (make_receipt env tk stp Step_Skipped [] [] None False [Message err] None) (\<lambda>r.
     act_bind (finish tk (rs_run_id s) (is_sequence stp) Step_Skipped (Some r) out None external) (\<lambda>_.
     let s' = terminal_gap s code msg (Some (is_step_id stp)) in
     act_bind (svc_save tk s') (\<lambda>_. act_return s')))"

definition fail_step :: "service_env \<Rightarrow> tick \<Rightarrow> run_state \<Rightarrow> issued_step \<Rightarrow> string \<Rightarrow> run_state svc" where
  "fail_step env tk s stp err =
     (let msg = take 2000 err in
      act_bind (make_receipt env tk stp Step_Failed [] [] None False [Message msg] (Some (''STEP_EXECUTOR_ERROR'', msg))) (\<lambda>r.
      act_bind (finish tk (rs_run_id s) (is_sequence stp) Step_Failed (Some r) None None None) (\<lambda>_.
      let s' = s\<lparr>rs_status := Failed_Run, rs_failure := Some (JDict [(''code'', JString ''STEP_EXECUTOR_ERROR''), (''message'', JString msg),
            (''step_id'', JString (is_step_id stp))])\<rparr> in
      act_bind (svc_save tk s') (\<lambda>_. act_return s'))))"

definition outcome_receipt :: "service_env \<Rightarrow> outcome \<Rightarrow> (string, json) dict \<Rightarrow> step_receipt \<Rightarrow> step_receipt" where
  "outcome_receipt env oc out r =
     (let tids = (case map_of out ''hypothesis_transition_ids'' of Some (JList xs) \<Rightarrow> json_strings xs | _ \<Rightarrow> []);
          r1 = (if tids = [] then r else rehash env (r\<lparr>rc_transitions := Some tids\<rparr>))
      in (case oc_admission oc of None \<Rightarrow> r1 | Some a \<Rightarrow> rehash env (r1\<lparr>rc_admission := Some (ad_id a)\<rparr>)))"

text \<open>A terminal outcome: its output recorded (\<open>True\<close>: the loop may go on), or a gap.\<close>

definition record_outcome :: "service_env \<Rightarrow> tick \<Rightarrow> manifest \<Rightarrow> run_state \<Rightarrow> issued_step \<Rightarrow> outcome \<Rightarrow> (bool \<times> run_state) svc" where
  "record_outcome env tk m s stp oc =
     (let given = (case oc_output oc of None \<Rightarrow> [] | Some d \<Rightarrow> d);
          out0 = (if oc_refs oc = [] then given else dict_set ''_evidence_refs'' (JList (oc_refs oc)) given) in
      act_bind (apply_phi_outputs env tk (rs_run_id s) stp m oc out0) (\<lambda>(gap, out).
        case gap of
          Some (code, msg) \<Rightarrow>
            act_bind (skip_at_gap env tk s stp code msg msg (oc_external oc) (Some (JDict out))) (\<lambda>s'. act_return (False, s'))
        | None \<Rightarrow>
            act_bind (make_receipt env tk stp Step_Executed (map er_id (List.map_filter ref_of_json (oc_refs oc)))
                (case oc_external oc of Some (e # ext) \<Rightarrow> [json_text (jget (e # ext) ''operation_id'')] | _ \<Rightarrow> []) None True [] None) (\<lambda>r.
            act_bind (finish tk (rs_run_id s) (is_sequence stp) Step_Executed (Some (outcome_receipt env oc out r)) (Some (JDict out)) None (oc_external oc)) (\<lambda>_.
            act_bind (act_lift Run_Failed (record_automatic_output s (is_step_id stp) (JDict out))) (\<lambda>s'.
            act_bind (svc_save tk s') (\<lambda>_. act_return (True, s')))))))"

definition run_outcome :: "service_env \<Rightarrow> tick \<Rightarrow> manifest \<Rightarrow> run_state \<Rightarrow> issued_step \<Rightarrow> outcome \<Rightarrow> (bool \<times> run_state) svc" where
  "run_outcome env tk m s stp oc =
     (if oc_pending oc
      then
        act_bind (case oc_external oc of Some (e # ext) \<Rightarrow> svc_check ''external_operation_receipt'' (sv_external_valid env (e # ext)) | _ \<Rightarrow> act_return ()) (\<lambda>_.
        act_bind (finish tk (rs_run_id s) (is_sequence stp) Step_Issued None (map_option JDict (oc_output oc)) None (oc_external oc)) (\<lambda>_.
        let s' = s\<lparr>rs_status := Running\<rparr> in
        act_bind (svc_save tk s') (\<lambda>_. act_return (False, s'))))
      else case oc_gap oc of
        Some (code, msg) \<Rightarrow> act_bind (skip_at_gap env tk s stp code msg msg (oc_external oc) None) (\<lambda>s'. act_return (False, s'))
      | None \<Rightarrow> record_outcome env tk m s stp oc)"

definition run_picked :: "service_env \<Rightarrow> tick \<Rightarrow> (string, executor) dict \<Rightarrow> manifest \<Rightarrow> run_state \<Rightarrow> issued_step \<Rightarrow> (string, json) dict option
    \<Rightarrow> json option \<Rightarrow> (bool \<times> run_state) svc" where
  "run_picked env tk execs m s stp ext partial =
     (if is_type stp = ''COMPILE_RESULT'' then act_bind (run_compile env tk m s stp) (\<lambda>s'. act_return (False, s'))
      else case map_of execs (is_type stp) of
        None \<Rightarrow> act_bind (skip_at_gap env tk s stp ''STEP_TYPE_UNSUPPORTED'' (''no executor for '' @ is_type stp) ''unsupported'' None None)
                  (\<lambda>s'. act_return (False, s'))
      | Some ex \<Rightarrow>
          (case ex stp ext partial s m of
             Inl err \<Rightarrow> act_bind (fail_step env tk s stp err) (\<lambda>s'. act_return (False, s'))
           | Inr oc \<Rightarrow> run_outcome env tk m s stp oc))"

text \<open>One turn of the loop of \<open>advance\<close>: \<open>True\<close> when a step was executed and the loop goes on.\<close>

definition advance_one :: "service_env \<Rightarrow> tick \<Rightarrow> (string, executor) dict \<Rightarrow> manifest \<Rightarrow> run_state \<Rightarrow> (bool \<times> run_state) svc" where
  "advance_one env tk execs m s =
     act_bind (pick_step env tk m s) (\<lambda>p. case p of
       Pick_Stop s' \<Rightarrow> act_return (False, s')
     | Pick_Step s' stp ext partial \<Rightarrow> run_picked env tk execs m s' stp ext partial)"

fun advance_loop :: "service_env \<Rightarrow> (nat \<Rightarrow> tick) \<Rightarrow> (string, executor) dict \<Rightarrow> manifest \<Rightarrow> nat \<Rightarrow> run_state \<Rightarrow> run_state svc" where
  "advance_loop env tks execs m 0 s = act_return s"
| "advance_loop env tks execs m (Suc n) s =
     (if rs_status s \<noteq> Running then act_return s
      else act_bind (advance_one env (tks n) execs m s) (\<lambda>(more, s').
        if more then advance_loop env tks execs m n s' else act_return s'))"

text \<open>\<open>max_steps\<close> bounds the executed steps, and every turn that does not end the loop executes one.\<close>

definition advance :: "service_env \<Rightarrow> (nat \<Rightarrow> tick) \<Rightarrow> (string, executor) dict \<Rightarrow> nat \<Rightarrow> string \<Rightarrow> run_state svc" where
  "advance env tks execs max_steps run_id =
     act_bind (svc_load run_id) (\<lambda>row.
     act_bind (manifest_for env (rs_adapter_id (rw_state row))) (\<lambda>m.
       advance_loop env tks execs m max_steps (rw_state row)))"

section \<open>The worker\<close>

text \<open>
  One transaction of the worker's loop: renew the lease, advance one step. \<open>None\<close>: the lease was lost;
  otherwise whether anything progressed and the state.
\<close>

definition row_status :: "string \<Rightarrow> adapter_db \<Rightarrow> step_status option" where
  "row_status run_id db = map_option sw_status (current_step run_id db)"

definition worker_body :: "service_env \<Rightarrow> tick \<Rightarrow> (string, executor) dict \<Rightarrow> string \<Rightarrow> string \<Rightarrow> instant \<Rightarrow> (bool \<times> run_state) option svc" where
  "worker_body env tk execs run_id owner lease db0 =
     (case renew_lease (tk_now tk) run_id owner lease db0 of
        (False, db1) \<Rightarrow> (Inr None, db1)
      | (True, db1) \<Rightarrow>
          (act_bind (svc_load run_id) (\<lambda>was.
           act_bind act_get (\<lambda>dba.
           act_bind (advance env (\<lambda>_. tk) execs 1 run_id) (\<lambda>s.
           act_bind act_get (\<lambda>dbb.
             act_return (Some (is_terminal s \<or> rs_sequence s \<noteq> rs_sequence (rw_state was) \<or> row_status run_id dba \<noteq> row_status run_id dbb, s))))))) db1)"

definition worker_turn :: "service_env \<Rightarrow> tick \<Rightarrow> (string, executor) dict \<Rightarrow> string \<Rightarrow> string \<Rightarrow> instant \<Rightarrow> (bool \<times> run_state) option svc" where
  "worker_turn env tk execs run_id owner lease = tx (worker_body env tk execs run_id owner lease)"

fun worker_loop :: "service_env \<Rightarrow> (nat \<Rightarrow> tick) \<Rightarrow> (string, executor) dict \<Rightarrow> string \<Rightarrow> string \<Rightarrow> instant \<Rightarrow> nat \<Rightarrow> unit svc" where
  "worker_loop env tks execs run_id owner lease 0 = act_return ()"
| "worker_loop env tks execs run_id owner lease (Suc n) =
     act_bind (worker_turn env (tks n) execs run_id owner lease) (\<lambda>r. case r of
       None \<Rightarrow> act_return ()
     | Some (progressed, s) \<Rightarrow>
         if \<not> progressed \<or> rs_status s \<noteq> Running then act_return () else worker_loop env tks execs run_id owner lease n)"

text \<open>Claim one run and drive it; the lease is released also when a turn raises. \<open>n\<close> bounds the turns.\<close>

definition process_one :: "service_env \<Rightarrow> (nat \<Rightarrow> tick) \<Rightarrow> (string, executor) dict \<Rightarrow> (string \<Rightarrow> bool) \<Rightarrow> string \<Rightarrow> instant \<Rightarrow> nat
    \<Rightarrow> string option svc" where
  "process_one env tks execs locked owner lease n db =
     (case claim_run (tk_now (tks n)) locked owner lease db of
        (None, db1) \<Rightarrow> (Inr None, db1)
      | (Some run_id, db1) \<Rightarrow>
          (case worker_loop env tks execs run_id owner lease n db1 of
             (Inl e, db2) \<Rightarrow> (Inl e, release_lease run_id owner db2)
           | (Inr _, db2) \<Rightarrow> (Inr (Some run_id), release_lease run_id owner db2)))"

end
