(* ===== verification/Adapter_Facts.thy ===== *)
theory Adapter_Facts
  imports Adapter_Run
begin

text \<open>
  What the adapter's run transitions guarantee: one step relation for all transitions, the state
  invariant (budgets, step/status agreement, acceptance order) and its preservation, progress on
  admitted manifests, finality of terminal states, and the acceptance rules of submissions.
\<close>

section \<open>Runs\<close>

text \<open>
  The transitions of the module, and the three the service makes on a state itself: it sets a new
  run (or one whose external operation is pending) running, records the failure of an executor, and
  replaces the output it has just accepted by one with the ledger's ids.
\<close>

inductive run_step :: "contracts \<Rightarrow> manifest \<Rightarrow> run_state \<Rightarrow> run_state \<Rightarrow> bool" for c m where
  Issue: "issue_step c m s a = Inr (t, stp) \<Longrightarrow> run_step c m s t"
| Accept: "accept_submission c s stp sub = Inr t \<Longrightarrow> run_step c m s t"
| Automatic: "record_automatic_output s sid out = Inr t \<Longrightarrow> run_step c m s t"
| Cancel: "t = cancel_run s \<Longrightarrow> run_step c m s t"
| Gap: "t = terminal_gap s code msg sid \<Longrightarrow> run_step c m s t"
| Complete: "complete_run s = Inr t \<Longrightarrow> run_step c m s t"
| Begin: "rs_status s \<in> {Created, Running} \<Longrightarrow> run_step c m s (s\<lparr>rs_status := Running\<rparr>)"
| Fail: "\<not> is_terminal s \<Longrightarrow> run_step c m s (s\<lparr>rs_status := Failed_Run, rs_failure := Some f\<rparr>)"
| Rewrite: "\<not> is_terminal s \<Longrightarrow> sid \<in> fst ` set (rs_outputs s) \<Longrightarrow> run_step c m s (s\<lparr>rs_outputs := dict_set sid out (rs_outputs s)\<rparr>)"

inductive_cases run_stepE: "run_step c m s t"

definition capped :: "int option \<Rightarrow> int \<Rightarrow> bool" where
  "capped b n = (n \<le> (case b of None \<Rightarrow> unlimited | Some k \<Rightarrow> k))"

definition within_budgets :: "budget_def \<Rightarrow> run_state \<Rightarrow> bool" where
  "within_budgets b s =
     (0 \<le> rs_sequence s \<and> rs_sequence s \<le> bg_max_steps b \<and> rs_agent s \<le> bg_max_agent_reason b \<and>
      rs_loops s \<le> bg_max_branch_loops b \<and> capped (bg_max_external_operations b) (rs_external s) \<and>
      capped (bg_max_harness_actions b) (rs_harness s))"

definition counts_ok :: "run_state \<Rightarrow> bool" where
  "counts_ok s = (0 \<le> rs_agent s \<and> 0 \<le> rs_external s \<and> 0 \<le> rs_harness s \<and>
     rs_agent s + rs_external s + rs_harness s \<le> rs_sequence s)"

definition position_ok :: "manifest \<Rightarrow> run_state \<Rightarrow> bool" where
  "position_ok m s =
     ((case rs_current s of
         None \<Rightarrow> rs_status s \<notin> {Awaiting_Agent, Awaiting_Harness}
       | Some sid \<Rightarrow> \<exists>sp. map_of (mf_steps m) sid = Some sp \<and>
           (rs_status s = Awaiting_Agent \<longrightarrow> sp_type sp = ''AGENT_REASON'') \<and>
           (rs_status s = Awaiting_Harness \<longrightarrow> sp_type sp = ''HARNESS_ACTION'')) \<and>
      (rs_current s = None \<longleftrightarrow> rs_sequence s = 0))"

definition order_ok :: "run_state \<Rightarrow> bool" where
  "order_ok s = (distinct (rs_order s) \<and> distinct (map fst (rs_outputs s)) \<and>
     set (rs_order s) = fst ` set (rs_outputs s))"

definition run_inv :: "manifest \<Rightarrow> run_state \<Rightarrow> bool" where
  "run_inv m s = (within_budgets (mf_budgets m) s \<and> counts_ok s \<and> position_ok m s \<and> order_ok s)"

definition budgets_ok :: "budget_def \<Rightarrow> bool" where
  "budgets_ok b = (1 \<le> bg_max_steps b \<and> 0 \<le> bg_max_agent_reason b \<and> 0 \<le> bg_max_branch_loops b \<and>
     capped (bg_max_external_operations b) 0 \<and> capped (bg_max_harness_actions b) 0)"

section \<open>Preservation\<close>

lemma lift_manifest_Inr [simp]: "lift_manifest r = Inr x \<longleftrightarrow> r = Inr x"
  by (cases r) (auto simp: lift_manifest_def)

lemma step_Inr [simp]: "step m sid = Inr sp \<longleftrightarrow> map_of (mf_steps m) sid = Some sp"
  by (auto simp: step_def split: option.splits)

lemma issue_stepD:
  assumes "issue_step c m s a = Inr (t, stp)"
  shows "\<exists>sid sp. next_step_id m s = Inr (Some sid) \<and> map_of (mf_steps m) sid = Some sp \<and> \<not> is_terminal s \<and>
    check_budgets m s (sp_type sp) (took_branch m s sid) = Inr () \<and>
    t = advance_state s sid (sp_type sp) (took_branch m s sid) \<and> stp = build_step s a sid sp (rs_sequence s + 1)"
  using assms by (auto simp: issue_step_def Let_def split: if_splits option.splits)

lemma check_budgetsD:
  assumes "check_budgets m s t took = Inr ()"
  shows "rs_sequence s + 1 \<le> bg_max_steps (mf_budgets m)"
    "t = ''AGENT_REASON'' \<Longrightarrow> rs_agent s + 1 \<le> bg_max_agent_reason (mf_budgets m)"
    "t = ''EXTERNAL_OPERATION'' \<Longrightarrow> capped (bg_max_external_operations (mf_budgets m)) (rs_external s + 1)"
    "t = ''HARNESS_ACTION'' \<Longrightarrow> capped (bg_max_harness_actions (mf_budgets m)) (rs_harness s + 1)"
    "took \<Longrightarrow> rs_loops s + 1 \<le> bg_max_branch_loops (mf_budgets m)"
  using assms unfolding check_budgets_def capped_def Let_def by (simp_all split: if_splits)

lemma check_budgets_ok:
  assumes "check_budgets m s t took = Inr ()" "within_budgets (mf_budgets m) s"
  shows "within_budgets (mf_budgets m) (advance_state s sid t took)"
proof -
  note d = check_budgetsD [OF assms(1)]
  show ?thesis
    using assms(2) d(1) unfolding within_budgets_def advance_state_def bump_def
    by (cases took; cases "t = ''AGENT_REASON''"; cases "t = ''EXTERNAL_OPERATION''"; cases "t = ''HARNESS_ACTION''")
      (simp_all add: d)
qed

lemma accept_submissionD:
  assumes "accept_submission c s stp sub = Inr t"
  shows "\<exists>kind. expected_for (is_type stp) = Some (rs_status s, kind) \<and> rs_current s = Some (is_step_id stp) \<and>
    rs_current s = Some (sb_step_id sub) \<and> \<not> is_terminal s \<and> submission_errors c stp sub = [] \<and>
    (\<not> some_str (sb_kind sub) \<or> sb_kind sub = Some kind) \<and> cv_submission c sub = [] \<and>
    t = (record_output s (is_step_id stp) (sb_payload sub))\<lparr>rs_status := Running\<rparr>"
  using assms unfolding accept_submission_def assert_valid_def
  by (auto split: if_splits option.splits)

lemma record_output_order: "order_ok s \<Longrightarrow> order_ok (record_output s sid out)"
  by (auto simp: order_ok_def record_output_def bump_order_def)

lemma closed_inv:
  assumes "run_inv m s" "st \<in> set TERMINAL_RUN_STATUSES"
  shows "run_inv m (s\<lparr>rs_status := st\<rparr>)" "run_inv m (s\<lparr>rs_status := st, rs_gap := g\<rparr>)"
  using assms unfolding run_inv_def within_budgets_def counts_ok_def position_ok_def order_ok_def TERMINAL_RUN_STATUSES_def
  by (auto split: option.splits simp del: set_map)

lemma run_step_keeps_inv:
  assumes "run_step c m s t" "run_inv m s"
  shows "run_inv m t"
  using assms(1)
proof (cases rule: run_step.cases)
  case (Issue a stp)
  then obtain sid sp where i: "map_of (mf_steps m) sid = Some sp" "check_budgets m s (sp_type sp) (took_branch m s sid) = Inr ()"
    "t = advance_state s sid (sp_type sp) (took_branch m s sid)" using issue_stepD by blast
  have "within_budgets (mf_budgets m) t" using check_budgets_ok i(2,3) assms(2) by (simp add: run_inv_def)
  moreover have "counts_ok t" "position_ok m t" "order_ok t"
    using assms(2) i(1) unfolding i(3) run_inv_def counts_ok_def position_ok_def order_ok_def within_budgets_def
    by (auto simp: advance_state_def bump_def status_for_def)
  ultimately show ?thesis by (simp add: run_inv_def)
next
  case (Accept stp sub)
  then have t: "t = (record_output s (is_step_id stp) (sb_payload sub))\<lparr>rs_status := Running\<rparr>"
    "rs_current s = Some (is_step_id stp)" using accept_submissionD by blast+
  have "order_ok (record_output s (is_step_id stp) (sb_payload sub))"
    using assms(2) record_output_order by (simp add: run_inv_def)
  then show ?thesis using assms(2) t
    by (auto simp: run_inv_def within_budgets_def counts_ok_def position_ok_def order_ok_def record_output_def)
next
  case (Automatic sid out)
  then have t: "t = record_output s sid out" by (auto simp: record_automatic_output_def split: if_splits)
  have "order_ok t" using assms(2) record_output_order unfolding t by (simp add: run_inv_def)
  then show ?thesis using assms(2) t
    by (auto simp: run_inv_def within_budgets_def counts_ok_def position_ok_def record_output_def)
next
  case Cancel
  then show ?thesis using assms(2) closed_inv [of m s Cancelled] by (simp add: cancel_run_def TERMINAL_RUN_STATUSES_def)
next
  case (Gap code msg sid)
  then show ?thesis using assms(2) closed_inv [of m s At_Gap] by (simp add: terminal_gap_def TERMINAL_RUN_STATUSES_def)
next
  case Complete
  then have "t = s\<lparr>rs_status := Completed\<rparr>" by (simp add: complete_run_def split: if_splits)
  then show ?thesis using assms(2) closed_inv [of m s Completed] by (simp add: TERMINAL_RUN_STATUSES_def)
next
  case Begin
  then show ?thesis using assms(2) unfolding Begin(1) run_inv_def within_budgets_def counts_ok_def position_ok_def order_ok_def
    by (auto split: option.splits)
next
  case (Fail f)
  then show ?thesis using assms(2) unfolding Fail(1) run_inv_def within_budgets_def counts_ok_def position_ok_def order_ok_def
    by (auto split: option.splits)
next
  case (Rewrite sid out)
  have "distinct (map fst (rs_outputs t))" "fst ` set (rs_outputs t) = fst ` set (rs_outputs s)"
    using assms(2) Rewrite(3) unfolding Rewrite(1) run_inv_def order_ok_def by (auto simp del: set_map)
  then show ?thesis using assms(2) unfolding Rewrite(1) run_inv_def within_budgets_def counts_ok_def position_ok_def order_ok_def
    by (simp split: option.splits)
qed

interpretation adapter_runs: step_invariant "run_step c m" "run_inv m" for c m
  by unfold_locales (rule run_step_keeps_inv)

lemma start_run_inv:
  assumes "start_run c m rid inp opts = Inr s" "budgets_ok (mf_budgets m)"
  shows "run_inv m s"
  using assms unfolding start_run_def budgets_ok_def run_inv_def within_budgets_def counts_ok_def position_ok_def order_ok_def Let_def
  by (auto split: if_splits)

lemma run_reachable_inv:
  assumes "start_run c m rid inp opts = Inr s0" "budgets_ok (mf_budgets m)" "(run_step c m)\<^sup>*\<^sup>* s0 s"
  shows "run_inv m s"
  using adapter_runs.run_keeps [OF assms(3)] start_run_inv [OF assms(1,2)] by blast

lemma next_step_known:
  assumes "\<And>sid sp. map_of (mf_steps m) sid = Some sp \<Longrightarrow> step_ok (mf_steps m) sid sp"
    "map_of (mf_steps m) (mf_entry m) \<noteq> None" "position_ok m s"
  shows "\<exists>nxt. next_step_id m s = Inr nxt \<and> (\<forall>sid. nxt = Some sid \<longrightarrow> map_of (mf_steps m) sid \<noteq> None) \<and>
    (nxt = None \<longrightarrow> (\<exists>sid. rs_current s = Some sid \<and> map_option sp_type (map_of (mf_steps m) sid) = Some ''COMPILE_RESULT''))"
proof (cases "rs_current s")
  case None
  then show ?thesis using assms(2) by (simp add: next_step_id_def)
next
  case (Some cur)
  then obtain sp where sp: "map_of (mf_steps m) cur = Some sp" using assms(3) by (auto simp: position_ok_def)
  then have ok: "step_ok (mf_steps m) cur sp" by (rule assms(1))
  have br: "map_of (mf_steps m) (br_next b) \<noteq> None" if "taken_branch sp s = Some b" for b
    using that ok unfolding taken_branch_def step_ok_def find_Some_iff by (metis nth_mem)
  show ?thesis
    using Some sp ok br by (auto simp: next_step_id_def step_def lift_manifest_def step_ok_def split: option.splits if_splits)
qed

lemma check_budgets_cases: "check_budgets m s t took = Inr () \<or> (\<exists>b. check_budgets m s t took = Inl (Budget_Exhausted b))"
  by (simp add: check_budgets_def Let_def)

section \<open>A concrete run\<close>

text \<open>A three-step manifest (retrieve, reason, compile) and validators that accept everything.\<close>

definition demo_step :: "string \<Rightarrow> string \<Rightarrow> string option \<Rightarrow> step_def" where
  "demo_step sid typ nxt = \<lparr>sp_id = sid, sp_type = typ, sp_title = ''t'', sp_objective = Some ''o'', sp_next = nxt,
     sp_output_schema = Some (JDict [(''type'', JString ''object'')]), sp_acceptance_rules = [], sp_constraints = [],
     sp_branches = [], sp_external = None, sp_cognitive_op = None, sp_theta_op = None, sp_harness = None, sp_harness_block = [], sp_include = []\<rparr>"

definition demo_raw :: raw_manifest where
  "demo_raw = \<lparr>rm_identity = \<lparr>mi_adapter_id = ''a'', mi_adapter_version = ''1'', mi_workflow_version = ''1'',
       mi_retrieval_policy_version = ''1'', mi_input_schema_version = ''1'', mi_output_schema_version = ''1''\<rparr>,
     rm_budgets = \<lparr>bg_max_steps = 5, bg_max_agent_reason = 2, bg_max_branch_loops = 1, bg_max_external_operations = None,
       bg_max_harness_actions = None, bg_max_hypotheses = None\<rparr>, rm_entry = ''get'', rm_terminal = ''end'',
     rm_steps = [demo_step ''get'' ''POLYMATH_RETRIEVE'' (Some ''think''), demo_step ''think'' ''AGENT_REASON'' (Some ''end''),
       demo_step ''end'' ''COMPILE_RESULT'' None], rm_input_schema = None\<rparr>"

definition demo_manifest :: manifest where
  "demo_manifest = \<lparr>mf_identity = rm_identity demo_raw, mf_entry = ''get'', mf_terminal = ''end'',
     mf_budgets = rm_budgets demo_raw, mf_steps = steps_by_id (rm_steps demo_raw), mf_raw = demo_raw\<rparr>"

definition accept_all :: contracts where
  "accept_all = \<lparr>cv_schema = \<lambda>_ _. [], cv_action = \<lambda>_. [], cv_step = \<lambda>_. [], cv_submission = \<lambda>_. [], cv_receipt = \<lambda>_. [],
     cv_view = \<lambda>_. []\<rparr>"

definition demo_args :: issue_args where
  "demo_args = \<lparr>ia_issued_at = ''now'', ia_evidence_refs = [\<lparr>er_id = ''c1'', er_kind = Some ''chunk''\<rparr>], ia_inputs = [],
     ia_hypotheses = [], ia_registry = [], ia_harness_action = [], ia_admitted = []\<rparr>"

definition demo_start :: run_state where
  "demo_start = \<lparr>rs_run_id = ''r'', rs_adapter_id = ''a'', rs_status = Created, rs_current = None, rs_sequence = 0,
     rs_accepted = 0, rs_loops = 0, rs_agent = 0, rs_external = 0, rs_harness = 0, rs_input = [], rs_options = [],
     rs_outputs = [], rs_order = [], rs_failure = None, rs_gap = None\<rparr>"

lemmas demo_defs = demo_step_def demo_raw_def demo_manifest_def accept_all_def demo_args_def demo_start_def

lemma demo_loads: "load_manifest (\<lambda>_. []) ''m'' demo_raw = Inr demo_manifest"
  by code_simp

lemma demo_starts: "start_run accept_all demo_manifest ''r'' [] [] = Inr demo_start"
  by code_simp

definition demo_issued :: "run_state \<times> issued_step" where
  "demo_issued = (case issue_step accept_all demo_manifest demo_start demo_args of Inr x \<Rightarrow> x | Inl _ \<Rightarrow> (demo_start, undefined))"

lemma demo_issues: "issue_step accept_all demo_manifest demo_start demo_args = Inr demo_issued"
  by code_simp

definition demo_running :: run_state where
  "demo_running = record_output (fst demo_issued) ''get'' (JDict [])"

definition demo_thinking :: "run_state \<times> issued_step" where
  "demo_thinking = (case issue_step accept_all demo_manifest demo_running demo_args of Inr x \<Rightarrow> x | Inl _ \<Rightarrow> demo_issued)"

lemma demo_thinks: "issue_step accept_all demo_manifest demo_running demo_args = Inr demo_thinking"
  by code_simp

definition demo_answer :: submission where
  "demo_answer = \<lparr>sb_step_id = ''think'', sb_kind = Some ''reasoning'',
     sb_payload = JDict [(''claims'', JList [JDict [(''evidence_ids'', JList [JString ''c1''])]])]\<rparr>"

definition demo_answered :: run_state where
  "demo_answered = (case accept_submission accept_all (fst demo_thinking) (snd demo_thinking) demo_answer of
     Inr t \<Rightarrow> t | Inl _ \<Rightarrow> demo_start)"

lemma demo_accepts: "accept_submission accept_all (fst demo_thinking) (snd demo_thinking) demo_answer = Inr demo_answered"
  by code_simp

lemma demo_reaches: "(run_step accept_all demo_manifest)\<^sup>*\<^sup>* demo_start demo_answered"
proof -
  have "run_step accept_all demo_manifest demo_start (fst demo_issued)"
    by (rule run_step.Issue [of _ _ _ demo_args _ "snd demo_issued"]) (simp add: demo_issues)
  moreover have "record_automatic_output (fst demo_issued) ''get'' (JDict []) = Inr demo_running" by code_simp
  then have "run_step accept_all demo_manifest (fst demo_issued) demo_running" by (rule run_step.Automatic)
  moreover have "run_step accept_all demo_manifest demo_running (fst demo_thinking)"
    by (rule run_step.Issue [of _ _ _ demo_args _ "snd demo_thinking"]) (simp add: demo_thinks)
  moreover have "run_step accept_all demo_manifest (fst demo_thinking) demo_answered"
    by (rule run_step.Accept [OF demo_accepts])
  ultimately show ?thesis by (meson converse_rtranclp_into_rtranclp rtranclp.rtrancl_refl)
qed

section \<open>Properties\<close>

text \<open>
  A run never exceeds its budgets: in every state reachable from a started run, through any
  interleaving of issued steps, submissions, automatic outputs, cancellations, gaps and
  completions, at most \<open>max_steps\<close> steps have been issued, and the agent, external, harness and
  branch-loop counters stay within theirs.
\<close>

theorem run_within_budgets:
  assumes "start_run c m rid inp opts = Inr s0" "budgets_ok (mf_budgets m)" "(run_step c m)\<^sup>*\<^sup>* s0 s"
  shows "rs_sequence s \<le> bg_max_steps (mf_budgets m) \<and> rs_agent s \<le> bg_max_agent_reason (mf_budgets m) \<and>
    rs_loops s \<le> bg_max_branch_loops (mf_budgets m) \<and>
    capped (bg_max_external_operations (mf_budgets m)) (rs_external s) \<and>
    capped (bg_max_harness_actions (mf_budgets m)) (rs_harness s) \<and>
    rs_agent s + rs_external s + rs_harness s \<le> rs_sequence s"
  using run_reachable_inv [OF assms] by (simp add: run_inv_def within_budgets_def counts_ok_def)

theorem run_within_budgets_witness:
  "rs_sequence demo_answered \<le> 5 \<and> rs_agent demo_answered \<le> 2 \<and> rs_sequence demo_answered = 2 \<and> rs_agent demo_answered = 1"
proof -
  have "budgets_ok (mf_budgets demo_manifest)" by code_simp
  from run_within_budgets [OF demo_starts this demo_reaches]
  show ?thesis by (simp add: demo_manifest_def demo_raw_def) (code_simp)
qed

text \<open>
  C6. A run over an admitted manifest never gets stuck on its graph: in every reachable state
  that is not terminal, the next step exists and is declared (issuing it never raises an unknown
  step or a missing external operation) unless the current step is the compile step, which has no
  successor; the only other ways to refuse are an exhausted budget, a missing harness action and
  a contract violation of the payload. What is issued has the type the manifest declares, and an
  external operation carries its system and kind.
\<close>

theorem admitted_run_progress:
  assumes "load_manifest validate name raw = Inr m" "start_run c m rid inp opts = Inr s0" "budgets_ok (mf_budgets m)"
    "(run_step c m)\<^sup>*\<^sup>* s0 s" "\<not> is_terminal s"
  shows "case issue_step c m s a of
      Inr (t, stp) \<Rightarrow> (\<exists>sp. map_of (mf_steps m) (is_step_id stp) = Some sp \<and> is_type stp = sp_type sp \<and>
          is_type stp \<in> set STEP_TYPES \<and> (is_type stp = ''EXTERNAL_OPERATION'' \<longrightarrow> is_external stp \<noteq> None)) \<and>
        rs_current t = Some (is_step_id stp) \<and> is_sequence stp = rs_sequence t
    | Inl e \<Rightarrow> (\<exists>b. e = Budget_Exhausted b) \<or> (\<exists>sid. e = Needs_Harness_Action sid) \<or>
        (\<exists>n vs. e = Contract_Violation n vs) \<or>
        e = No_Successor \<and> (\<exists>sid. rs_current s = Some sid \<and>
          map_option sp_type (map_of (mf_steps m) sid) = Some ''COMPILE_RESULT'')"
proof -
  note wf = load_manifest_wf [OF assms(1)]
  have ok: "\<And>sid sp. map_of (mf_steps m) sid = Some sp \<Longrightarrow> step_ok (mf_steps m) sid sp"
    and entry: "map_of (mf_steps m) (mf_entry m) \<noteq> None" using wf by (auto simp: wf_manifest_def)
  have pos: "position_ok m s" using run_reachable_inv [OF assms(2-4)] by (simp add: run_inv_def)
  obtain nxt where n: "next_step_id m s = Inr nxt"
    "\<And>sid. nxt = Some sid \<Longrightarrow> map_of (mf_steps m) sid \<noteq> None"
    "nxt = None \<Longrightarrow> \<exists>sid. rs_current s = Some sid \<and> map_option sp_type (map_of (mf_steps m) sid) = Some ''COMPILE_RESULT''"
    using next_step_known [OF ok entry pos] by blast
  show ?thesis
  proof (cases nxt)
    case None
    then show ?thesis using n(1,3) assms(5) by (simp add: issue_step_def)
  next
    case (Some sid)
    then obtain sp where sp: "map_of (mf_steps m) sid = Some sp" using n(2) by blast
    have sok: "step_ok (mf_steps m) sid sp" using ok sp by blast
    have st: "lift_manifest (step m sid) = Inr sp" using sp by simp
    have ex: "\<not> (sp_type sp = ''EXTERNAL_OPERATION'' \<and> sp_external sp = None)" using sok by (auto simp: step_ok_def)
    let ?stp = "build_step s a sid sp (rs_sequence s + 1)"
    consider b where "check_budgets m s (sp_type sp) (took_branch m s sid) = Inl (Budget_Exhausted b)"
      | e where "check_budgets m s (sp_type sp) (took_branch m s sid) = Inr ()" "harness_check c sid sp a = Inl e"
      | e where "check_budgets m s (sp_type sp) (took_branch m s sid) = Inr ()" "harness_check c sid sp a = Inr ()"
          "assert_valid ''adapter_step'' (cv_step c ?stp) = Inl e"
      | "check_budgets m s (sp_type sp) (took_branch m s sid) = Inr ()" "harness_check c sid sp a = Inr ()"
          "assert_valid ''adapter_step'' (cv_step c ?stp) = Inr ()"
      using check_budgets_cases [of m s "sp_type sp" "took_branch m s sid"]
      by (cases "harness_check c sid sp a"; cases "assert_valid ''adapter_step'' (cv_step c ?stp)") auto
    then show ?thesis
    proof cases
      case 1
      then have "issue_step c m s a = Inl (Budget_Exhausted b)"
        using n(1) Some st assms(5) by (simp add: issue_step_def)
      then show ?thesis by simp
    next
      case 2
      then have "issue_step c m s a = Inl e" using n(1) Some st assms(5) by (simp add: issue_step_def)
      moreover have "e = Needs_Harness_Action sid \<or> (\<exists>n vs. e = Contract_Violation n vs)"
        using 2(2) by (auto simp: harness_check_def assert_valid_def split: if_splits)
      ultimately show ?thesis by auto
    next
      case 3
      then have "issue_step c m s a = Inl e" using n(1) Some st ex assms(5) by (auto simp: issue_step_def Let_def)
      moreover have "\<exists>n vs. e = Contract_Violation n vs" using 3(3) by (auto simp: assert_valid_def split: if_splits)
      ultimately show ?thesis by simp
    next
      case 4
      then have "issue_step c m s a = Inr (advance_state s sid (sp_type sp) (took_branch m s sid), ?stp)"
        using n(1) Some st ex assms(5) by (auto simp: issue_step_def Let_def)
      then show ?thesis using sp sok ex
        by (auto simp: build_step_def advance_state_def step_ok_def)
    qed
  qed
qed

theorem admitted_run_progress_witness:
  "\<exists>t stp. issue_step accept_all demo_manifest demo_answered demo_args = Inr (t, stp) \<and>
    is_type stp \<in> set STEP_TYPES \<and> rs_current t = Some ''end''"
proof -
  have "budgets_ok (mf_budgets demo_manifest)" "\<not> is_terminal demo_answered" by code_simp+
  note p = admitted_run_progress [OF demo_loads demo_starts this(1) demo_reaches this(2), of demo_args]
  obtain t stp where i: "issue_step accept_all demo_manifest demo_answered demo_args = Inr (t, stp)"
    "rs_current t = Some ''end''"
  proof -
    have "(case issue_step accept_all demo_manifest demo_answered demo_args of
        Inr (t, stp) \<Rightarrow> rs_current t = Some ''end'' | Inl _ \<Rightarrow> False)" by code_simp
    then show ?thesis using that by (auto split: sum.splits)
  qed
  then show ?thesis using p by auto
qed

lemma terminal_stays:
  assumes "is_terminal s" "(run_step c m)\<^sup>*\<^sup>* s t"
  shows "t = s"
proof -
  have "u = s" if "run_step c m s u" for u
    using that assms(1)
    by (cases rule: run_step.cases)
      (auto dest!: issue_stepD accept_submissionD
        simp: record_automatic_output_def complete_run_def cancel_run_def terminal_gap_def is_terminal_def
          TERMINAL_RUN_STATUSES_def split: if_splits)
  from assms(2) this show ?thesis by (induction rule: rtranclp_induct) auto
qed

text \<open>
  Terminal states are final: a completed, cancelled, failed or gapped run is never changed by
  any transition, so accepted work is never rolled back and no step is issued any more.
\<close>

theorem terminal_run_is_final:
  assumes "is_terminal s" "(run_step c m)\<^sup>*\<^sup>* s t"
  shows "t = s"
  by (rule terminal_stays [OF assms])

theorem terminal_run_is_final_witness:
  "terminal_gap (cancel_run demo_answered) ''late'' ''m'' None = cancel_run demo_answered \<and> rs_status (cancel_run demo_answered) = Cancelled"
proof -
  have c: "is_terminal (cancel_run demo_answered)" "rs_status (cancel_run demo_answered) = Cancelled" by code_simp+
  have "(run_step accept_all demo_manifest)\<^sup>*\<^sup>* (cancel_run demo_answered) (terminal_gap (cancel_run demo_answered) ''late'' ''m'' None)"
    by (rule r_into_rtranclp) (rule run_step.Gap [OF refl])
  from terminal_run_is_final [OF c(1) this] show ?thesis using c(2) by simp
qed

section \<open>Submissions\<close>

lemma run_step_sequence:
  assumes "run_step c m s t"
  shows "rs_sequence s \<le> rs_sequence t"
    "rs_sequence t = rs_sequence s \<Longrightarrow> rs_status s \<notin> {Awaiting_Agent, Awaiting_Harness} \<Longrightarrow>
     rs_status t \<notin> {Awaiting_Agent, Awaiting_Harness}"
  using assms
  by (cases rule: run_step.cases;
      auto dest!: issue_stepD accept_submissionD simp: advance_state_def record_automatic_output_def complete_run_def
        cancel_run_def terminal_gap_def record_output_def split: if_splits)+

lemma quiet_run:
  assumes "(run_step c m)\<^sup>*\<^sup>* t u" "rs_status t \<notin> {Awaiting_Agent, Awaiting_Harness}"
  shows "rs_sequence t \<le> rs_sequence u \<and> (rs_sequence u = rs_sequence t \<longrightarrow> rs_status u \<notin> {Awaiting_Agent, Awaiting_Harness})"
  using assms(1)
proof (induction rule: rtranclp_induct)
  case base
  then show ?case using assms(2) by simp
next
  case (step u v)
  show ?case using run_step_sequence [OF step(2)] step(3) by fastforce
qed

text \<open>
  C29. One submission per issuance: once a submission is accepted, every further submission for any
  step is refused, with a contract violation or a recorded rejection, until the run issues another
  step, whatever automatic outputs, cancellations, gaps or completions come between.
\<close>

theorem one_submission_per_issue:
  assumes "accept_submission c s stp sub = Inr t" "(run_step c m)\<^sup>*\<^sup>* t u" "rs_sequence u = rs_sequence t"
  shows "(\<exists>vs. accept_submission c u stp' sub' = Inl (Contract_Violation ''adapter_submission'' vs)) \<or>
    (\<exists>r. accept_submission c u stp' sub' = Inl (Submission_Rejected [r]))"
proof -
  have "rs_status t = Running" using accept_submissionD [OF assms(1)] by auto
  then have "rs_status u \<notin> {Awaiting_Agent, Awaiting_Harness}" using quiet_run [OF assms(2)] assms(3) by auto
  then show ?thesis
    by (auto simp: accept_submission_def assert_valid_def expected_for_def split: if_splits)
qed

theorem one_submission_per_issue_witness:
  "\<exists>r. accept_submission accept_all (cancel_run demo_answered) (snd demo_thinking) demo_answer = Inl (Submission_Rejected [r])"
proof -
  have c: "(run_step accept_all demo_manifest)\<^sup>*\<^sup>* demo_answered (cancel_run demo_answered)"
    by (rule r_into_rtranclp) (rule run_step.Cancel [OF refl])
  have "rs_sequence (cancel_run demo_answered) = rs_sequence demo_answered" by code_simp
  from one_submission_per_issue [OF demo_accepts c this, of "snd demo_thinking" demo_answer]
  have "(\<exists>vs. accept_submission accept_all (cancel_run demo_answered) (snd demo_thinking) demo_answer =
      Inl (Contract_Violation ''adapter_submission'' vs)) \<or> ?thesis" .
  moreover have "assert_valid ''adapter_submission'' (cv_submission accept_all demo_answer) = Inr ()"
    "is_terminal (cancel_run demo_answered)" by code_simp+
  ultimately show ?thesis by (auto simp: accept_submission_def)
qed

subsection \<open>Citations\<close>

text \<open>What a payload cites: strings directly in a list under a key ending in \<open>_ids\<close>.\<close>

inductive cites :: "json \<Rightarrow> string \<Rightarrow> bool" where
  Direct: "(k, JList xs) \<in> set d \<Longrightarrow> cites_key k \<Longrightarrow> JString x \<in> set xs \<Longrightarrow> cites (JDict d) x"
| Field: "(k, v) \<in> set d \<Longrightarrow> \<not> (cites_key k \<and> (\<exists>xs. v = JList xs)) \<Longrightarrow> cites v x \<Longrightarrow> cites (JDict d) x"
| Element: "v \<in> set vs \<Longrightarrow> cites v x \<Longrightarrow> cites (JList vs) x"

lemma json_strings_set: "x \<in> set (json_strings xs) \<longleftrightarrow> JString x \<in> set xs"
  by (induction xs rule: json_strings.induct) auto

lemma cited_in_dict_set: "set (cited_in_dict d) = (\<Union>(k, v) \<in> set d.
    if cites_key k \<and> (\<exists>xs. v = JList xs) then {x. \<exists>xs. v = JList xs \<and> JString x \<in> set xs} else set (cited_ids v))"
proof (induction d)
  case (Cons p d)
  then show ?case by (cases p; cases "snd p") (auto simp: json_strings_set)
qed simp

lemma cited_in_list_set: "set (cited_in_list vs) = (\<Union>v \<in> set vs. set (cited_ids v))"
  by (induction vs) auto

lemma cites_cited: "cites p x \<Longrightarrow> x \<in> set (cited_ids p)"
proof (induction rule: cites.induct)
  case (Direct k xs d x)
  then show ?case by (auto simp: cited_in_dict_set intro!: bexI [of _ "(k, JList xs)"])
next
  case (Field k v d x)
  then show ?case by (auto simp: cited_in_dict_set intro!: bexI [of _ "(k, v)"])
next
  case (Element v vs x)
  then show ?case by (auto simp: cited_in_list_set)
qed



text \<open>
  The scan does not look inside the elements of a citing list: an id nested there is accepted
  unchecked, although the description speaks of every string under such a key.
\<close>

lemma nested_citation_unchecked:
  "cited_ids (JDict [(''evidence_ids'', JList [JDict [(''source_ids'', JList [JString x])]])]) = []"
  by (simp add: cites_key_def suffix_def)

end
