(* ===== verification/Service_Facts.thy ===== *)
theory Service_Facts
  imports Adapter_Service Adapter_Facts
begin

text \<open>
  What the adapter service guarantees over any history of its transactions: the stored runs follow
  the run machine of \<open>Adapter_Facts\<close> and stay within their budgets, the step rows of a run are numbered
  like its sequence; a worker only writes where it holds the lease; the evidence shown for citation;
  and that the newest revisions in the table are the ones the ledger returned.
\<close>

section \<open>What the operations of one run leave alone\<close>

text \<open>
  An observer of the tables that does not see the ledger's tables, the actions, the evidence and the
  results, nor what \<open>finish_step\<close> writes on the rows of the run \<open>rid\<close>.
\<close>

locale observer =
  fixes obs :: "adapter_db \<Rightarrow> 'o"
    and rid :: string
  assumes obs_hyps: "obs (db\<lparr>db_hyps := a1\<rparr>) = obs db"
    and obs_trans: "obs (db\<lparr>db_trans := a2\<rparr>) = obs db"
    and obs_actions: "obs (db\<lparr>db_actions := a3\<rparr>) = obs db"
    and obs_evidence: "obs (db\<lparr>db_evidence := a4\<rparr>) = obs db"
    and obs_results: "obs (db\<lparr>db_results := a5\<rparr>) = obs db"
    and obs_finish: "obs (finish_step now rid q st r out sub ext db) = obs db"
begin

abbreviation quiet :: "'a svc \<Rightarrow> bool" where
  "quiet m \<equiv> leaves obs m (\<lambda>_. True)"

lemma quiet_basic:
  "quiet (act_return x)" "quiet (act_raise e)" "quiet act_get" "quiet (act_lift g r)"
  "quiet (svc_check name vs)" "quiet (svc_load run_id)" "quiet (manifest_for env aid)"
  by (auto simp: leaves_def svc_check_def svc_load_def manifest_for_def act_lift_def split: sum.splits option.splits)

lemma quiet_receipt: "quiet (make_receipt env tk stp st ev ext md ok er fl)"
  unfolding make_receipt_def Let_def by (intro leaves_then quiet_basic)

lemma quiet_finish: "quiet (finish tk rid q st r out sub ext)"
  unfolding finish_def by (rule leaves_modify) (rule obs_finish)

lemma quiet_persist: "quiet (persist store states trs)"
  unfolding persist_def by (rule leaves_modify) (simp add: insert_transitions_def insert_hypothesis_revisions_def obs_hyps obs_trans)

lemma quiet_status: "quiet (svc_status env run_id)" and quiet_ref: "quiet (run_ref env run_id)"
  unfolding svc_status_def run_ref_def Let_def by (intro leaves_then quiet_basic)+

lemmas quiets = quiet_basic quiet_receipt quiet_finish quiet_persist

lemma quiet_theta_generate: "quiet (theta_generate env run_id stp m s ps now cur)"
proof -
  obtain r l where g: "generate (sv_hyp env) run_id stp ps (map_option fst (registry_snapshot s)) now (room_for (max_hypotheses_of m) (snd cur)) []
             (length (snd cur)) (ledger_init (fst cur) []) = (r, l)" by fastforce
  show ?thesis
    unfolding theta_generate_def g prod.case
    by (cases r) (auto intro!: leaves_then quiets split: prod.splits)
qed

lemma quiet_ledger_apply: "quiet (ledger_apply env run_id stp m actor allowed requests now cur)"
proof -
  obtain r l where g: "apply_requests \<lparr>ac_env = sv_hyp env, ac_run = run_id, ac_step = stp, ac_actor = actor, ac_allowed = allowed, ac_recorded = now,
             ac_max = max_hypotheses_of m\<rparr> (fst cur) (snd cur) requests = (r, l)" by fastforce
  show ?thesis
    unfolding ledger_apply_def g prod.case
    by (cases r) (auto intro!: leaves_then quiets split: prod.splits)
qed

lemma quiet_apply_theta: "quiet (apply_theta env run_id stp m s payload theta now)"
proof -
  have gen: "quiet (case th_hypotheses theta of
         Some ps \<Rightarrow> if may_generate stp
           then act_bind (theta_generate env run_id stp m s ps now cur) (\<lambda>(cur', ids, tids).
             act_return (cur', dict_set ''hypothesis_ids'' (ids_json ids) payload, tids))
           else act_return (cur, payload, [])
       | None \<Rightarrow> act_return (cur, payload, []))" for cur
    by (cases "th_hypotheses theta") (auto intro!: leaves_then quiets quiet_theta_generate split: prod.splits)
  have tr: "quiet (case th_transitions theta of
       Some (rq # rqs) \<Rightarrow>
         act_bind act_get (\<lambda>db'.
         act_bind (act_lift id (allowed_causes run_id stp (snd cur') db')) (\<lambda>allowed.
         act_bind (ledger_apply env run_id stp m Theta allowed (rq # rqs) now cur') (\<lambda>tids'.
           act_return (dict_set ''hypothesis_transition_ids'' (ids_json tids') out, tids @ tids'))))
     | _ \<Rightarrow> act_return (out, tids))" for cur' out tids
    by (auto intro!: leaves_then quiets quiet_ledger_apply split: option.splits list.splits)
  show ?thesis
    unfolding apply_theta_def Let_def
    by (intro leaves_then quiets gen) (use tr in \<open>auto split: prod.splits\<close>)
qed

lemma quiet_apply_admission: "quiet (apply_admission env tk run_id adm out)"
proof -
  have "quiet (act_modify (record_admission (tk_now tk) a))" for a
    by (rule leaves_modify) (simp add: record_admission_def update_action_def obs_evidence obs_actions)
  then show ?thesis
    unfolding apply_admission_def
    by (cases adm) (auto intro!: leaves_then quiets)
qed

lemma quiet_apply_phi: "quiet (apply_phi_outputs env tk run_id stp m oc out)"
proof -
  have h: "quiet (case e of Ledger_Failed (Hypothesis_Rejected es) \<Rightarrow> act_return (Some (''PHI_VERDICT_INVALID'', sv_render env (take 5 es)), out')
            | _ \<Rightarrow> act_raise e)" for e out'
    by (auto intro!: quiets split: svc_error.splits hyp_exn.splits)
  have "quiet (case p of (g, out') \<Rightarrow>
     if g \<noteq> None \<or> oc_verdicts oc = [] then act_return (g, out')
     else
       act_bind act_get (\<lambda>db.
       let cur = current_hypotheses run_id db in
       act_bind (act_lift id (allowed_causes run_id stp (snd cur) db)) (\<lambda>allowed.
       act_bind (act_lift Ledger_Failed (key_refs (List.map_filter ref_of_json (oc_refs oc)))) (\<lambda>refs.
         act_catch
           (act_bind (ledger_apply env run_id stp m Phi (dict_update allowed (map (\<lambda>(k, i). (i, k)) refs)) (oc_verdicts oc) (tk_started tk) cur) (\<lambda>tids.
              act_return (None, dict_set ''hypothesis_transition_ids'' (ids_json tids) out')))
           (\<lambda>e. case e of
              Ledger_Failed (Hypothesis_Rejected es) \<Rightarrow> act_return (Some (''PHI_VERDICT_INVALID'', sv_render env (take 5 es)), out')
            | _ \<Rightarrow> act_raise e)))))" for p
    unfolding Let_def by (cases p) (auto intro!: leaves_then leaves_catch quiets quiet_ledger_apply h)
  then show ?thesis
    unfolding apply_phi_outputs_def by (intro leaves_then quiet_apply_admission)
qed

lemma quiet_compile_result: "quiet (compile_result env tk run_id s m given)"
proof -
  have "quiet (act_modify (insert_result run_id res h))" for res h
    by (rule leaves_modify) (simp add: insert_result_def obs_results)
  then show ?thesis
    unfolding compile_result_def Let_def by (intro leaves_then quiets)
qed

end

text \<open>
  What the invariant looks at (the states of the runs, and which steps were issued under which
  number), with everything of the other runs.
\<close>

definition skeleton :: "adapter_db \<Rightarrow> run_state list \<times> (string \<times> int \<times> issued_step) list" where
  "skeleton db = (map rw_state (db_runs db), map (\<lambda>w. (sw_run w, sw_sequence w, sw_step w)) (db_steps db))"

definition others :: "string \<Rightarrow> adapter_db \<Rightarrow> run_row list \<times> step_row list" where
  "others rid db = (filter (\<lambda>r. row_run r \<noteq> rid) (db_runs db), filter (\<lambda>w. sw_run w \<noteq> rid) (db_steps db))"

definition view_of :: "string \<Rightarrow> adapter_db \<Rightarrow> (run_state list \<times> (string \<times> int \<times> issued_step) list) \<times> (run_row list \<times> step_row list)" where
  "view_of rid db = (skeleton db, others rid db)"

lemma filter_map_if: "(\<And>x. P x \<Longrightarrow> \<not> Q x) \<Longrightarrow> (\<And>x. P x \<Longrightarrow> \<not> Q (f x)) \<Longrightarrow> filter Q (map (\<lambda>x. if P x then f x else x) xs) = filter Q xs"
  by (induction xs) auto

lemma finish_step_view: "view_of rid (finish_step now rid q st r out sub ext db) = view_of rid db"
proof -
  have "skeleton (finish_step now rid q st r out sub ext db) = skeleton db"
    by (simp add: skeleton_def finish_step_def o_def if_distrib cong: if_cong)
  moreover have "others rid (finish_step now rid q st r out sub ext db) = others rid db"
    unfolding others_def finish_step_def by (simp, rule filter_map_if) auto
  ultimately show ?thesis by (simp add: view_of_def)
qed

interpretation sv: observer "view_of rid" rid for rid
  by unfold_locales (simp_all add: finish_step_view, simp_all add: view_of_def skeleton_def others_def)


section \<open>The invariant of the tables\<close>

text \<open>What the registry promises: a manifest is stored under its own id, and the budgets are not negative.\<close>

definition registry_ok :: "service_env \<Rightarrow> bool" where
  "registry_ok env \<longleftrightarrow> (\<forall>(aid, m) \<in> set (sv_manifests env). mf_adapter_id m = aid \<and> budgets_ok (mf_budgets m))"

text \<open>The issued steps of a run are numbered from one up to its sequence, the last one is the current step.\<close>

definition steps_ok :: "run_state \<Rightarrow> (string \<times> int \<times> issued_step) list \<Rightarrow> bool" where
  "steps_ok s ws \<longleftrightarrow> map (\<lambda>(_, q, _). q) ws = map (\<lambda>n. int n + 1) [0..<nat (rs_sequence s)]
     \<and> (\<forall>(r, q, stp) \<in> set ws. is_run_id stp = r \<and> is_sequence stp = q)
     \<and> (ws \<noteq> [] \<longrightarrow> rs_current s = Some (is_step_id (snd (snd (last ws)))))"

definition run_ok :: "service_env \<Rightarrow> run_state \<Rightarrow> (string \<times> int \<times> issued_step) list \<Rightarrow> bool" where
  "run_ok env s ws \<longleftrightarrow> (\<exists>m. map_of (sv_manifests env) (rs_adapter_id s) = Some m \<and> run_inv m s) \<and> steps_ok s ws"

definition skeleton_ok :: "service_env \<Rightarrow> run_state list \<times> (string \<times> int \<times> issued_step) list \<Rightarrow> bool" where
  "skeleton_ok env k \<longleftrightarrow> distinct (map rs_run_id (fst k)) \<and> fst ` set (snd k) \<subseteq> rs_run_id ` set (fst k)
     \<and> (\<forall>s \<in> set (fst k). run_ok env s (filter (\<lambda>w. fst w = rs_run_id s) (snd k)))"

definition db_inv :: "service_env \<Rightarrow> adapter_db \<Rightarrow> bool" where
  "db_inv env db \<longleftrightarrow> registry_ok env \<and> skeleton_ok env (skeleton db)"

text \<open>What a run of the machine never changes.\<close>

lemma run_step_fixed:
  assumes "run_step c m s t"
  shows "rs_run_id t = rs_run_id s" "rs_adapter_id t = rs_adapter_id s" "rs_input t = rs_input s" "rs_options t = rs_options s"
  using assms
  by (cases rule: run_step.cases;
      auto dest!: issue_stepD accept_submissionD simp: advance_state_def record_automatic_output_def complete_run_def
        cancel_run_def terminal_gap_def record_output_def split: if_splits)+

lemma run_steps_fixed:
  assumes "(run_step c m)\<^sup>*\<^sup>* s t"
  shows "rs_run_id t = rs_run_id s \<and> rs_adapter_id t = rs_adapter_id s \<and> rs_input t = rs_input s \<and> rs_options t = rs_options s"
  using assms by (induction rule: rtranclp_induct) (auto simp: run_step_fixed)

lemma find_member: "find P xs = Some x \<Longrightarrow> x \<in> set xs \<and> P x"
  by (induction xs) (auto split: if_splits)

lemma load_runD: "load_run rid db = Some r \<Longrightarrow> r \<in> set (db_runs db) \<and> row_run r = rid"
  unfolding load_run_def by (rule find_member)

lemma load_run_exists: "r \<in> set (db_runs db) \<Longrightarrow> \<exists>r0. load_run (row_run r) db = Some r0"
  unfolding load_run_def by (cases "find (\<lambda>q. row_run q = row_run r) (db_runs db)") (auto simp: find_None_iff)

section \<open>One run between two operations\<close>

text \<open>
  The tables are in order, the run \<open>rid\<close> of manifest \<open>m\<close> is stored in state \<open>s\<close>, which the run
  machine reaches from \<open>s0\<close>, and the other runs are \<open>o'\<close>.
\<close>

record focus =
  fo_env :: service_env
  fo_rid :: string
  fo_manifest :: manifest
  fo_start :: run_state
  fo_others :: "run_row list \<times> step_row list"

definition reaches :: "focus \<Rightarrow> run_state \<Rightarrow> run_state \<Rightarrow> bool" where
  "reaches fo = (run_step (sv_contracts (fo_env fo)) (fo_manifest fo))\<^sup>*\<^sup>*"

definition stored :: "focus \<Rightarrow> run_state \<Rightarrow> adapter_db \<Rightarrow> bool" where
  "stored fo s db \<longleftrightarrow> db_inv (fo_env fo) db \<and> s \<in> set (fst (skeleton db)) \<and> rs_run_id s = fo_rid fo
     \<and> map_of (sv_manifests (fo_env fo)) (rs_adapter_id s) = Some (fo_manifest fo)
     \<and> reaches fo (fo_start fo) s \<and> others (fo_rid fo) db = fo_others fo"

lemma reaches_fixed:
  assumes "reaches fo s t"
  shows "rs_run_id t = rs_run_id s" "rs_adapter_id t = rs_adapter_id s" "rs_input t = rs_input s" "rs_options t = rs_options s"
  using run_steps_fixed [OF assms [unfolded reaches_def]] by blast+

lemma stored_id: "stored fo s db \<Longrightarrow> rs_run_id s = fo_rid fo"
  by (simp add: stored_def)

lemma stored_view: "view_of (fo_rid fo) db' = view_of (fo_rid fo) db \<Longrightarrow> stored fo s db \<Longrightarrow> stored fo s db'"
  by (simp add: stored_def view_of_def db_inv_def)

lemmas quiet_keeps = ends_quiet [OF _ stored_view]

lemma stored_unique: "stored fo s db \<Longrightarrow> t \<in> set (fst (skeleton db)) \<Longrightarrow> rs_run_id t = fo_rid fo \<Longrightarrow> t = s"
  unfolding stored_def db_inv_def skeleton_ok_def by (metis inj_on_def distinct_map)

lemma stored_load:
  assumes "stored fo s db"
  shows "\<exists>r. load_run (fo_rid fo) db = Some r \<and> rw_state r = s"
proof -
  have "\<exists>r \<in> set (db_runs db). row_run r = fo_rid fo" using assms by (auto simp: stored_def skeleton_def)
  then obtain r where r: "load_run (fo_rid fo) db = Some r" using load_run_exists by metis
  then have "r \<in> set (db_runs db)" "row_run r = fo_rid fo" using load_runD by blast+
  then have "rw_state r = s" using stored_unique [OF assms] by (auto simp: skeleton_def)
  then show ?thesis using r by blast
qed

lemma stored_row: "stored fo s db \<Longrightarrow> r \<in> set (db_runs db) \<Longrightarrow> row_run r = fo_rid fo \<Longrightarrow> rw_state r = s"
  using stored_unique by (fastforce simp: skeleton_def)

lemma ends_svc_load: "ends (stored fo s) (svc_load (fo_rid fo)) (\<lambda>row db. rw_state row = s \<and> stored fo s db)"
proof (rule endsI)
  fix db row db' assume st: "stored fo s db" and l: "svc_load (fo_rid fo) db = (Inr row, db')"
  obtain r where "load_run (fo_rid fo) db = Some r" "rw_state r = s" using stored_load [OF st] by blast
  then show "rw_state row = s \<and> stored fo s db'" using l st by (simp add: svc_load_def)
qed

lemma ends_manifest: "ends (stored fo s) (manifest_for (fo_env fo) (rs_adapter_id s)) (\<lambda>m db. m = fo_manifest fo \<and> stored fo s db)"
  by (rule endsI) (auto simp: manifest_for_def stored_def split: option.splits)

section \<open>Saving a state\<close>

text \<open>Rewriting the state of one run in the skeleton, its steps being those of \<open>ws\<close>.\<close>

definition put_state :: "run_state \<Rightarrow> run_state list \<Rightarrow> run_state list" where
  "put_state t ss = map (\<lambda>s. if rs_run_id s = rs_run_id t then t else s) ss"

lemma put_state_ids: "map rs_run_id (put_state t ss) = map rs_run_id ss"
  by (simp add: put_state_def o_def if_distrib cong: if_cong)

lemma skeleton_ok_put:
  assumes "skeleton_ok env (ss, ws)" "run_ok env t (filter (\<lambda>w. fst w = rs_run_id t) (ws @ new))"
    "fst ` set new \<subseteq> {rs_run_id t}" "rs_run_id t \<in> rs_run_id ` set ss"
  shows "skeleton_ok env (put_state t ss, ws @ new)"
proof -
  have ids: "rs_run_id ` set (put_state t ss) = rs_run_id ` set ss" using put_state_ids by (metis set_map)
  have d: "distinct (map rs_run_id (put_state t ss))" using assms(1) unfolding put_state_ids by (simp add: skeleton_ok_def)
  have "run_ok env s (filter (\<lambda>w. fst w = rs_run_id s) (ws @ new))" if s: "s \<in> set (put_state t ss)" for s
  proof (cases "rs_run_id s = rs_run_id t")
    case True
    then have "s = t" using s by (auto simp: put_state_def split: if_splits)
    then show ?thesis using assms(2) by simp
  next
    case False
    then have "s \<in> set ss" using s by (auto simp: put_state_def split: if_splits)
    moreover have "filter (\<lambda>w. fst w = rs_run_id s) new = []" using assms(3) False by (auto simp: filter_empty_conv)
    ultimately show ?thesis using assms(1) by (simp add: skeleton_ok_def)
  qed
  then show ?thesis using assms(1,3,4) d ids by (auto simp: skeleton_ok_def)
qed

lemma save_state_skeleton:
  assumes "stored fo s db" "reaches fo s t" "others (fo_rid fo) db' = others (fo_rid fo) db" "map rw_state (db_runs db') = map rw_state (db_runs db)"
  shows "skeleton (save_state now t db') = (put_state t (fst (skeleton db)), snd (skeleton db'))"
    "others (fo_rid fo) (save_state now t db') = fo_others fo"
proof -
  have t: "rs_run_id t = fo_rid fo" "rs_adapter_id t = rs_adapter_id s" "rs_input t = rs_input s" "rs_options t = rs_options s"
    using reaches_fixed [OF assms(2)] stored_id [OF assms(1)] by simp_all
  have rows: "t\<lparr>rs_adapter_id := rs_adapter_id (rw_state r), rs_input := rs_input (rw_state r), rs_options := rs_options (rw_state r)\<rparr> = t"
    if "r \<in> set (db_runs db')" "row_run r = rs_run_id t" for r
  proof -
    have "rw_state r \<in> set (map rw_state (db_runs db'))" using that(1) by simp
    then have "rw_state r \<in> set (fst (skeleton db))" unfolding assms(4) by (simp add: skeleton_def)
    then have "rw_state r = s" by (rule stored_unique [OF assms(1)]) (simp add: that(2) t(1))
    then show ?thesis by (simp only: t(2-4) [symmetric]) simp
  qed
  have "map rw_state (db_runs (save_state now t db')) = put_state t (map rw_state (db_runs db'))"
    by (simp add: save_state_def update_runs_def put_state_def rows)
  then show "skeleton (save_state now t db') = (put_state t (fst (skeleton db)), snd (skeleton db'))"
    using assms(4) by (simp add: skeleton_def save_state_def update_runs_def)
  have "filter (\<lambda>r. row_run r \<noteq> fo_rid fo) (db_runs (save_state now t db')) = filter (\<lambda>r. row_run r \<noteq> fo_rid fo) (db_runs db')"
    unfolding save_state_def update_runs_def by (simp, rule filter_map_if) (auto simp: t(1))
  then show "others (fo_rid fo) (save_state now t db') = fo_others fo"
    using assms(1,3) by (simp add: others_def stored_def save_state_def update_runs_def)
qed

lemma reaches_inv:
  assumes "stored fo s db" "reaches fo s t"
  shows "run_inv (fo_manifest fo) t"
proof -
  have "run_inv (fo_manifest fo) s" using assms(1) by (auto simp: stored_def db_inv_def skeleton_ok_def run_ok_def)
  then show ?thesis using adapter_runs.run_keeps assms(2) by (auto simp: reaches_def)
qed

lemma stored_save:
  assumes "stored fo s db" "reaches fo s t" "view_of (fo_rid fo) db' = ((fst (skeleton db), snd (skeleton db) @ new), others (fo_rid fo) db)"
    "fst ` set new \<subseteq> {fo_rid fo}" "steps_ok t (filter (\<lambda>w. fst w = fo_rid fo) (snd (skeleton db) @ new))"
  shows "stored fo t (save_state now t db')"
proof -
  have v: "others (fo_rid fo) db' = others (fo_rid fo) db" "map rw_state (db_runs db') = map rw_state (db_runs db)"
    "snd (skeleton db') = snd (skeleton db) @ new" using assms(3) by (auto simp: view_of_def skeleton_def)
  note sk = save_state_skeleton [OF assms(1,2) v(1,2), of now, unfolded v(3)]
  have t: "rs_run_id t = fo_rid fo" "rs_adapter_id t = rs_adapter_id s"
    using reaches_fixed [OF assms(2)] stored_id [OF assms(1)] by simp_all
  have s: "s \<in> set (fst (skeleton db))" "rs_run_id s = fo_rid fo" "skeleton_ok (fo_env fo) (fst (skeleton db), snd (skeleton db))"
    "registry_ok (fo_env fo)" "map_of (sv_manifests (fo_env fo)) (rs_adapter_id t) = Some (fo_manifest fo)"
    "reaches fo (fo_start fo) s" using assms(1) t by (auto simp: stored_def db_inv_def)
  have "run_ok (fo_env fo) t (filter (\<lambda>w. fst w = rs_run_id t) (snd (skeleton db) @ new))"
    using reaches_inv [OF assms(1,2)] s(5) assms(5) t(1) by (auto simp: run_ok_def)
  then have "skeleton_ok (fo_env fo) (put_state t (fst (skeleton db)), snd (skeleton db) @ new)"
    using skeleton_ok_put [OF s(3)] s(1,2) assms(4) t(1) by (metis image_eqI)
  moreover have "t \<in> set (put_state t (fst (skeleton db)))" using s(1,2) t(1) by (force simp: put_state_def)
  moreover have "reaches fo (fo_start fo) t" using s(6) assms(2) by (auto simp: reaches_def)
  ultimately show ?thesis using sk s(4,5) t(1) by (auto simp: stored_def db_inv_def)
qed

lemma ends_save:
  assumes "reaches fo s t" "rs_sequence t = rs_sequence s" "rs_current t = rs_current s"
  shows "ends (stored fo s) (svc_save tk t) (\<lambda>_. stored fo t)"
proof (rule endsI)
  fix db x db' assume st: "stored fo s db" and e: "svc_save tk t db = (Inr x, db')"
  have "run_ok (fo_env fo) s (filter (\<lambda>w. fst w = fo_rid fo) (snd (skeleton db)))"
    using st by (auto simp: stored_def db_inv_def skeleton_ok_def)
  then have "steps_ok t (filter (\<lambda>w. fst w = fo_rid fo) (snd (skeleton db) @ []))" using assms(2,3) by (simp add: run_ok_def steps_ok_def)
  moreover have "view_of (fo_rid fo) db = ((fst (skeleton db), snd (skeleton db) @ []), others (fo_rid fo) db)" by (simp add: view_of_def)
  ultimately have "stored fo t (save_state (tk_now tk) t db)" using stored_save [OF st assms(1), of db "[]"] by simp
  then show "stored fo t db'" using e by (simp add: svc_save_def)
qed

section \<open>The step engine on one run\<close>

lemma reaches_refl: "reaches fo s s"
  and reaches_step: "run_step (sv_contracts (fo_env fo)) (fo_manifest fo) s t \<Longrightarrow> reaches fo s t"
  and reaches_trans: "reaches fo s t \<Longrightarrow> reaches fo t u \<Longrightarrow> reaches fo s u"
  unfolding reaches_def by auto

lemma steps_ok_snoc:
  assumes "steps_ok s ws" "0 \<le> rs_sequence s" "rs_sequence t = rs_sequence s + 1" "rs_current t = Some (is_step_id stp)"
    "is_run_id stp = r" "is_sequence stp = rs_sequence t"
  shows "steps_ok t (ws @ [(r, is_sequence stp, stp)])"
proof -
  have "nat (rs_sequence t) = Suc (nat (rs_sequence s))" using assms(2,3) by simp
  then have "map (\<lambda>n. int n + 1) [0..<nat (rs_sequence t)] = map (\<lambda>n. int n + 1) [0..<nat (rs_sequence s)] @ [rs_sequence t]"
    using assms(2,3) by simp
  then show ?thesis using assms(1,4-6) by (auto simp: steps_ok_def)
qed

lemma stored_steps: "stored fo s db \<Longrightarrow> steps_ok s (filter (\<lambda>w. fst w = fo_rid fo) (snd (skeleton db)))"
  and stored_inv: "stored fo s db \<Longrightarrow> run_inv (fo_manifest fo) s"
  by (auto simp: stored_def db_inv_def skeleton_ok_def run_ok_def)

lemma stored_issue:
  assumes "stored fo s db" "issue_step (sv_contracts (fo_env fo)) (fo_manifest fo) s a = Inr (t, stp)" "insert_step stp db = Some db1"
    "view_of (fo_rid fo) db2 = view_of (fo_rid fo) db1"
  shows "stored fo t (save_state now t db2)"
proof -
  obtain sid sp where t: "t = advance_state s sid (sp_type sp) (took_branch (fo_manifest fo) s sid)" "stp = build_step s a sid sp (rs_sequence s + 1)"
    using issue_stepD [OF assms(2)] by blast
  have f: "rs_sequence t = rs_sequence s + 1" "rs_current t = Some (is_step_id stp)" "is_run_id stp = fo_rid fo" "is_sequence stp = rs_sequence t"
    using stored_id [OF assms(1)] unfolding t by (simp_all add: advance_state_def build_step_def)
  have "reaches fo s t" by (rule reaches_step [OF run_step.Issue [OF assms(2)]])
  moreover have "view_of (fo_rid fo) db2 = ((fst (skeleton db), snd (skeleton db) @ [(fo_rid fo, is_sequence stp, stp)]), others (fo_rid fo) db)"
    using assms(3) f(3) unfolding assms(4) by (auto simp: insert_step_def view_of_def skeleton_def others_def split: if_splits)
  moreover have "0 \<le> rs_sequence s" using stored_inv [OF assms(1)] by (simp add: run_inv_def within_budgets_def)
  ultimately show ?thesis
    using stored_save [OF assms(1), of t db2 "[(fo_rid fo, is_sequence stp, stp)]" now] steps_ok_snoc [OF stored_steps [OF assms(1)] _ f] by simp
qed

fun pick_state :: "pick \<Rightarrow> run_state" where
  "pick_state (Pick_Stop s) = s"
| "pick_state (Pick_Step s stp ext partial) = s"

definition picked :: "focus \<Rightarrow> pick \<Rightarrow> adapter_db \<Rightarrow> bool" where
  "picked fo p db \<longleftrightarrow> (case p of Pick_Stop s \<Rightarrow> True | Pick_Step s stp ext partial \<Rightarrow> rs_status s = Running) \<and> stored fo (pick_state p) db"

lemma picked_cases:
  "picked fo (Pick_Stop s) = stored fo s"
  "picked fo (Pick_Step s stp ext partial) = (\<lambda>db. rs_status s = Running \<and> stored fo s db)"
  by (auto simp: picked_def)

text \<open>Saving a state the run machine reaches without issuing.\<close>

lemma ends_save_step:
  assumes "run_step (sv_contracts (fo_env fo)) (fo_manifest fo) s t" "rs_sequence t = rs_sequence s" "rs_current t = rs_current s"
  shows "ends (stored fo s) (svc_save tk t) (\<lambda>_. stored fo t)"
  by (rule ends_save [OF reaches_step [OF assms(1)] assms(2,3)])

lemma gap_same: "rs_sequence (terminal_gap s code msg sid) = rs_sequence s" "rs_current (terminal_gap s code msg sid) = rs_current s"
  by (simp_all add: terminal_gap_def)

lemma ends_stop_at_gap: "ends (stored fo s) (stop_at_gap tk s code msg sid) (picked fo)"
  unfolding stop_at_gap_def Let_def
  by (rule ends_bind [OF ends_save_step [OF run_step.Gap [OF refl] gap_same]]) (rule ends_return [THEN ends_pre [rotated]], simp add: picked_def)

lemma harness_insert_view: "view_of rid (insert_harness_action aid run_id sid act q db) = view_of rid db"
  by (simp add: insert_harness_action_def sv.obs_actions)

lemma ends_issue_now: "ends (stored fo s) (issue_now (fo_env fo) tk (fo_manifest fo) s hyps action) (picked fo)"
proof (rule endsI)
  fix db p db' assume st: "stored fo s db" and e: "issue_now (fo_env fo) tk (fo_manifest fo) s hyps action db = (Inr p, db')"
  let ?i = "issue_step (sv_contracts (fo_env fo)) (fo_manifest fo) s (issue_args_of tk s hyps action db)"
  show "picked fo p db'"
  proof (cases ?i)
    case (Inl err)
    then obtain b where "stop_at_gap tk s ''BUDGET_EXHAUSTED'' b (rs_current s) db = (Inr p, db')"
      using e by (cases err) (auto simp: issue_now_def act_bind_Inr)
    then show ?thesis using endsD [OF ends_stop_at_gap st] by blast
  next
    case (Inr x)
    obtain t stp where i: "?i = Inr (t, stp)" using Inr by (cases x) auto
    have "\<exists>db1 db2. insert_step stp db = Some db1 \<and> view_of (fo_rid fo) db2 = view_of (fo_rid fo) db1 \<and> db' = save_state (tk_now tk) t db2 \<and>
        p = (if is_type stp \<in> {''AGENT_REASON'', ''HARNESS_ACTION''} then Pick_Stop t else Pick_Step t stp None None)"
      using e i by (auto simp: issue_now_def act_bind_Inr svc_try_def svc_save_def split: option.splits list.splits
        intro: harness_insert_view)
    then obtain db1 db2 where db: "insert_step stp db = Some db1" "view_of (fo_rid fo) db2 = view_of (fo_rid fo) db1" "db' = save_state (tk_now tk) t db2"
      and p: "p = (if is_type stp \<in> {''AGENT_REASON'', ''HARNESS_ACTION''} then Pick_Stop t else Pick_Step t stp None None)" by blast
    obtain sid sp where sp: "t = advance_state s sid (sp_type sp) (took_branch (fo_manifest fo) s sid)"
        "stp = build_step s (issue_args_of tk s hyps action db) sid sp (rs_sequence s + 1)" using issue_stepD [OF i] by blast
    have "stored fo t db'" unfolding db(3) by (rule stored_issue [OF st i db(1,2)])
    moreover have "rs_status t = status_for (is_type stp)" by (simp add: sp advance_state_def build_step_def)
    ultimately show ?thesis unfolding p picked_def by (simp add: status_for_def)
  qed
qed

lemma ends_issue_next: "ends (stored fo s) (issue_next (fo_env fo) tk (fo_manifest fo) s) (picked fo)"
proof (rule endsI)
  fix db p db' assume st: "stored fo s db" and e: "issue_next (fo_env fo) tk (fo_manifest fo) s db = (Inr p, db')"
  note i = endsD [OF ends_issue_now st] and g = endsD [OF ends_stop_at_gap st]
  show "picked fo p db'"
    using e by (auto simp: issue_next_def act_bind_Inr Let_def split: if_splits option.splits dest: i g)
qed

lemma ends_pick_step: "rs_status s = Running \<Longrightarrow> ends (stored fo s) (pick_step (fo_env fo) tk (fo_manifest fo) s) (picked fo)"
proof (rule endsI)
  fix db p db' assume st: "stored fo s db" "rs_status s = Running" and e: "pick_step (fo_env fo) tk (fo_manifest fo) s db = (Inr p, db')"
  note i = endsD [OF ends_issue_next st(1)]
  show "picked fo p db'"
    using e st by (auto simp: pick_step_def act_bind_Inr picked_def split: if_splits option.splits dest: i)
qed

lemma automaticD:
  assumes "record_automatic_output s sid out = Inr t"
  shows "rs_sequence t = rs_sequence s" "rs_current t = rs_current s" "rs_status t = Running" "rs_run_id t = rs_run_id s"
  using assms by (auto simp: record_automatic_output_def record_output_def split: if_splits)

lemma ends_run_compile:
  assumes "rs_run_id s = fo_rid fo"
  shows "ends (stored fo s) (run_compile (fo_env fo) tk (fo_manifest fo) s stp) (stored fo)"
proof -
  have fin: "ends (\<lambda>db. record_automatic_output s (is_step_id stp) out = Inr s1 \<and> stored fo s db)
      (act_bind (act_lift Run_Failed (complete_run s1)) (\<lambda>s2. act_bind (svc_save tk s2) (\<lambda>_. act_return s2))) (stored fo)" for out s1
  proof (rule ends_when, rule ends_bind [OF ends_lift], rule ends_when)
    fix s2 assume a: "record_automatic_output s (is_step_id stp) out = Inr s1" and c: "complete_run s1 = Inr s2"
    have "reaches fo s s2" by (rule reaches_trans [OF reaches_step [OF run_step.Automatic [OF a]] reaches_step [OF run_step.Complete [OF c]]])
    moreover have "rs_sequence s2 = rs_sequence s1" "rs_current s2 = rs_current s1" using c by (auto simp: complete_run_def split: if_splits)
    ultimately show "ends (stored fo s) (act_bind (svc_save tk s2) (\<lambda>_. act_return s2)) (stored fo)"
      using automaticD [OF a] by (intro ends_bind [OF ends_save] ends_return) simp_all
  qed
  show ?thesis
    unfolding run_compile_def Let_def assms
    by (intro ends_bind [OF quiet_keeps [OF sv.quiet_compile_result]] ends_bind [OF quiet_keeps [OF sv.quiet_receipt]]
      ends_bind [OF quiet_keeps [OF sv.quiet_finish]] ends_bind [OF ends_lift] fin)
qed

text \<open>The result of a turn: whether the loop goes on, and the stored state.\<close>

abbreviation turn_done :: "focus \<Rightarrow> bool \<times> run_state \<Rightarrow> adapter_db \<Rightarrow> bool" where
  "turn_done fo x \<equiv> stored fo (snd x)"

lemma ends_skip_at_gap:
  assumes "rs_run_id s = fo_rid fo"
  shows "ends (stored fo s) (skip_at_gap (fo_env fo) tk s stp code msg err ext out) (stored fo)"
  unfolding skip_at_gap_def Let_def assms
  by (intro ends_bind [OF quiet_keeps [OF sv.quiet_receipt]] ends_bind [OF quiet_keeps [OF sv.quiet_finish]]
    ends_bind [OF ends_save_step [OF run_step.Gap [OF refl] gap_same]] ends_return)

lemma ends_fail_step:
  assumes "rs_run_id s = fo_rid fo" "\<not> is_terminal s"
  shows "ends (stored fo s) (fail_step (fo_env fo) tk s stp err) (stored fo)"
  unfolding fail_step_def Let_def assms(1)
  by (intro ends_bind [OF quiet_keeps [OF sv.quiet_receipt]] ends_bind [OF quiet_keeps [OF sv.quiet_finish]]
    ends_bind [OF ends_save_step [OF run_step.Fail [OF assms(2)]]] ends_return) simp_all

lemma ends_record_outcome:
  assumes "rs_run_id s = fo_rid fo"
  shows "ends (stored fo s) (record_outcome (fo_env fo) tk m s stp oc) (turn_done fo)"
proof -
  have gap: "ends (stored fo s) (act_bind (skip_at_gap (fo_env fo) tk s stp code msg msg ext out) (\<lambda>s'. act_return (False, s'))) (turn_done fo)"
    for code msg ext out by (rule ends_bind [OF ends_skip_at_gap [OF assms]]) (auto intro: ends_return [THEN ends_pre [rotated]])
  have fin: "ends (stored fo s) (act_bind (act_lift Run_Failed (record_automatic_output s (is_step_id stp) out)) (\<lambda>s'.
      act_bind (svc_save tk s') (\<lambda>_. act_return (True, s')))) (turn_done fo)" for out
  proof (rule ends_bind [OF ends_lift], rule ends_when)
    fix s' assume a: "record_automatic_output s (is_step_id stp) out = Inr s'"
    show "ends (stored fo s) (act_bind (svc_save tk s') (\<lambda>_. act_return (True, s'))) (turn_done fo)"
      by (rule ends_bind [OF ends_save_step [OF run_step.Automatic [OF a]]])
        (auto intro: ends_return [THEN ends_pre [rotated]] simp: automaticD [OF a])
  qed
  show ?thesis
    unfolding record_outcome_def Let_def assms
    by (rule ends_bind [OF quiet_keeps [OF sv.quiet_apply_phi]])
      (auto intro!: gap fin ends_bind [OF quiet_keeps [OF sv.quiet_receipt]] ends_bind [OF quiet_keeps [OF sv.quiet_finish]] split: option.splits)
qed

lemma ends_run_outcome:
  assumes "rs_run_id s = fo_rid fo" "rs_status s = Running"
  shows "ends (stored fo s) (run_outcome (fo_env fo) tk m s stp oc) (turn_done fo)"
proof -
  have gap: "ends (stored fo s) (act_bind (skip_at_gap (fo_env fo) tk s stp code msg msg ext out) (\<lambda>s'. act_return (False, s'))) (turn_done fo)"
    for code msg ext out by (rule ends_bind [OF ends_skip_at_gap [OF assms(1)]]) (auto intro: ends_return [THEN ends_pre [rotated]])
  have q: "leaves (view_of (fo_rid fo)) (case oc_external oc of Some (e # ext) \<Rightarrow> svc_check ''external_operation_receipt'' (sv_external_valid (fo_env fo) (e # ext))
      | _ \<Rightarrow> act_return ()) (\<lambda>_. True)" by (auto intro: sv.quiets split: option.splits list.splits)
  have begins: "run_step (sv_contracts (fo_env fo)) (fo_manifest fo) s (s\<lparr>rs_status := Running\<rparr>)" using assms(2) by (intro run_step.Begin) simp
  have pend: "ends (stored fo s) (act_bind (svc_save tk (s\<lparr>rs_status := Running\<rparr>)) (\<lambda>_. act_return (False, s\<lparr>rs_status := Running\<rparr>))) (turn_done fo)"
    by (rule ends_bind [OF ends_save_step [OF begins]]) (auto intro: ends_return [THEN ends_pre [rotated]])
  show ?thesis
  proof (cases "oc_pending oc")
    case True
    show ?thesis
      unfolding run_outcome_def Let_def assms(1) if_P [OF True]
      by (intro ends_bind [OF quiet_keeps [OF q]] ends_bind [OF quiet_keeps [OF sv.quiet_finish]] pend)
  next
    case False
    then show ?thesis
      unfolding run_outcome_def by (auto intro!: gap ends_record_outcome assms(1) split: option.splits)
  qed
qed

lemma ends_run_picked:
  assumes "rs_run_id s = fo_rid fo" "rs_status s = Running"
  shows "ends (stored fo s) (run_picked (fo_env fo) tk execs (fo_manifest fo) s stp ext partial) (turn_done fo)"
proof -
  have nt: "\<not> is_terminal s" using assms(2) by (simp add: is_terminal_def TERMINAL_RUN_STATUSES_def)
  have r: "ends (stored fo s') (act_return (False, s')) (turn_done fo)" for s' by (rule ends_return [THEN ends_pre [rotated]]) simp
  show ?thesis
    unfolding run_picked_def
    by (auto intro!: ends_bind [OF ends_run_compile [OF assms(1)]] ends_bind [OF ends_skip_at_gap [OF assms(1)]] ends_bind [OF ends_fail_step [OF assms(1) nt]]
      ends_run_outcome assms r split: option.splits sum.splits)
qed

lemma ends_stored: "(rs_run_id s = fo_rid fo \<Longrightarrow> ends (stored fo s) m Q) \<Longrightarrow> ends (stored fo s) m Q"
  by (auto simp: ends_def dest: stored_id)

lemma ends_advance_one:
  assumes "rs_status s = Running"
  shows "ends (stored fo s) (advance_one (fo_env fo) tk execs (fo_manifest fo) s) (turn_done fo)"
  unfolding advance_one_def
proof (rule ends_bind [OF ends_pick_step [OF assms]])
  fix p
  show "ends (picked fo p) (case p of Pick_Stop s' \<Rightarrow> act_return (False, s')
      | Pick_Step s' stp ext partial \<Rightarrow> run_picked (fo_env fo) tk execs (fo_manifest fo) s' stp ext partial) (turn_done fo)"
    by (cases p) (auto simp: picked_cases intro!: ends_when ends_return [THEN ends_pre [rotated]] intro: ends_stored [OF ends_run_picked])
qed

lemma ends_advance_loop: "ends (stored fo s) (advance_loop (fo_env fo) tks execs (fo_manifest fo) n s) (stored fo)"
proof (induction n arbitrary: s)
  case (Suc n)
  show ?case
    by (auto intro!: ends_return ends_bind [OF ends_advance_one] Suc.IH split: prod.splits)
qed (simp add: ends_return)

lemma ends_advance: "ends (stored fo s) (advance (fo_env fo) tks execs n (fo_rid fo)) (stored fo)"
  unfolding advance_def
  by (rule ends_bind [OF ends_svc_load], rule ends_when, simp, rule ends_bind [OF ends_manifest], rule ends_when, simp, rule ends_advance_loop)

section \<open>The other operations on one run\<close>

text \<open>The run \<open>rid\<close> is stored in some state the machine reaches.\<close>

definition somewhere :: "focus \<Rightarrow> adapter_db \<Rightarrow> bool" where
  "somewhere fo db \<longleftrightarrow> (\<exists>t. stored fo t db)"

lemma somewhereI: "stored fo t db \<Longrightarrow> somewhere fo db"
  by (auto simp: somewhere_def)

lemma ends_somewhere: "ends P m (\<lambda>_. stored fo t) \<Longrightarrow> ends P m (\<lambda>_. somewhere fo)"
  by (auto simp: ends_def somewhere_def)

text \<open>The accepted output is saved with the ids the service added.\<close>

lemma ends_save_answer:
  assumes "accept_submission (sv_contracts (fo_env fo)) s stp sub = Inr s'"
  shows "ends (stored fo s) (svc_save tk (s'\<lparr>rs_outputs := dict_set (is_step_id stp) out (rs_outputs s')\<rparr>))
    (\<lambda>_. stored fo (s'\<lparr>rs_outputs := dict_set (is_step_id stp) out (rs_outputs s')\<rparr>))"
proof -
  have s': "s' = (record_output s (is_step_id stp) (sb_payload sub))\<lparr>rs_status := Running\<rparr>" using accept_submissionD [OF assms] by blast
  have n: "\<not> is_terminal s'" "is_step_id stp \<in> fst ` set (rs_outputs s')"
    unfolding s' by (simp add: is_terminal_def TERMINAL_RUN_STATUSES_def) (simp add: record_output_def del: set_map)
  have "reaches fo s (s'\<lparr>rs_outputs := dict_set (is_step_id stp) out (rs_outputs s')\<rparr>)"
    by (rule reaches_trans [OF reaches_step [OF run_step.Accept [OF assms]] reaches_step [OF run_step.Rewrite [OF n]]])
  moreover have "rs_sequence s' = rs_sequence s" "rs_current s' = rs_current s" unfolding s' by (simp_all add: record_output_def)
  ultimately show ?thesis by (intro ends_save) simp_all
qed

lemmas ends_save_accepted = ends_somewhere [OF ends_save_answer]

lemma ends_submit_receipt:
  assumes "accept_submission (sv_contracts (fo_env fo)) s stp (an_submission a) = Inr s'"
  shows "ends (stored fo s) (submit_receipt (fo_env fo) tk (fo_rid fo) q s' stp a rec) (\<lambda>_. somewhere fo)"
proof -
  have q: "leaves (view_of (fo_rid fo)) (act_modify (record_receipt aid j h)) (\<lambda>_. True)" for aid j h
    by (rule leaves_modify) (simp add: record_receipt_def update_action_def sv.obs_actions)
  show ?thesis
    unfolding submit_receipt_def Let_def
    by (intro ends_bind [OF quiet_keeps [OF q]] ends_bind [OF quiet_keeps [OF sv.quiet_receipt]] ends_bind [OF quiet_keeps [OF sv.quiet_finish]]
      ends_save_accepted [OF assms])
qed

lemma ends_submit_reasoning:
  assumes "accept_submission (sv_contracts (fo_env fo)) s stp (an_submission a) = Inr s'"
  shows "ends (stored fo s) (submit_reasoning (fo_env fo) tk (fo_rid fo) q m s s' stp a payload) (\<lambda>_. somewhere fo)"
proof -
  have "leaves (view_of (fo_rid fo)) (case e of
       Ledger_Failed (Hypothesis_Rejected es) \<Rightarrow>
         act_bind (make_receipt (fo_env fo) tk stp Step_Rejected [] [] (answer_who a) False (map Ledger_Error es) None) (\<lambda>r.
         act_bind (finish tk (fo_rid fo) q Step_Issued (Some r) None None None) (\<lambda>_. act_raise (Ledger_Rejected es)))
     | _ \<Rightarrow> act_raise e) (\<lambda>_. True)" for e :: svc_error
    by (auto intro!: leaves_then sv.quiets split: svc_error.splits hyp_exn.splits)
  note q = leaves_catch [OF sv.quiet_apply_theta this]
  show ?thesis
    unfolding submit_reasoning_def
    by (rule ends_bind [OF quiet_keeps [OF q]])
      (auto intro!: ends_bind [OF quiet_keeps [OF sv.quiet_receipt]] ends_bind [OF quiet_keeps [OF sv.quiet_finish]]
        ends_save_accepted [OF assms] split: prod.splits)
qed

lemma somewhere_quiet: "leaves (view_of (fo_rid fo)) m (\<lambda>_. True) \<Longrightarrow> ends (somewhere fo) m (\<lambda>_. somewhere fo)"
  by (erule ends_quiet) (auto simp: somewhere_def intro: stored_view)

lemma ends_submit: "ends (stored fo s) (submit (fo_env fo) tk (fo_rid fo) a) (\<lambda>_. somewhere fo)"
  unfolding submit_def
proof (rule ends_bind [OF _ somewhere_quiet [OF sv.quiet_status]])
  have rej: "ends (stored fo t) (act_bind (make_receipt (fo_env fo) tk stp Step_Rejected [] [] mo False es None) (\<lambda>r.
      act_bind (finish tk (fo_rid fo) q Step_Issued (Some r) None None None) (\<lambda>_. act_raise e))) Q" for t stp mo es q e Q
    by (intro ends_bind [OF quiet_keeps [OF sv.quiet_receipt]] ends_bind [OF quiet_keeps [OF sv.quiet_finish]] ends_raise)
  show "ends (stored fo s) (submit_body (fo_env fo) tk (fo_rid fo) a) (\<lambda>_. somewhere fo)"
    unfolding submit_body_def
    by (rule ends_bind [OF ends_svc_load], rule ends_when, simp, rule ends_bind [OF ends_manifest], rule ends_when)
      (auto intro!: ends_get_bind rej ends_raise ends_submit_receipt ends_submit_reasoning simp: Let_def
        split: option.splits sum.splits run_error.splits json.splits)
qed

lemma ends_cancel: "ends (stored fo s) (cancel (fo_env fo) tk (fo_rid fo) call) (\<lambda>_. somewhere fo)"
  unfolding cancel_def
proof (rule ends_bind [OF _ somewhere_quiet [OF sv.quiet_status]])
  have "ends (stored fo t) (svc_save tk (cancel_run t)) (\<lambda>_. somewhere fo)" for t
    by (rule ends_somewhere [OF ends_save_step [OF run_step.Cancel [OF refl]]]) (simp_all add: cancel_run_def)
  note c = ends_bind [OF quiet_keeps this]
  show "ends (stored fo s) (cancel_body (fo_env fo) tk (fo_rid fo) call) (\<lambda>_. somewhere fo)"
    unfolding cancel_body_def
    by (rule ends_bind [OF ends_svc_load], rule ends_when)
      (auto intro!: ends_return [THEN ends_pre [rotated]] somewhereI ends_get_bind c sv.quiets
        simp: Let_def split: option.splits list.splits sum.splits)
qed

lemma ends_result: "ends (stored fo s) (result (fo_env fo) tk (fo_rid fo)) (\<lambda>_. somewhere fo)"
proof -
  have "ends (stored fo t) (compile_result (fo_env fo) tk (fo_rid fo) s' m o') (\<lambda>_. somewhere fo)" for t s' m o'
    by (rule ends_somewhere [OF quiet_keeps [OF sv.quiet_compile_result]])
  note c = ends_bind [OF ends_manifest ends_when [OF this]]
  show ?thesis
    unfolding result_def
    by (rule ends_bind [OF ends_svc_load], rule ends_when)
      (auto intro!: ends_raise ends_return [THEN ends_pre [rotated]] somewhereI ends_get_bind c split: option.splits)
qed

section \<open>Transactions\<close>

text \<open>
  From \<open>db\<close> to \<open>db'\<close> every stored run stays stored and moved along the run machine of its
  manifest, and the tables are still in order.
\<close>

definition run_moves :: "service_env \<Rightarrow> run_state \<Rightarrow> run_state \<Rightarrow> bool" where
  "run_moves env s t \<longleftrightarrow> rs_run_id t = rs_run_id s \<and> rs_adapter_id t = rs_adapter_id s
     \<and> (\<exists>m. map_of (sv_manifests env) (rs_adapter_id s) = Some m \<and> (run_step (sv_contracts env) m)\<^sup>*\<^sup>* s t)"

definition moves :: "service_env \<Rightarrow> adapter_db \<Rightarrow> adapter_db \<Rightarrow> bool" where
  "moves env db db' \<longleftrightarrow> db_inv env db' \<and> (\<forall>s \<in> set (fst (skeleton db)). \<exists>t \<in> set (fst (skeleton db')). run_moves env s t)"

lemma db_inv_manifest: "db_inv env db \<Longrightarrow> s \<in> set (fst (skeleton db)) \<Longrightarrow> \<exists>m. map_of (sv_manifests env) (rs_adapter_id s) = Some m"
  by (auto simp: db_inv_def skeleton_ok_def run_ok_def)

lemma moves_refl: "db_inv env db \<Longrightarrow> moves env db db"
  unfolding moves_def run_moves_def using db_inv_manifest by fastforce

lemma run_moves_trans: "run_moves env s t \<Longrightarrow> run_moves env t u \<Longrightarrow> run_moves env s u"
  by (auto simp: run_moves_def)

lemma moves_trans: "moves env db1 db2 \<Longrightarrow> moves env db2 db3 \<Longrightarrow> moves env db1 db3"
  unfolding moves_def by (meson run_moves_trans)

text \<open>A change of the run \<open>rid\<close> only.\<close>

definition moves_only :: "service_env \<Rightarrow> string \<Rightarrow> adapter_db \<Rightarrow> adapter_db \<Rightarrow> bool" where
  "moves_only env rid db db' \<longleftrightarrow> moves env db db' \<and> others rid db' = others rid db"

definition focus_on :: "service_env \<Rightarrow> string \<Rightarrow> manifest \<Rightarrow> run_state \<Rightarrow> adapter_db \<Rightarrow> focus" where
  "focus_on env rid m s db = \<lparr>fo_env = env, fo_rid = rid, fo_manifest = m, fo_start = s, fo_others = others rid db\<rparr>"

lemma focus_on_sel [simp]: "fo_env (focus_on env rid m s db) = env" "fo_rid (focus_on env rid m s db) = rid"
  "fo_manifest (focus_on env rid m s db) = m" "fo_start (focus_on env rid m s db) = s" "fo_others (focus_on env rid m s db) = others rid db"
  by (simp_all add: focus_on_def)

lemma stored_focus:
  assumes "db_inv env db" "load_run rid db = Some r"
  shows "\<exists>m. stored (focus_on env rid m (rw_state r) db) (rw_state r) db"
proof -
  have r: "r \<in> set (db_runs db)" "row_run r = rid" using load_runD [OF assms(2)] by blast+
  then have "rw_state r \<in> set (fst (skeleton db))" by (simp add: skeleton_def)
  moreover obtain m where "map_of (sv_manifests env) (rs_adapter_id (rw_state r)) = Some m"
    using db_inv_manifest [OF assms(1) calculation] by blast
  ultimately show ?thesis using assms(1) r(2) by (auto simp: stored_def reaches_refl)
qed

lemma others_elsewhere:
  assumes "others rid db' = others rid db" "s \<in> set (fst (skeleton db))" "rs_run_id s \<noteq> rid"
  shows "s \<in> set (fst (skeleton db'))"
proof -
  obtain r where r: "r \<in> set (filter (\<lambda>r. row_run r \<noteq> rid) (db_runs db))" "rw_state r = s" using assms(2,3) by (auto simp: skeleton_def)
  then have "r \<in> set (filter (\<lambda>r. row_run r \<noteq> rid) (db_runs db'))" using assms(1) by (simp add: others_def)
  then show ?thesis using r(2) by (auto simp: skeleton_def)
qed

lemma stored_moves:
  assumes "stored fo (fo_start fo) db" "stored fo t db'"
  shows "moves_only (fo_env fo) (fo_rid fo) db db'"
proof -
  have o': "others (fo_rid fo) db' = others (fo_rid fo) db" "db_inv (fo_env fo) db" "db_inv (fo_env fo) db'"
    using assms by (auto simp: stored_def)
  have "\<exists>u \<in> set (fst (skeleton db')). run_moves (fo_env fo) s u" if s: "s \<in> set (fst (skeleton db))" for s
  proof (cases "rs_run_id s = fo_rid fo")
    case True
    then have "s = fo_start fo" using stored_unique [OF assms(1) s] by blast
    moreover have "reaches fo (fo_start fo) t" "t \<in> set (fst (skeleton db'))" using assms(2) by (auto simp: stored_def)
    moreover have "map_of (sv_manifests (fo_env fo)) (rs_adapter_id (fo_start fo)) = Some (fo_manifest fo)" using assms(1) by (simp add: stored_def)
    ultimately have "run_moves (fo_env fo) s t" using reaches_fixed unfolding run_moves_def reaches_def by blast
    then show ?thesis using \<open>t \<in> _\<close> by blast
  next
    case False
    then show ?thesis using others_elsewhere [OF o'(1) s False] db_inv_manifest [OF o'(2) s] unfolding run_moves_def by blast
  qed
  then show ?thesis using o' by (simp add: moves_only_def moves_def)
qed

lemma tx_moves_only:
  assumes "db_inv env db" "tx m db = (x, db')"
    and "\<And>fo s. fo_env fo = env \<Longrightarrow> fo_rid fo = rid \<Longrightarrow> ends (stored fo s) m (\<lambda>_. somewhere fo)"
    and "load_run rid db = None \<Longrightarrow> snd (m db) = db"
  shows "moves_only env rid db db'"
proof (cases "load_run rid db")
  case None
  then have "db' = db" using assms(2,4) by (auto simp: tx_def split: prod.splits sum.splits)
  then show ?thesis using assms(1) by (simp add: moves_only_def moves_refl)
next
  case (Some r)
  then obtain ma where fo: "stored (focus_on env rid ma (rw_state r) db) (rw_state r) db" using stored_focus [OF assms(1)] by blast
  obtain y db1 where m: "m db = (y, db1)" by fastforce
  show ?thesis
  proof (cases y)
    case (Inl e)
    then have "db' = db" using assms(2) m by (simp add: tx_def)
    then show ?thesis using assms(1) by (simp add: moves_only_def moves_refl)
  next
    case (Inr v)
    then have "db' = db1" using assms(2) m by (simp add: tx_def)
    moreover have "somewhere (focus_on env rid ma (rw_state r) db) db1"
      using endsD [OF assms(3) fo] m Inr by simp
    ultimately show ?thesis using stored_moves [of "focus_on env rid ma (rw_state r) db" db] fo by (auto simp: somewhere_def)
  qed
qed

lemma load_missing:
  assumes "load_run rid db = None"
  shows "snd (act_bind (svc_load rid) f db) = db"
  using assms by (simp add: act_bind_def svc_load_def)

lemma load_missing_bind:
  assumes "load_run rid db = None"
  shows "snd (act_bind (act_bind (svc_load rid) f) g db) = db"
  using assms by (simp add: act_bind_def svc_load_def)

section \<open>Leases\<close>

lemma lease_view:
  assumes "\<And>r. rw_state (f r) = rw_state r" "\<And>r. P r \<Longrightarrow> row_run r = rid"
  shows "view_of rid (update_runs P f db) = view_of rid db"
proof -
  have "map rw_state (db_runs (update_runs P f db)) = map rw_state (db_runs db)" using assms(1) by (simp add: update_runs_def)
  moreover have "filter (\<lambda>r. row_run r \<noteq> rid) (db_runs (update_runs P f db)) = filter (\<lambda>r. row_run r \<noteq> rid) (db_runs db)"
    unfolding update_runs_def by (simp, rule filter_map_if) (use assms in auto)
  ultimately show ?thesis by (simp add: view_of_def skeleton_def others_def update_runs_def)
qed

lemma view_moves_only: "db_inv env db \<Longrightarrow> view_of rid db' = view_of rid db \<Longrightarrow> moves_only env rid db db'"
  using moves_refl [of env db] by (auto simp: moves_only_def moves_def view_of_def db_inv_def)

lemma renew_view: "view_of rid (snd (renew_lease now rid owner lease db)) = view_of rid db"
  unfolding renew_lease_def Let_def snd_conv by (rule lease_view) auto

lemma release_view: "view_of rid (release_lease rid owner db) = view_of rid db"
  unfolding release_lease_def by (rule lease_view) auto

lemma claim_moves:
  assumes "db_inv env db"
  shows "moves env db (snd (claim_run now locked owner lease db))"
proof (cases "filter (claimable now locked) (db_runs db)")
  case Nil
  then show ?thesis using assms by (simp add: claim_run_def moves_refl)
next
  case (Cons r rs)
  let ?rid = "row_run (py_min rw_updated r rs)"
  have "view_of ?rid (snd (claim_run now locked owner lease db)) = view_of ?rid db"
    unfolding claim_run_def Cons by (simp add: Let_def, rule lease_view) auto
  then show ?thesis using view_moves_only [OF assms] by (simp add: moves_only_def)
qed

lemma ends_worker_body: "ends (stored fo s) (worker_body (fo_env fo) tk execs (fo_rid fo) owner lease) (\<lambda>_. somewhere fo)"
proof (rule endsI)
  let ?go = "\<lambda>f. act_bind (svc_load (fo_rid fo)) (\<lambda>was. act_bind act_get (\<lambda>dba.
      act_bind (advance (fo_env fo) (\<lambda>_. tk) execs 1 (fo_rid fo)) (\<lambda>s. act_bind act_get (\<lambda>dbb. act_return (f was dba s dbb)))))"
  have a: "ends (stored fo t) (?go f) (\<lambda>_. somewhere fo)" for t and f :: "_ \<Rightarrow> _ \<Rightarrow> _ \<Rightarrow> _ \<Rightarrow> (bool \<times> run_state) option"
    by (rule ends_bind [OF ends_svc_load], rule ends_when, rule ends_get_bind, rule ends_bind [OF ends_advance], rule ends_get_bind)
      (auto intro!: ends_return [THEN ends_pre [rotated]] somewhereI)
  fix db x db' assume st: "stored fo s db" and e: "worker_body (fo_env fo) tk execs (fo_rid fo) owner lease db = (Inr x, db')"
  obtain ok db1 where r: "renew_lease (tk_now tk) (fo_rid fo) owner lease db = (ok, db1)" by fastforce
  have s1: "stored fo s db1" by (rule stored_view [OF _ st]) (use renew_view [of "fo_rid fo"] r in \<open>metis snd_conv\<close>)
  show "somewhere fo db'"
    using e endsD [OF a s1] s1 unfolding r worker_body_def by (cases ok) (auto intro: somewhereI)
qed

lemma worker_turn_moves_only: "db_inv env db \<Longrightarrow> worker_turn env tk execs rid owner lease db = (x, db') \<Longrightarrow> moves_only env rid db db'"
  unfolding worker_turn_def
proof (erule tx_moves_only, assumption)
  fix fo :: focus and s assume "fo_env fo = env" "fo_rid fo = rid"
  then show "ends (stored fo s) (worker_body env tk execs rid owner lease) (\<lambda>_. somewhere fo)" using ends_worker_body by blast
next
  assume n: "load_run rid db = None"
  then have no: "row_run r \<noteq> rid" if "r \<in> set (db_runs db)" for r using that by (auto simp: load_run_def find_None_iff)
  then have "filter (\<lambda>r. row_run r = rid \<and> rw_owner r = Some owner) (db_runs db) = []" by (auto simp: filter_empty_conv)
  moreover have "update_runs (\<lambda>r. row_run r = rid \<and> rw_owner r = Some owner) f db = db" for f
    using no by (auto simp: update_runs_def intro!: adapter_db.equality map_idI)
  ultimately show "snd (worker_body env tk execs rid owner lease db) = db" by (simp add: worker_body_def renew_lease_def Let_def)
qed

lemma submit_moves_only: "db_inv env db \<Longrightarrow> tx (submit env tk rid a) db = (x, db') \<Longrightarrow> moves_only env rid db db'"
  by (erule (1) tx_moves_only) (use ends_submit in blast, simp add: submit_def submit_body_def load_missing_bind)

lemma cancel_moves_only: "db_inv env db \<Longrightarrow> tx (cancel env tk rid call) db = (x1, db') \<Longrightarrow> moves_only env rid db db'"
  by (erule (1) tx_moves_only) (use ends_cancel in blast, simp add: cancel_def cancel_body_def load_missing_bind)

lemma result_moves_only: "db_inv env db \<Longrightarrow> tx (result env tk rid) db = (x2, db') \<Longrightarrow> moves_only env rid db db'"
  by (erule (1) tx_moves_only) (use ends_result in blast, simp add: result_def load_missing)

lemma manifest_for_Inr: "manifest_for env aid db = (Inr m, db') \<longleftrightarrow> map_of (sv_manifests env) aid = Some m \<and> db' = db"
  by (auto simp: manifest_for_def split: option.splits)

lemma svc_check_Inr: "svc_check name vs db = (Inr u, db') \<longleftrightarrow> vs = [] \<and> db' = db"
  by (auto simp: svc_check_def assert_valid_def)

lemma svc_load_Inr: "svc_load rid db = (Inr r, db') \<longleftrightarrow> load_run rid db = Some r \<and> db' = db"
  by (auto simp: svc_load_def split: option.splits)

definition ref_of :: "service_env \<Rightarrow> string \<Rightarrow> run_row \<Rightarrow> run_handle" where
  "ref_of env rid r = \<lparr>rf_run = rid, rf_adapter = rs_adapter_id (rw_state r), rf_version = mi_adapter_version (rw_identity r),
     rf_workflow = mi_workflow_version (rw_identity r), rf_created = sv_iso env (rw_created r), rf_status = rs_status (rw_state r)\<rparr>"

lemma run_ref_iff: "run_ref env rid db = (Inr ref, db') \<longleftrightarrow>
    db' = db \<and> (\<exists>r. load_run rid db = Some r \<and> ref = ref_of env rid r \<and> sv_ref_valid env ref = [])"
  by (auto simp: run_ref_def ref_of_def act_bind_Inr svc_load_Inr svc_check_Inr Let_def)

lemma run_ref_Inr: "run_ref env rid db = (Inr ref, db') \<Longrightarrow> db' = db"
  by (simp add: run_ref_iff)

lemma insert_run_moves:
  assumes "db_inv env db" "map_of (sv_manifests env) aid = Some m" "start_run (sv_contracts env) m rid payload opts = Inr s"
    "insert_run now (s\<lparr>rs_status := Running\<rparr>) m key agent db = Some db'"
  shows "moves env db db'"
proof -
  let ?s = "s\<lparr>rs_status := Running\<rparr>"
  have reg: "mf_adapter_id m = aid" "budgets_ok (mf_budgets m)" using assms(1,2) by (auto simp: db_inv_def registry_ok_def dest!: map_of_SomeD)
  have s: "rs_status s = Created" "rs_adapter_id s = aid" "rs_sequence s = 0" "rs_current s = None"
    using assms(3) reg(1) by (auto simp: start_run_def Let_def split: if_splits)
  have "run_step (sv_contracts env) m s ?s" by (rule run_step.Begin) (simp add: s(1))
  then have "run_inv m ?s" by (rule run_step_keeps_inv) (rule start_run_inv [OF assms(3) reg(2)])
  moreover have "steps_ok ?s []" using s by (simp add: steps_ok_def)
  ultimately have new: "run_ok env ?s []" using assms(2) s(2) by (auto simp: run_ok_def)
  have sk: "skeleton db' = (fst (skeleton db) @ [?s], snd (skeleton db))" and fresh: "rs_run_id ?s \<notin> rs_run_id ` set (fst (skeleton db))"
    using assms(4) by (auto simp: insert_run_def skeleton_def list_ex_iff split: if_splits)
  have ok: "skeleton_ok env (skeleton db)" using assms(1) by (simp add: db_inv_def)
  have "fst ` set (snd (skeleton db)) \<subseteq> rs_run_id ` set (fst (skeleton db))" using ok by (simp add: skeleton_ok_def)
  then have "rs_run_id ?s \<notin> fst ` set (snd (skeleton db))" using fresh by (meson in_mono)
  then have "filter (\<lambda>w. fst w = rs_run_id ?s) (snd (skeleton db)) = []" by (metis (mono_tags, lifting) filter_empty_conv image_eqI)
  then have "run_ok env ?s (filter (\<lambda>w. fst w = rs_run_id ?s) (snd (skeleton db)))" using new by (simp only:)
  then have "skeleton_ok env (skeleton db')" using ok fresh unfolding sk skeleton_ok_def fst_conv snd_conv by (simp del: run_state.simps) blast
  then have inv: "db_inv env db'" using assms(1) by (simp add: db_inv_def)
  show ?thesis
    unfolding moves_def
  proof (intro conjI inv ballI)
    fix u assume u: "u \<in> set (fst (skeleton db))"
    then have "run_moves env u u" using db_inv_manifest [OF assms(1)] by (auto simp: run_moves_def)
    then show "\<exists>t \<in> set (fst (skeleton db')). run_moves env u t" using u unfolding sk by auto
  qed
qed

lemma start_moves:
  assumes "db_inv env db" "tx (start env tk aid payload opts uuid) db = (x, db')"
  shows "moves env db db'"
proof (cases "\<exists>v. x = Inr v")
  case False
  then have "db' = db" using assms(2) by (auto simp: tx_def split: prod.splits sum.splits)
  then show ?thesis using moves_refl [OF assms(1)] by simp
next
  case True
  then obtain v where "start env tk aid payload opts uuid db = (Inr v, db')" using assms(2) by (auto simp: tx_def split: prod.splits sum.splits)
  then obtain rid where "start_body env tk aid payload opts uuid db = (Inr rid, db')" by (auto simp: start_def act_bind_Inr dest: run_ref_Inr)
  then consider "db' = db"
    | m rid s key agent where "map_of (sv_manifests env) aid = Some m" "start_run (sv_contracts env) m rid payload opts = Inr s"
        "insert_run (tk_now tk) (s\<lparr>rs_status := Running\<rparr>) m key agent db = Some db'"
    by (auto simp: start_body_def act_bind_Inr manifest_for_Inr svc_check_Inr svc_try_def Let_def split: option.splits)
  then show ?thesis
    by cases (auto intro: moves_refl [OF assms(1)] insert_run_moves [OF assms(1)])
qed

section \<open>Histories\<close>

text \<open>The transactions of the API and of the workers, in any order.\<close>

inductive svc_step :: "service_env \<Rightarrow> adapter_db \<Rightarrow> adapter_db \<Rightarrow> bool" for env where
  Start: "tx (start env tk aid payload opts uuid) db = (x, db') \<Longrightarrow> svc_step env db db'"
| Submit: "tx (submit env tk rid a) db = (x1, db') \<Longrightarrow> svc_step env db db'"
| Cancel: "tx (cancel env tk rid call) db = (x2, db') \<Longrightarrow> svc_step env db db'"
| Result: "tx (result env tk rid) db = (x3, db') \<Longrightarrow> svc_step env db db'"
| Turn: "worker_turn env tk execs rid owner lease db = (x4, db') \<Longrightarrow> svc_step env db db'"
| Claim: "db' = snd (claim_run now locked owner lease db) \<Longrightarrow> svc_step env db db'"
| Release: "db' = release_lease rid owner db \<Longrightarrow> svc_step env db db'"

inductive_cases svc_stepE: "svc_step env db db'"

lemma svc_step_moves: "svc_step env db db' \<Longrightarrow> db_inv env db \<Longrightarrow> moves env db db'"
  by (erule svc_stepE)
    (auto intro: start_moves claim_moves dest: submit_moves_only cancel_moves_only result_moves_only worker_turn_moves_only
      simp: moves_only_def view_moves_only [OF _ release_view, unfolded moves_only_def])

interpretation service: step_invariant "svc_step env" "db_inv env" for env
  by unfold_locales (auto simp: moves_def dest: svc_step_moves)

lemma history_moves:
  assumes "(svc_step env)\<^sup>*\<^sup>* db db'" "db_inv env db"
  shows "moves env db db'"
  using assms(1)
proof (induction rule: rtranclp_induct)
  case base
  then show ?case by (rule moves_refl [OF assms(2)])
next
  case (step db1 db2)
  then show ?case using svc_step_moves moves_trans moves_def by blast
qed

definition empty_db :: adapter_db where
  "empty_db = \<lparr>db_runs = [], db_steps = [], db_hyps = [], db_trans = [], db_actions = [], db_evidence = [], db_results = []\<rparr>"

lemma history_inv: "registry_ok env \<Longrightarrow> (svc_step env)\<^sup>*\<^sup>* empty_db db \<Longrightarrow> db_inv env db"
  by (erule service.run_keeps) (simp add: db_inv_def skeleton_def skeleton_ok_def empty_db_def)

end
