(* ===== verification/Service_Guarantees.thy ===== *)
theory Service_Guarantees
  imports Service_Facts
begin

text \<open>
  What the adapter service guarantees over any history of its transactions: the stored runs follow
  the run machine and stay within their budgets, the step rows of a run are numbered like its
  sequence and carry what was accepted, a worker only writes where it holds the lease, a start is
  repeated safely, and which evidence a step shows.
\<close>

section \<open>A concrete history\<close>

definition demo_env :: service_env where
  "demo_env = \<lparr>sv_contracts = accept_all, sv_hyp = \<lparr>he_sha = (\<lambda>s. s), he_state = (\<lambda>_ _. []), he_transition = (\<lambda>_. [])\<rparr>,
     sv_manifests = [(''a'', demo_manifest)], sv_hash = (\<lambda>_. ''h''), sv_receipt_hash = (\<lambda>_. ''h''), sv_result_hash = (\<lambda>_. ''h''),
     sv_seconds = (\<lambda>_. 0), sv_render = (\<lambda>_. ''e''), sv_request_valid = (\<lambda>_ _ _. []), sv_receipt_valid = (\<lambda>_. []),
     sv_external_valid = (\<lambda>_. []), sv_admission_valid = (\<lambda>_. []), sv_result_valid = (\<lambda>_. []),
     sv_ref_valid = (\<lambda>_. []), sv_iso = (\<lambda>_. ''t'')\<rparr>"

definition demo_tick :: tick where
  "demo_tick = \<lparr>tk_issued = ''t'', tk_started = ''t'', tk_ended = ''t'', tk_now = 0\<rparr>"

definition demo_opts :: "(string, json) dict" where
  "demo_opts = [(''idempotency_key'', JString ''k'')]"

text \<open>The retrieval executor returns one chunk.\<close>

definition demo_execs :: "(string, executor) dict" where
  "demo_execs = [(''POLYMATH_RETRIEVE'', \<lambda>_ _ _ _ _. Inr \<lparr>oc_pending = False, oc_external = None, oc_gap = None, oc_output = Some [],
     oc_refs = [JDict [(''id'', JString ''c1''), (''kind'', JString ''chunk'')]], oc_admission = None, oc_verdicts = []\<rparr>)]"

definition demo_rid :: string where
  "demo_rid = ''adr_a:k''"

text \<open>The tables after the start, the claim, the retrieval and the issuing of the reasoning step.\<close>

definition demo_row :: "string option \<Rightarrow> run_state \<Rightarrow> run_row" where
  "demo_row owner s = \<lparr>rw_state = s\<lparr>rs_run_id := demo_rid, rs_options := demo_opts\<rparr>, rw_identity = rm_identity demo_raw, rw_key = Some ''a:k'', rw_agent = None,
     rw_created = 0, rw_updated = 0, rw_terminal = None, rw_owner = owner, rw_expires = map_option (\<lambda>_. 60) owner\<rparr>"

definition demo_refs :: json where
  "demo_refs = JDict [(''_evidence_refs'', JList [JDict [(''id'', JString ''c1''), (''kind'', JString ''chunk'')]])]"

definition demo_fetched :: run_state where
  "demo_fetched = demo_start\<lparr>rs_status := Running, rs_current := Some ''get'', rs_sequence := 1, rs_accepted := 1,
     rs_outputs := [(''get'', demo_refs)], rs_order := [''get'']\<rparr>"

definition demo_stp :: "string \<Rightarrow> string \<Rightarrow> int \<Rightarrow> ev_ref list \<Rightarrow> string list \<Rightarrow> issued_step" where
  "demo_stp sid typ q refs prior = \<lparr>is_run_id = demo_rid, is_step_id = sid, is_type = typ, is_sequence = q, is_issued_at = ''t'', is_objective = ''o'',
     is_context = \<lparr>cx_evidence_refs = refs, cx_inputs = [], cx_prior_step_ids = prior, cx_admitted = [], cx_hypotheses = None, cx_registry = None\<rparr>,
     is_constraints = [], is_output_schema = JDict [(''type'', JString ''object'')], is_rules = [], is_external = None, is_cognitive = None,
     is_theta = None, is_harness = None\<rparr>"

definition demo_step1 :: step_row where
  "demo_step1 = \<lparr>sw_run = demo_rid, sw_sequence = 1, sw_status = Step_Executed, sw_step = demo_stp ''get'' ''POLYMATH_RETRIEVE'' 1 [] [],
     sw_submission = None, sw_output = Some demo_refs,
     sw_receipt = Some \<lparr>rc_run = demo_rid, rc_step = ''get'', rc_type = ''POLYMATH_RETRIEVE'', rc_sequence = 1, rc_status = Step_Executed,
       rc_started = ''t'', rc_ended = ''t'', rc_wall_ms = 0, rc_evidence = [''c1''], rc_external = [], rc_model = None, rc_ok = True,
       rc_errors = [], rc_failure = None, rc_hash = ''h'', rc_transitions = None, rc_harness_hash = None, rc_admission = None\<rparr>,
     sw_external = None, sw_ended = Some 0\<rparr>"

definition demo_step2 :: step_row where
  "demo_step2 = \<lparr>sw_run = demo_rid, sw_sequence = 2, sw_status = Step_Issued,
     sw_step = demo_stp ''think'' ''AGENT_REASON'' 2 [\<lparr>er_id = ''c1'', er_kind = Some ''chunk''\<rparr>] [''get''],
     sw_submission = None, sw_output = None, sw_receipt = None, sw_external = None, sw_ended = None\<rparr>"

definition demo_db1 :: adapter_db where
  "demo_db1 = empty_db\<lparr>db_runs := [demo_row None (demo_start\<lparr>rs_status := Running\<rparr>)]\<rparr>"

definition demo_db2 :: adapter_db where
  "demo_db2 = empty_db\<lparr>db_runs := [demo_row (Some ''w'') (demo_start\<lparr>rs_status := Running\<rparr>)]\<rparr>"

definition demo_db3 :: adapter_db where
  "demo_db3 = empty_db\<lparr>db_runs := [demo_row (Some ''w'') demo_fetched], db_steps := [demo_step1]\<rparr>"

definition demo_db4 :: adapter_db where
  "demo_db4 = empty_db\<lparr>db_runs := [demo_row (Some ''w'') (demo_fetched\<lparr>rs_status := Awaiting_Agent, rs_current := Some ''think'', rs_sequence := 2, rs_agent := 1\<rparr>)],
     db_steps := [demo_step1, demo_step2]\<rparr>"

lemma demo_registry: "registry_ok demo_env"
  by code_simp

definition demo_ref :: run_handle where
  "demo_ref = \<lparr>rf_run = demo_rid, rf_adapter = ''a'', rf_version = ''1'', rf_workflow = ''1'', rf_created = ''t'', rf_status = Running\<rparr>"

lemma demo_start_tx: "tx (start demo_env demo_tick ''a'' [] demo_opts ''u'') empty_db = (Inr demo_ref, demo_db1)"
  by code_simp

lemma demo_claim: "claim_run 0 (\<lambda>_. False) ''w'' 60 demo_db1 = (Some demo_rid, demo_db2)"
  by code_simp

lemma demo_turn1: "snd (worker_turn demo_env demo_tick demo_execs demo_rid ''w'' 60 demo_db2) = demo_db3"
  by code_simp

lemma demo_turn2: "snd (worker_turn demo_env demo_tick demo_execs demo_rid ''w'' 60 demo_db3) = demo_db4"
  by code_simp

lemma svc_turn: "svc_step env db (snd (worker_turn env tk execs rid owner lease db))"
  by (rule svc_step.Turn [OF prod.collapse [symmetric]])

lemma demo_steps: "svc_step demo_env empty_db demo_db1" "svc_step demo_env demo_db1 demo_db2" "svc_step demo_env demo_db2 demo_db3" "svc_step demo_env demo_db3 demo_db4"
proof -
  show "svc_step demo_env empty_db demo_db1" by (rule svc_step.Start [OF demo_start_tx])
  show "svc_step demo_env demo_db1 demo_db2" by (rule svc_step.Claim [of _ 0 "\<lambda>_. False" "''w''" 60]) (simp only: demo_claim snd_conv)
  show "svc_step demo_env demo_db2 demo_db3" by (rule svc_turn [of demo_env demo_db2 demo_tick demo_execs demo_rid "''w''" 60, unfolded demo_turn1])
  show "svc_step demo_env demo_db3 demo_db4" by (rule svc_turn [of demo_env demo_db3 demo_tick demo_execs demo_rid "''w''" 60, unfolded demo_turn2])
qed

lemma demo_history: "(svc_step demo_env)\<^sup>*\<^sup>* empty_db demo_db1" "(svc_step demo_env)\<^sup>*\<^sup>* demo_db1 demo_db4"
  "(svc_step demo_env)\<^sup>*\<^sup>* empty_db demo_db4" "(svc_step demo_env)\<^sup>*\<^sup>* empty_db demo_db3"
proof -
  note s = demo_steps [THEN r_into_rtranclp [where r = "svc_step demo_env"]]
  show 1: "(svc_step demo_env)\<^sup>*\<^sup>* empty_db demo_db1" by (rule s(1))
  show 2: "(svc_step demo_env)\<^sup>*\<^sup>* demo_db1 demo_db4" by (rule rtranclp_trans [OF s(2) rtranclp_trans [OF s(3) s(4)]])
  show "(svc_step demo_env)\<^sup>*\<^sup>* empty_db demo_db4" by (rule rtranclp_trans [OF 1 2])
  show "(svc_step demo_env)\<^sup>*\<^sup>* empty_db demo_db3" by (rule rtranclp_trans [OF 1 rtranclp_trans [OF s(2) s(3)]])
qed

section \<open>Stored runs\<close>

lemma py_max_last: "sorted_wrt (<) (map f (w # ws)) \<Longrightarrow> py_max f w ws = last (w # ws)"
  by (induction ws arbitrary: w) auto

lemma run_rows:
  assumes "db_inv env db" "r \<in> set (db_runs db)"
  shows "\<exists>m. map_of (sv_manifests env) (rs_adapter_id (rw_state r)) = Some m \<and> run_inv m (rw_state r)"
    and "steps_ok (rw_state r) (map (\<lambda>w. (sw_run w, sw_sequence w, sw_step w)) (filter (\<lambda>w. sw_run w = row_run r) (db_steps db)))"
proof -
  have "rw_state r \<in> set (fst (skeleton db))" using assms(2) by (simp add: skeleton_def)
  then have "run_ok env (rw_state r) (filter (\<lambda>w. fst w = row_run r) (snd (skeleton db)))" using assms(1) by (auto simp: db_inv_def skeleton_ok_def)
  then show "\<exists>m. map_of (sv_manifests env) (rs_adapter_id (rw_state r)) = Some m \<and> run_inv m (rw_state r)"
    and "steps_ok (rw_state r) (map (\<lambda>w. (sw_run w, sw_sequence w, sw_step w)) (filter (\<lambda>w. sw_run w = row_run r) (db_steps db)))"
    by (simp_all add: run_ok_def skeleton_def filter_map o_def)
qed

lemma steps_numbered:
  assumes "db_inv env db" "r \<in> set (db_runs db)"
  shows "map sw_sequence (list_steps (row_run r) db) = map (\<lambda>n. int n + 1) [0..<nat (rs_sequence (rw_state r))]"
    and "filter (\<lambda>w. sw_run w = row_run r) (db_steps db) = list_steps (row_run r) db"
proof -
  let ?W = "filter (\<lambda>w. sw_run w = row_run r) (db_steps db)"
  have m: "map sw_sequence ?W = map (\<lambda>n. int n + 1) [0..<nat (rs_sequence (rw_state r))]"
    using run_rows(2) [OF assms] by (simp add: steps_ok_def o_def)
  have "sorted (map sw_sequence ?W)" unfolding m by (simp add: sorted_iff_nth_mono)
  then show "?W = list_steps (row_run r) db" by (simp add: list_steps_def sort_key_id_if_sorted)
  then show "map sw_sequence (list_steps (row_run r) db) = map (\<lambda>n. int n + 1) [0..<nat (rs_sequence (rw_state r))]" using m by simp
qed

lemma current_is_last:
  assumes "db_inv env db" "r \<in> set (db_runs db)" "0 < rs_sequence (rw_state r)"
  shows "\<exists>w. current_step (row_run r) db = Some w \<and> w \<in> set (db_steps db) \<and> sw_run w = row_run r \<and> sw_sequence w = rs_sequence (rw_state r) \<and>
    is_sequence (sw_step w) = rs_sequence (rw_state r) \<and> rs_current (rw_state r) = Some (is_step_id (sw_step w))"
proof -
  let ?s = "rw_state r" and ?W = "filter (\<lambda>w. sw_run w = row_run r) (db_steps db)"
  note num = steps_numbered [OF assms(1,2)]
  have m: "map sw_sequence ?W = map (\<lambda>n. int n + 1) [0..<nat (rs_sequence ?s)]" using num by simp
  then obtain w ws where W: "?W = w # ws" using assms(3) by (cases ?W) auto
  have "sorted_wrt (<) (map sw_sequence ?W)" unfolding m by (simp add: sorted_wrt_iff_nth_less)
  then have cur: "current_step (row_run r) db = Some (last ?W)" unfolding current_step_def W by (simp add: py_max_last)
  have "sw_sequence (last ?W) = last (map sw_sequence ?W)" using W by (simp add: last_map)
  also have "\<dots> = rs_sequence ?s" unfolding m using assms(3) by (simp add: last_map)
  finally have q: "sw_sequence (last ?W) = rs_sequence ?s" .
  have "last ?W \<in> set ?W" using W by (metis last_in_set list.distinct(1))
  moreover have "is_sequence (sw_step (last ?W)) = sw_sequence (last ?W)" "rs_current ?s = Some (is_step_id (sw_step (last ?W)))"
    using run_rows(2) [OF assms(1,2)] W calculation unfolding steps_ok_def by (auto simp: last_map)
  ultimately show ?thesis using cur q by auto
qed

text \<open>
  C10. The tables stay in order: whatever transactions of the API and of the workers ran before, a
  stored run has an admitted manifest and is within every budget of it; its step rows are numbered
  from one to its sequence, the newest of them is its current step, and the number its next step
  takes is free, so that the step table never refuses an issued step.
\<close>

theorem stored_runs_stay_in_order:
  assumes "registry_ok env" "(svc_step env)\<^sup>*\<^sup>* empty_db db" "r \<in> set (db_runs db)"
  shows "(\<exists>m. map_of (sv_manifests env) (rs_adapter_id (rw_state r)) = Some m \<and>
      rs_sequence (rw_state r) \<le> bg_max_steps (mf_budgets m) \<and> rs_agent (rw_state r) \<le> bg_max_agent_reason (mf_budgets m) \<and>
      rs_loops (rw_state r) \<le> bg_max_branch_loops (mf_budgets m) \<and>
      capped (bg_max_external_operations (mf_budgets m)) (rs_external (rw_state r)) \<and>
      capped (bg_max_harness_actions (mf_budgets m)) (rs_harness (rw_state r))) \<and>
    map sw_sequence (list_steps (row_run r) db) = map (\<lambda>n. int n + 1) [0..<nat (rs_sequence (rw_state r))] \<and>
    (0 < rs_sequence (rw_state r) \<longrightarrow> (\<exists>w. current_step (row_run r) db = Some w \<and> sw_sequence w = rs_sequence (rw_state r) \<and>
      rs_current (rw_state r) = Some (is_step_id (sw_step w)))) \<and>
    (\<forall>stp. is_run_id stp = row_run r \<longrightarrow> is_sequence stp = rs_sequence (rw_state r) + 1 \<longrightarrow> insert_step stp db \<noteq> None)"
proof -
  note inv = history_inv [OF assms(1,2)]
  note n = steps_numbered(1) [OF inv assms(3)]
  have free: "insert_step stp db \<noteq> None" if stp: "is_run_id stp = row_run r" "is_sequence stp = rs_sequence (rw_state r) + 1" for stp
  proof -
    have "sw_sequence w < is_sequence stp" if w: "w \<in> set (db_steps db)" "sw_run w = is_run_id stp" for w
    proof -
      have "w \<in> set (list_steps (row_run r) db)" using w stp(1) by (simp add: list_steps_def)
      then have "sw_sequence w \<in> set (map sw_sequence (list_steps (row_run r) db))" by simp
      then show ?thesis unfolding n using stp(2) by auto
    qed
    then show ?thesis by (fastforce simp: insert_step_def list_ex_iff)
  qed
  show ?thesis
    using run_rows(1) [OF inv assms(3)] n free current_is_last [OF inv assms(3)]
    by (auto simp: run_inv_def within_budgets_def)
qed

theorem stored_runs_stay_in_order_witness:
  "map sw_sequence (list_steps demo_rid demo_db4) = [1, 2] \<and> (\<exists>w. current_step demo_rid demo_db4 = Some w \<and> is_step_id (sw_step w) = ''think'')"
proof -
  let ?r = "demo_row (Some ''w'') (demo_fetched\<lparr>rs_status := Awaiting_Agent, rs_current := Some ''think'', rs_sequence := 2, rs_agent := 1\<rparr>)"
  have r: "?r \<in> set (db_runs demo_db4)" "row_run ?r = demo_rid" "rs_sequence (rw_state ?r) = 2" "rs_current (rw_state ?r) = Some ''think''"
    by (simp_all add: demo_db4_def demo_row_def)
  note t = stored_runs_stay_in_order [OF demo_registry demo_history(3) r(1), unfolded r(2-4)]
  have "map (\<lambda>n. int n + 1) [0..<nat 2] = [1, 2]" by code_simp
  then show ?thesis using t by auto
qed

lemma load_of_state:
  assumes "db_inv env db" "t \<in> set (fst (skeleton db))"
  shows "\<exists>r. load_run (rs_run_id t) db = Some r \<and> rw_state r = t"
proof -
  obtain r0 where r0: "r0 \<in> set (db_runs db)" "rw_state r0 = t" using assms(2) by (auto simp: skeleton_def)
  then obtain r where r: "load_run (rs_run_id t) db = Some r" using load_run_exists by metis
  then have in_r: "r \<in> set (db_runs db)" "row_run r = rs_run_id t" using load_runD by blast+
  have "distinct (map rs_run_id (map rw_state (db_runs db)))" using assms(1) by (simp add: db_inv_def skeleton_ok_def skeleton_def)
  then have "rw_state r = t" using in_r r0 unfolding distinct_map by (metis image_eqI inj_on_def list.set_map)
  then show ?thesis using r by blast
qed

text \<open>
  C11. The tables implement the run machine: between any two points of a history, with any other
  transactions in between (of other runs, workers losing and taking over leases, transactions rolled
  back), a stored run is still stored and the state read later is one the run machine of its manifest
  reaches from the state read earlier; a terminal run reads the same for ever.
\<close>

theorem stored_runs_follow_the_machine:
  assumes "registry_ok env" "(svc_step env)\<^sup>*\<^sup>* empty_db db" "(svc_step env)\<^sup>*\<^sup>* db db'" "load_run rid db = Some r"
  shows "\<exists>r' m. load_run rid db' = Some r' \<and> map_of (sv_manifests env) (rs_adapter_id (rw_state r)) = Some m \<and>
    (run_step (sv_contracts env) m)\<^sup>*\<^sup>* (rw_state r) (rw_state r') \<and> (is_terminal (rw_state r) \<longrightarrow> rw_state r' = rw_state r)"
proof -
  note inv = history_inv [OF assms(1,2)]
  have m: "moves env db db'" by (rule history_moves [OF assms(3) inv])
  have r: "r \<in> set (db_runs db)" "row_run r = rid" using load_runD [OF assms(4)] by blast+
  then have "rw_state r \<in> set (fst (skeleton db))" by (simp add: skeleton_def)
  then obtain t where t: "t \<in> set (fst (skeleton db'))" "run_moves env (rw_state r) t" using m unfolding moves_def by blast
  then obtain r' where r': "load_run (rs_run_id t) db' = Some r'" "rw_state r' = t" using load_of_state m unfolding moves_def by blast
  obtain ma where ma: "map_of (sv_manifests env) (rs_adapter_id (rw_state r)) = Some ma"
    "(run_step (sv_contracts env) ma)\<^sup>*\<^sup>* (rw_state r) t" "rs_run_id t = rid" using t(2) r(2) unfolding run_moves_def by blast
  then show ?thesis using r' terminal_stays [OF _ ma(2)] by blast
qed

theorem stored_runs_follow_the_machine_witness:
  "\<exists>r'. load_run demo_rid demo_db4 = Some r' \<and>
    (run_step accept_all demo_manifest)\<^sup>*\<^sup>* (demo_start\<lparr>rs_status := Running, rs_run_id := demo_rid, rs_options := demo_opts\<rparr>) (rw_state r') \<and>
    rs_status (rw_state r') = Awaiting_Agent"
proof -
  let ?r = "demo_row None (demo_start\<lparr>rs_status := Running\<rparr>)"
  have l: "load_run demo_rid demo_db1 = Some ?r" "map (rs_status \<circ> rw_state) (db_runs demo_db4) = [Awaiting_Agent]" by code_simp+
  obtain r' m where r': "load_run demo_rid demo_db4 = Some r'" "map_of (sv_manifests demo_env) (rs_adapter_id (rw_state ?r)) = Some m"
      "(run_step (sv_contracts demo_env) m)\<^sup>*\<^sup>* (rw_state ?r) (rw_state r')"
    using stored_runs_follow_the_machine [OF demo_registry demo_history(1,2) l(1)] by blast
  have "r' \<in> set (db_runs demo_db4)" using load_runD r'(1) by blast
  then have "rs_status (rw_state r') = Awaiting_Agent" using l(2) by auto
  moreover have "m = demo_manifest" "sv_contracts demo_env = accept_all"
      "rw_state ?r = demo_start\<lparr>rs_status := Running, rs_run_id := demo_rid, rs_options := demo_opts\<rparr>"
    using r'(2) by (simp_all add: demo_env_def demo_row_def demo_start_def)
  ultimately show ?thesis using r' by metis
qed

section \<open>Leases\<close>

text \<open>
  C12. A worker acts only under its lease and only on its run: a turn whose lease was taken over (or
  released) reports the loss and changes nothing at all, and no turn changes the row, the lease or
  the steps of another run.
\<close>

theorem worker_acts_under_its_lease:
  assumes "registry_ok env" "(svc_step env)\<^sup>*\<^sup>* empty_db db" "worker_turn env tk execs rid owner lease db = (x, db')"
  shows "((\<forall>r. load_run rid db = Some r \<longrightarrow> rw_owner r \<noteq> Some owner) \<longrightarrow> x = Inr None \<and> db' = db) \<and>
    filter (\<lambda>r. row_run r \<noteq> rid) (db_runs db') = filter (\<lambda>r. row_run r \<noteq> rid) (db_runs db) \<and>
    filter (\<lambda>w. sw_run w \<noteq> rid) (db_steps db') = filter (\<lambda>w. sw_run w \<noteq> rid) (db_steps db)"
proof -
  note inv = history_inv [OF assms(1,2)]
  have "others rid db' = others rid db" using worker_turn_moves_only [OF inv assms(3)] by (simp add: moves_only_def)
  moreover have "x = Inr None \<and> db' = db" if no: "\<forall>r. load_run rid db = Some r \<longrightarrow> rw_owner r \<noteq> Some owner"
  proof -
    have none: "\<not> (row_run r = rid \<and> rw_owner r = Some owner)" if r: "r \<in> set (db_runs db)" for r
    proof
      assume a: "row_run r = rid \<and> rw_owner r = Some owner"
      then obtain r0 where r0: "load_run rid db = Some r0" using load_run_exists [OF r] by blast
      then have "r0 \<in> set (db_runs db)" "row_run r0 = rid" using load_runD by blast+
      moreover have "distinct (map row_run (db_runs db))" using inv by (simp add: db_inv_def skeleton_ok_def skeleton_def o_def)
      ultimately have "r0 = r" using r a unfolding distinct_map inj_on_def by metis
      then show False using no r0 a by blast
    qed
    then have "renew_lease (tk_now tk) rid owner lease db = (False, db)"
      unfolding renew_lease_def Let_def update_runs_def by (auto simp: filter_empty_conv intro!: adapter_db.equality map_idI)
    then show ?thesis using assms(3) by (simp add: worker_turn_def worker_body_def tx_def)
  qed
  ultimately show ?thesis by (simp add: others_def)
qed

theorem worker_acts_under_its_lease_witness:
  "worker_turn demo_env demo_tick demo_execs demo_rid ''other'' 60 demo_db3 = (Inr None, demo_db3)"
proof -
  obtain x db' where w: "worker_turn demo_env demo_tick demo_execs demo_rid ''other'' 60 demo_db3 = (x, db')" by fastforce
  have "load_run demo_rid demo_db3 = Some (demo_row (Some ''w'') demo_fetched)" by code_simp
  then have "\<forall>r. load_run demo_rid demo_db3 = Some r \<longrightarrow> rw_owner r \<noteq> Some ''other''" by (auto simp: demo_row_def)
  then show ?thesis using worker_acts_under_its_lease [OF demo_registry demo_history(4) w] w by simp
qed

section \<open>Starting\<close>

text \<open>
  A start can be repeated: once a start with an idempotency key has returned a run, every start
  with the same adapter and key returns that run and leaves the tables alone, whatever input,
  clock and random id it comes with.
\<close>

theorem start_is_idempotent:
  assumes "tx (start env tk aid payload opts uuid) db = (Inr ref, db1)" "truthy (jget opts ''idempotency_key'')"
    "jget opts' ''idempotency_key'' = jget opts ''idempotency_key''" "sv_request_valid env aid payload' opts' = []"
  shows "tx (start env tk' aid payload' opts' uuid') db1 = (Inr ref, db1)"
proof -
  let ?full = "aid @ '':'' @ json_text (jget opts ''idempotency_key'')"
  have "start env tk aid payload opts uuid db = (Inr ref, db1)" using assms(1) by (auto simp: tx_def split: prod.splits sum.splits)
  then obtain rid where s: "start_body env tk aid payload opts uuid db = (Inr rid, db1)" and ref: "run_ref env rid db1 = (Inr ref, db1)"
    by (auto simp: start_def act_bind_Inr dest: run_ref_Inr)
  obtain m where m: "map_of (sv_manifests env) aid = Some m" using s by (auto simp: start_body_def act_bind_Inr manifest_for_Inr)
  have "\<exists>r. find (\<lambda>r. rw_key r = Some ?full) (db_runs db1) = Some r \<and> row_run r = rid"
  proof (cases "find (\<lambda>r. rw_key r = Some ?full) (db_runs db)")
    case (Some r)
    then show ?thesis using s assms(2)
      by (auto simp: start_body_def act_bind_Inr manifest_for_Inr svc_check_Inr find_run_by_idempotency_def Let_def)
  next
    case None
    have app: "find P (xs @ [x]) = (case find P xs of None \<Rightarrow> if P x then Some x else None | Some y \<Rightarrow> Some y)" for P and xs :: "run_row list" and x
      by (induction xs) auto
    from s assms(2) None obtain st where st: "start_run (sv_contracts env) m rid payload opts = Inr st"
      and ins: "\<exists>ag. insert_run (tk_now tk) (st\<lparr>rs_status := Running\<rparr>) m (Some ?full) ag db = Some db1"
      using m by (auto simp: start_body_def act_bind_Inr manifest_for_Inr svc_check_Inr svc_try_def find_run_by_idempotency_def Let_def split: option.splits)
    have "rs_run_id st = rid" using st by (auto simp: start_run_def Let_def split: if_splits)
    then show ?thesis using ins None by (auto simp: insert_run_def app split: if_splits)
  qed
  then have "start_body env tk' aid payload' opts' uuid' db1 = (Inr rid, db1)"
    using m assms(2-4) by (auto simp: start_body_def act_bind_Inr manifest_for_Inr svc_check_Inr find_run_by_idempotency_def Let_def)
  then have "start env tk' aid payload' opts' uuid' db1 = (Inr ref, db1)" using ref by (auto simp: start_def act_bind_Inr)
  then show ?thesis by (simp add: tx_def)
qed

theorem start_is_idempotent_witness:
  "tx (start demo_env demo_tick ''a'' [(''q'', JNull)] demo_opts ''v'') demo_db1 = (Inr demo_ref, demo_db1)"
  by (rule start_is_idempotent [OF demo_start_tx]) (code_simp, rule refl, simp add: demo_env_def)

end
