(* ===== verification/Service_Records.thy ===== *)
theory Service_Records
  imports Service_Guarantees
begin

text \<open>
  What the service records: an accepted submission on its step row and in the run, the evidence a
  step shows for citation, and that the revisions a transaction writes are the ones the next reads.
\<close>

section \<open>Accepted submissions\<close>

lemma make_receipt_Inr:
  "make_receipt env tk stp st ev ext md ok er fl db = (Inr r, db') \<Longrightarrow> db' = db \<and> rc_ok r = ok \<and> rc_status r = st"
  by (auto simp: make_receipt_def act_bind_Inr svc_check_Inr rehash_def Let_def)

lemma rehash_sel [simp]: "rc_ok (rehash env r) = rc_ok r" "rc_status (rehash env r) = rc_status r"
  by (simp_all add: rehash_def)

text \<open>The last writes of an accepted submission: its row is finished and the run saved with the same output.\<close>

definition accepted_end :: "focus \<Rightarrow> tick \<Rightarrow> int \<Rightarrow> run_state \<Rightarrow> run_state \<Rightarrow> issued_step \<Rightarrow> submission \<Rightarrow> adapter_db \<Rightarrow> bool" where
  "accepted_end fo tk q s s' stp sub db' \<longleftrightarrow> (\<exists>db1 rcv out. stored fo s db1 \<and> rc_ok rcv \<and> rc_status rcv = Step_Accepted \<and>
     db' = save_state (tk_now tk) (s'\<lparr>rs_outputs := dict_set (is_step_id stp) out (rs_outputs s')\<rparr>)
       (finish_step (tk_now tk) (fo_rid fo) q Step_Accepted (Some rcv) (Some out) (Some sub) None db1))"

lemma submit_receipt_end:
  assumes "submit_receipt (fo_env fo) tk (fo_rid fo) q s' stp a rec db = (Inr u, db')" "stored fo s db"
  shows "accepted_end fo tk q s s' stp (an_submission a) db'"
proof -
  have "stored fo s (record_receipt aid j h db)" for aid j h
    by (rule stored_view [OF _ assms(2)]) (simp add: record_receipt_def update_action_def sv.obs_actions)
  note st = this
  let ?h = "sv_hash (fo_env fo) (JDict rec)"
  let ?aid = "json_text (jget (case is_harness stp of None \<Rightarrow> [] | Some d \<Rightarrow> d) ''action_id'')"
  let ?out = "JDict (dict_set ''_receipt_hash'' (JString ?h) (dict_set ''_harness_action_id'' (JString ?aid) rec))"
  obtain md r db1 where mr: "make_receipt (fo_env fo) tk stp Step_Accepted [] [] md True [] None (record_receipt ?aid (JDict rec) ?h db) = (Inr r, db1)"
    and db': "db' = save_state (tk_now tk) (s'\<lparr>rs_outputs := dict_set (is_step_id stp) ?out (rs_outputs s')\<rparr>)
      (finish_step (tk_now tk) (fo_rid fo) q Step_Accepted (Some (rehash (fo_env fo) (r\<lparr>rc_harness_hash := Some ?h\<rparr>))) (Some ?out) (Some (an_submission a)) None db1)"
    using assms(1) by (auto simp: submit_receipt_def act_bind_Inr finish_def svc_save_def Let_def)
  show ?thesis
    unfolding accepted_end_def
    by (rule exI [of _ db1], rule exI [of _ "rehash (fo_env fo) (r\<lparr>rc_harness_hash := Some ?h\<rparr>)"], rule exI [of _ ?out])
      (simp add: make_receipt_Inr [OF mr] st db')
qed

lemma submit_reasoning_end:
  assumes "submit_reasoning (fo_env fo) tk (fo_rid fo) q m s s' stp a payload db = (Inr u, db')" "stored fo s db"
  shows "accepted_end fo tk q s s' stp (an_submission a) db'"
proof -
  let ?h = "\<lambda>e. case e of
       Ledger_Failed (Hypothesis_Rejected es) \<Rightarrow>
         act_bind (make_receipt (fo_env fo) tk stp Step_Rejected [] [] (answer_who a) False (map Ledger_Error es) None) (\<lambda>r.
         act_bind (finish tk (fo_rid fo) q Step_Issued (Some r) None None None) (\<lambda>_. act_raise (Ledger_Rejected es)))
     | _ \<Rightarrow> act_raise e"
  obtain out tids db1 where c: "act_catch (apply_theta (fo_env fo) (fo_rid fo) stp m s payload (an_theta a) (tk_started tk)) ?h db = (Inr (out, tids), db1)"
    and rest: "act_bind (make_receipt (fo_env fo) tk stp Step_Accepted (sorted_set (cited_ids (sb_payload (an_submission a)))) [] (answer_who a) True [] None) (\<lambda>r.
     act_bind (finish tk (fo_rid fo) q Step_Accepted (Some (if tids = [] then r else rehash (fo_env fo) (r\<lparr>rc_transitions := Some tids\<rparr>)))
         (Some (JDict out)) (Some (an_submission a)) None) (\<lambda>_.
       svc_save tk (s'\<lparr>rs_outputs := dict_set (is_step_id stp) (JDict out) (rs_outputs s')\<rparr>))) db1 = (Inr u, db')"
    using assms(1) by (auto simp: submit_reasoning_def act_bind_Inr [of "act_catch _ _"])
  have "leaves (view_of (fo_rid fo)) (?h e) (\<lambda>_. True)" for e
    by (auto intro!: leaves_then sv.quiets split: svc_error.splits hyp_exn.splits)
  then have "stored fo s db1" by (rule stored_view [OF leavesD [OF leaves_catch [OF sv.quiet_apply_theta] c] assms(2)])
  note st = this
  obtain r db2 where mr: "make_receipt (fo_env fo) tk stp Step_Accepted (sorted_set (cited_ids (sb_payload (an_submission a)))) [] (answer_who a) True [] None db1 = (Inr r, db2)"
    and db': "db' = save_state (tk_now tk) (s'\<lparr>rs_outputs := dict_set (is_step_id stp) (JDict out) (rs_outputs s')\<rparr>)
      (finish_step (tk_now tk) (fo_rid fo) q Step_Accepted (Some (if tids = [] then r else rehash (fo_env fo) (r\<lparr>rc_transitions := Some tids\<rparr>)))
        (Some (JDict out)) (Some (an_submission a)) None db2)"
    using rest by (auto simp: act_bind_Inr finish_def svc_save_def)
  show ?thesis
    unfolding accepted_end_def
    by (rule exI [of _ db2], rule exI [of _ "if tids = [] then r else rehash (fo_env fo) (r\<lparr>rc_transitions := Some tids\<rparr>)"], rule exI [of _ "JDict out"])
      (simp add: make_receipt_Inr [OF mr] st db')
qed

lemma svc_status_Inr: "svc_status env rid db = (Inr v, db') \<Longrightarrow> db' = db"
  by (auto simp: svc_status_def act_bind_Inr svc_load_Inr manifest_for_Inr)

lemma submit_end:
  assumes "submit_body (fo_env fo) tk (fo_rid fo) a db = (Inr u, db')" "stored fo s db"
  shows "\<exists>w s'. current_step (fo_rid fo) db = Some w \<and>
    accept_submission (sv_contracts (fo_env fo)) s (sw_step w) (an_submission a) = Inr s' \<and>
    accepted_end fo tk (sw_sequence w) s s' (sw_step w) (an_submission a) db'"
proof -
  obtain row where row: "svc_load (fo_rid fo) db = (Inr row, db)" "rw_state row = s"
    using stored_load [OF assms(2)] by (auto simp: svc_load_def)
  obtain m w where w: "current_step (fo_rid fo) db = Some w"
    and r: "(case accept_submission (sv_contracts (fo_env fo)) s (sw_step w) (an_submission a) of
              Inl (Submission_Rejected es) \<Rightarrow>
                act_bind (make_receipt (fo_env fo) tk (sw_step w) Step_Rejected [] [] (an_model a) False (map Sub_Error es) None) (\<lambda>r.
                act_bind (finish tk (fo_rid fo) (sw_sequence w) Step_Issued (Some r) None None None) (\<lambda>_. act_raise (Run_Failed (Submission_Rejected es))))
            | Inl e \<Rightarrow> act_raise (Run_Failed e)
            | Inr s' \<Rightarrow>
                (case sb_payload (an_submission a) of
                   JDict payload \<Rightarrow>
                     if is_type (sw_step w) = ''HARNESS_ACTION'' then submit_receipt (fo_env fo) tk (fo_rid fo) (sw_sequence w) s' (sw_step w) a payload
                     else submit_reasoning (fo_env fo) tk (fo_rid fo) (sw_sequence w) m s s' (sw_step w) a payload
                 | _ \<Rightarrow> act_raise (Type_Error ''payload''))) db = (Inr u, db')"
    using assms(1) row unfolding submit_body_def by (auto simp: act_bind_Inr [of "svc_load _"] act_bind_Inr [of "manifest_for _ _"] manifest_for_Inr
        act_bind_Inr [of act_get] Let_def split: option.splits)
  show ?thesis
  proof (cases "accept_submission (sv_contracts (fo_env fo)) s (sw_step w) (an_submission a)")
    case (Inl e)
    then show ?thesis using r by (cases e) (auto simp: act_bind_Inr)
  next
    case (Inr s')
    obtain payload where p: "sb_payload (an_submission a) = JDict payload"
      using r unfolding Inr by (cases "sb_payload (an_submission a)") simp_all
    have "accepted_end fo tk (sw_sequence w) s s' (sw_step w) (an_submission a) db'"
    proof (cases "is_type (sw_step w) = ''HARNESS_ACTION''")
      case True
      then show ?thesis using r submit_receipt_end [OF _ assms(2)] unfolding Inr p by simp
    next
      case False
      then show ?thesis using r submit_reasoning_end [OF _ assms(2)] unfolding Inr p by simp
    qed
    then show ?thesis using w Inr by blast
  qed
qed

lemma finished_row:
  assumes "w \<in> set (db_steps (save_state now' t (finish_step now rid q Step_Accepted (Some rcv) (Some out) (Some sub) None db)))"
    "sw_run w = rid" "sw_sequence w = q"
  shows "sw_status w = Step_Accepted \<and> sw_receipt w = Some rcv \<and> sw_output w = Some out \<and> sw_submission w = Some sub"
proof -
  have "w \<in> set (db_steps (finish_step now rid q Step_Accepted (Some rcv) (Some out) (Some sub) None db))"
    using assms(1) by (simp add: save_state_def update_runs_def)
  then have "w \<in> set (map (\<lambda>v. if sw_run v = rid \<and> sw_sequence v = q
        then v\<lparr>sw_status := Step_Accepted, sw_receipt := Some rcv, sw_output := Some out, sw_submission := Some sub, sw_ended := Some now\<rparr>
        else v) (db_steps db))"
    by (simp add: finish_step_def coalesce_def)
  then obtain v where v: "w = (if sw_run v = rid \<and> sw_sequence v = q
        then v\<lparr>sw_status := Step_Accepted, sw_receipt := Some rcv, sw_output := Some out, sw_submission := Some sub, sw_ended := Some now\<rparr>
        else v)" unfolding set_map image_iff by blast
  then have "sw_run v = rid \<and> sw_sequence v = q" using assms(2,3) by (cases "sw_run v = rid \<and> sw_sequence v = q") simp_all
  then show ?thesis using v by simp
qed

text \<open>
  C13. An accepted submission is on record: when \<open>submit\<close> commits, the run is running again at the
  same step with one more accepted answer, the current step's row is accepted with the submission
  and a valid receipt, and the output on the row is the one the run carries on with.
\<close>

theorem accepted_submission_is_on_record:
  assumes "registry_ok env" "(svc_step env)\<^sup>*\<^sup>* empty_db db" "tx (submit env tk rid a) db = (Inr view, db')"
  shows "\<exists>r r' w sid rcv. load_run rid db = Some r \<and> load_run rid db' = Some r' \<and>
    rs_current (rw_state r) = Some sid \<and> rs_current (rw_state r') = Some sid \<and> rs_status (rw_state r') = Running \<and>
    rs_accepted (rw_state r') = rs_accepted (rw_state r) + 1 \<and> last (rs_order (rw_state r')) = sid \<and>
    current_step rid db' = Some w \<and> is_step_id (sw_step w) = sid \<and> sw_status w = Step_Accepted \<and>
    sw_submission w = Some (an_submission a) \<and> sw_receipt w = Some rcv \<and> rc_ok rcv \<and> rc_status rcv = Step_Accepted \<and>
    sw_output w \<noteq> None \<and> map_of (rs_outputs (rw_state r')) sid = sw_output w"
proof -
  note inv = history_inv [OF assms(1,2)]
  have "submit env tk rid a db = (Inr view, db')" using assms(3) by (auto simp: tx_def split: prod.splits sum.splits)
  then have sub: "submit_body env tk rid a db = (Inr (), db')" by (auto simp: submit_def act_bind_Inr dest: svc_status_Inr)
  then obtain r where r: "load_run rid db = Some r" by (cases "load_run rid db") (auto simp: submit_body_def act_bind_def svc_load_def)
  let ?s = "rw_state r"
  obtain m where st: "stored (focus_on env rid m ?s db) ?s db" using stored_focus [OF inv r] by blast
  let ?fo = "focus_on env rid m ?s db"
  obtain w s' where w: "current_step rid db = Some w" and acc: "accept_submission (sv_contracts env) ?s (sw_step w) (an_submission a) = Inr s'"
    and e: "accepted_end ?fo tk (sw_sequence w) ?s s' (sw_step w) (an_submission a) db'"
    using submit_end [of ?fo, OF _ st, simplified focus_on_sel, OF sub] by blast
  note ac = accept_submissionD [OF acc]
  let ?sid = "is_step_id (sw_step w)"
  have sid: "rs_current ?s = Some ?sid" and s': "s' = (record_output ?s ?sid (sb_payload (an_submission a)))\<lparr>rs_status := Running\<rparr>" using ac by blast+
  obtain db1 rcv out where d: "stored ?fo ?s db1" "rc_ok rcv" "rc_status rcv = Step_Accepted"
    "db' = save_state (tk_now tk) (s'\<lparr>rs_outputs := dict_set ?sid out (rs_outputs s')\<rparr>)
       (finish_step (tk_now tk) rid (sw_sequence w) Step_Accepted (Some rcv) (Some out) (Some (an_submission a)) None db1)"
    using e unfolding accepted_end_def focus_on_sel by blast
  let ?t = "s'\<lparr>rs_outputs := dict_set ?sid out (rs_outputs s')\<rparr>"
  have "stored ?fo ?s (finish_step (tk_now tk) rid (sw_sequence w) Step_Accepted (Some rcv) (Some out) (Some (an_submission a)) None db1)"
    by (rule stored_view [OF _ d(1)]) (simp add: finish_step_view)
  then have t: "stored ?fo ?t db'"
    by (rule endsD [OF ends_save_answer [of ?fo, simplified focus_on_sel, OF acc]]) (simp add: svc_save_def d(4))
  obtain r' where r': "load_run rid db' = Some r'" "rw_state r' = ?t" using stored_load [OF t] by auto
  have same: "rs_sequence ?t = rs_sequence ?s" "rs_current ?t = Some ?sid" "rs_status ?t = Running" "rs_accepted ?t = rs_accepted ?s + 1"
      "last (rs_order ?t) = ?sid" "map_of (rs_outputs ?t) ?sid = Some out"
    using sid unfolding s' by (simp_all add: record_output_def bump_order_def)
  have pos: "0 < rs_sequence ?s"
    using stored_inv [OF st] sid by (auto simp: run_inv_def within_budgets_def position_ok_def less_le)
  have rr: "r \<in> set (db_runs db)" "row_run r = rid" "r' \<in> set (db_runs db')" "row_run r' = rid" using load_runD r r'(1) by blast+
  have q: "sw_sequence w = rs_sequence ?s" using current_is_last [OF inv rr(1) pos] w unfolding rr(2) by auto
  have "db_inv env db'" using t by (simp add: stored_def)
  from current_is_last [OF this rr(3)] pos same(1) r'(2) rr(4)
  obtain w' where w': "current_step rid db' = Some w'" "w' \<in> set (db_steps db')" "sw_run w' = rid" "sw_sequence w' = rs_sequence ?s"
    "is_step_id (sw_step w') = ?sid" using same(2) by auto
  from finished_row [OF w'(2) [unfolded d(4)] w'(3)] w'(4) q
  have f: "sw_status w' = Step_Accepted" "sw_receipt w' = Some rcv" "sw_output w' = Some out" "sw_submission w' = Some (an_submission a)" by auto
  show ?thesis
    using r r' sid same w'(1,5) f d(2,3) by (intro exI [of _ r] exI [of _ r'] exI [of _ w'] exI [of _ ?sid] exI [of _ rcv]) simp
qed

definition demo_reply :: answer where
  "demo_reply = \<lparr>an_submission = demo_answer, an_model = None, an_agent = Some ''ag'', an_theta = \<lparr>th_hypotheses = None, th_transitions = None\<rparr>\<rparr>"

lemma demo_submits: "case fst (tx (submit demo_env demo_tick demo_rid demo_reply) demo_db4) of Inr v \<Rightarrow> vw_status v = Running | Inl e \<Rightarrow> False"
  by code_simp

theorem accepted_submission_is_on_record_witness:
  "\<exists>v db' w. tx (submit demo_env demo_tick demo_rid demo_reply) demo_db4 = (Inr v, db') \<and> current_step demo_rid db' = Some w \<and>
    sw_status w = Step_Accepted \<and> sw_submission w = Some demo_answer"
proof -
  obtain v db' where "tx (submit demo_env demo_tick demo_rid demo_reply) demo_db4 = (Inr v, db')"
    using demo_submits by (cases "tx (submit demo_env demo_tick demo_rid demo_reply) demo_db4") (auto split: sum.splits)
  from accepted_submission_is_on_record [OF demo_registry demo_history(3) this] this show ?thesis by (auto simp: demo_reply_def)
qed

text \<open>
  A refused submission is receipted by \<open>submit\<close> itself, but the route runs it in a transaction
  that the raised refusal rolls back: the receipt is never stored.
\<close>

definition demo_late :: answer where
  "demo_late = demo_reply\<lparr>an_submission := demo_answer\<lparr>sb_step_id := ''get''\<rparr>\<rparr>"

lemma refusal_is_receipted_then_rolled_back:
  "(case submit demo_env demo_tick demo_rid demo_late demo_db4 of
      (Inl (Run_Failed (Submission_Rejected es)), db') \<Rightarrow> map (\<lambda>w. map_option rc_status (sw_receipt w)) (db_steps db') = [Some Step_Executed, Some Step_Rejected]
    | _ \<Rightarrow> False) \<and>
   map (\<lambda>w. map_option rc_status (sw_receipt w)) (db_steps (snd (tx (submit demo_env demo_tick demo_rid demo_late) demo_db4))) = [Some Step_Executed, None]"
  by code_simp

section \<open>The evidence a step shows\<close>

lemma spill_length [simp]: "length (spill k xs) = length xs"
  by (induction k xs rule: spill.induct) (auto simp: Let_def)

lemma spill_sum:
  "list_all (\<lambda>(len, tk). tk \<le> len) xs \<Longrightarrow> sum_list (spill k xs) = sum_list (map snd xs) + min k (sum_list (map fst xs) - sum_list (map snd xs))
    \<and> list_all2 (\<lambda>(len, tk) n. tk \<le> n \<and> n \<le> len) xs (spill k xs)"
proof (induction k xs rule: spill.induct)
  case (2 k len tk rest)
  have "sum_list (map snd rest) \<le> sum_list (map fst rest)" using 2(2) by (auto simp: list_all_iff intro!: sum_list_mono)
  then show ?case using 2 by (auto simp: Let_def min_def)
qed simp

lemma balance_counts:
  assumes "sum_list (map snd sizes) \<le> MAX_CONTEXT_REFS"
  shows "sum_list (balance sizes) = min MAX_CONTEXT_REFS (sum_list (map fst sizes))"
    "list_all2 (\<lambda>(len, b) n. min len b \<le> n \<and> n \<le> len) sizes (balance sizes)"
proof -
  let ?f = "map (\<lambda>(len, b). (len, min len b)) sizes"
  have ok: "list_all (\<lambda>(len, tk). tk \<le> len) ?f" by (auto simp: list_all_iff)
  have le: "sum_list (map snd ?f) \<le> sum_list (map snd sizes)" by (simp add: o_def split_def sum_list_mono)
  have le2: "sum_list (map snd ?f) \<le> sum_list (map fst sizes)" by (simp add: o_def split_def sum_list_mono)
  have fst: "map fst ?f = map fst sizes" by (simp add: o_def split_def)
  have bal: "balance sizes = spill (MAX_CONTEXT_REFS - sum_list (map snd ?f)) ?f" by (simp add: balance_def)
  note s = spill_sum [OF ok, of "MAX_CONTEXT_REFS - sum_list (map snd ?f)", folded bal, unfolded fst]
  have arith: "t + min (k - t) (n - t) = min k n" if "t \<le> k" "t \<le> n" for t k n :: nat using that by arith
  show "sum_list (balance sizes) = min MAX_CONTEXT_REFS (sum_list (map fst sizes))"
    unfolding conjunct1 [OF s] by (rule arith [OF le_trans [OF le assms] le2])
  show "list_all2 (\<lambda>(len, b) n. min len b \<le> n \<and> n \<le> len) sizes (balance sizes)"
    using conjunct2 [OF s] unfolding list_all2_map1 by (simp add: split_def)
qed

lemma context_classes: "map fst CONTEXT_BUDGET = [''field_evidence'', ''chunk'', ''graph_fact'', ''other'']" "ref_class r \<in> set (map fst CONTEXT_BUDGET)"
  by (simp_all add: CONTEXT_BUDGET_def ref_class_def context_class_def)

lemma classes_partition:
  "distinct cs \<Longrightarrow> (\<And>r. r \<in> set refs \<Longrightarrow> f r \<in> set cs) \<Longrightarrow> sum_list (map (\<lambda>c. length (filter (\<lambda>r. f r = c) refs)) cs) = length refs"
proof (induction refs)
  case (Cons r refs)
  have "sum_list (map (\<lambda>c. length (filter (\<lambda>r. f r = c) (r # refs))) cs) = sum_list (map (\<lambda>c. (if f r = c then 1 else 0) + length (filter (\<lambda>r. f r = c) refs)) cs)"
    by (rule arg_cong [of _ _ sum_list]) auto
  also have "\<dots> = sum_list (map (\<lambda>c. if f r = c then 1 else 0) cs) + length refs" using Cons by (simp add: sum_list_addf)
  also have "sum_list (map (\<lambda>c. if f r = c then 1 else (0 :: nat)) cs) = 1"
    using Cons.prems by (simp add: sum_list_distinct_conv_sum_set)
  finally show ?case by simp
qed simp

lemma filter_take_class: "filter (\<lambda>r. f r = c) (take n (filter (\<lambda>r. f r = d) refs)) = (if c = d then take n (filter (\<lambda>r. f r = d) refs) else [])"
proof -
  have "\<forall>r \<in> set (take n (filter (\<lambda>r. f r = d) refs)). f r = d" by (auto dest: in_set_takeD)
  moreover have "filter (\<lambda>r. f r = c) xs = (if c = d then xs else [])" if "\<forall>r \<in> set xs. f r = d" for xs
    using that by (induction xs) auto
  ultimately show ?thesis by blast
qed

text \<open>How many references of each class a step shows.\<close>

lemma show_refs_classes:
  fixes refs :: "ev_ref list"
  defines "of_class \<equiv> \<lambda>c. filter (\<lambda>r. ref_class r = c) refs"
  obtains n1 n2 n3 n4 where
    "show_refs refs = take n1 (of_class ''field_evidence'') @ take n2 (of_class ''chunk'') @ take n3 (of_class ''graph_fact'') @ take n4 (of_class ''other'')"
    "min (length (of_class ''field_evidence'')) 80 \<le> n1" "n1 \<le> length (of_class ''field_evidence'')"
    "min (length (of_class ''chunk'')) 50 \<le> n2" "n2 \<le> length (of_class ''chunk'')"
    "min (length (of_class ''graph_fact'')) 40 \<le> n3" "n3 \<le> length (of_class ''graph_fact'')"
    "min (length (of_class ''other'')) 30 \<le> n4" "n4 \<le> length (of_class ''other'')"
    "n1 + n2 + n3 + n4 = min 200 (length refs)"
proof -
  let ?sizes = "map (\<lambda>(c, budget). (length (of_class c), budget)) CONTEXT_BUDGET"
  have le: "sum_list (map snd ?sizes) \<le> MAX_CONTEXT_REFS" by (simp add: CONTEXT_BUDGET_def MAX_CONTEXT_REFS_def)
  note b = balance_counts [OF le]
  obtain n1 n2 n3 n4 where n: "balance ?sizes = [n1, n2, n3, n4]"
    using b(2) by (auto simp: CONTEXT_BUDGET_def list_all2_Cons1)
  have "sum_list (map (\<lambda>c. length (of_class c)) (map fst CONTEXT_BUDGET)) = length refs"
    unfolding of_class_def by (rule classes_partition) (use context_classes in \<open>simp_all add: CONTEXT_BUDGET_def\<close>)
  then have "sum_list (map fst ?sizes) = length refs" by (simp add: o_def split_def)
  then have sum: "n1 + n2 + n3 + n4 = min 200 (length refs)" using b(1) unfolding n MAX_CONTEXT_REFS_def by simp
  have ge: "min (length (of_class ''field_evidence'')) 80 \<le> n1" "n1 \<le> length (of_class ''field_evidence'')"
    "min (length (of_class ''chunk'')) 50 \<le> n2" "n2 \<le> length (of_class ''chunk'')"
    "min (length (of_class ''graph_fact'')) 40 \<le> n3" "n3 \<le> length (of_class ''graph_fact'')"
    "min (length (of_class ''other'')) 30 \<le> n4" "n4 \<le> length (of_class ''other'')"
    using b(2) unfolding n by (simp_all add: CONTEXT_BUDGET_def)
  have "show_refs refs = take 200 (take n1 (of_class ''field_evidence'') @ take n2 (of_class ''chunk'') @ take n3 (of_class ''graph_fact'') @ take n4 (of_class ''other''))"
    using n unfolding show_refs_def Let_def of_class_def MAX_CONTEXT_REFS_def by (simp add: CONTEXT_BUDGET_def)
  also have "\<dots> = take n1 (of_class ''field_evidence'') @ take n2 (of_class ''chunk'') @ take n3 (of_class ''graph_fact'') @ take n4 (of_class ''other'')"
    using sum ge by (intro take_all) simp
  finally show thesis using ge sum by (rule that)
qed

text \<open>
  C15. The citation context of a step is balanced: it shows 200 references, or all when there are
  fewer; of every class (field evidence, chunks, graph facts, everything else) it shows the oldest
  ones in their order, and at least as many as the class's reserved share or all it has, so no class
  can crowd out another.
\<close>

theorem shown_evidence_is_balanced:
  "length (show_refs refs) = min 200 (length refs) \<and>
   (\<forall>(c, share) \<in> set [(''field_evidence'', 80), (''chunk'', 50), (''graph_fact'', 40), (''other'', 30)].
      \<exists>n. min share (length (filter (\<lambda>r. ref_class r = c) refs)) \<le> n \<and>
        filter (\<lambda>r. ref_class r = c) (show_refs refs) = take n (filter (\<lambda>r. ref_class r = c) refs))"
proof -
  obtain n1 n2 n3 n4 where
    s: "show_refs refs = take n1 (filter (\<lambda>r. ref_class r = ''field_evidence'') refs) @ take n2 (filter (\<lambda>r. ref_class r = ''chunk'') refs) @
      take n3 (filter (\<lambda>r. ref_class r = ''graph_fact'') refs) @ take n4 (filter (\<lambda>r. ref_class r = ''other'') refs)"
    and n: "min (length (filter (\<lambda>r. ref_class r = ''field_evidence'') refs)) 80 \<le> n1" "n1 \<le> length (filter (\<lambda>r. ref_class r = ''field_evidence'') refs)"
    "min (length (filter (\<lambda>r. ref_class r = ''chunk'') refs)) 50 \<le> n2" "n2 \<le> length (filter (\<lambda>r. ref_class r = ''chunk'') refs)"
    "min (length (filter (\<lambda>r. ref_class r = ''graph_fact'') refs)) 40 \<le> n3" "n3 \<le> length (filter (\<lambda>r. ref_class r = ''graph_fact'') refs)"
    "min (length (filter (\<lambda>r. ref_class r = ''other'') refs)) 30 \<le> n4" "n4 \<le> length (filter (\<lambda>r. ref_class r = ''other'') refs)"
    and sum: "n1 + n2 + n3 + n4 = min 200 (length refs)" by (rule show_refs_classes [of refs])
  have len: "length (show_refs refs) = min 200 (length refs)" using n(2,4,6,8) unfolding sum [symmetric] s by simp
  have "filter (\<lambda>r. ref_class r = ''field_evidence'') (show_refs refs) = take n1 (filter (\<lambda>r. ref_class r = ''field_evidence'') refs)"
    "filter (\<lambda>r. ref_class r = ''chunk'') (show_refs refs) = take n2 (filter (\<lambda>r. ref_class r = ''chunk'') refs)"
    "filter (\<lambda>r. ref_class r = ''graph_fact'') (show_refs refs) = take n3 (filter (\<lambda>r. ref_class r = ''graph_fact'') refs)"
    "filter (\<lambda>r. ref_class r = ''other'') (show_refs refs) = take n4 (filter (\<lambda>r. ref_class r = ''other'') refs)"
    unfolding s filter_append filter_take_class by simp_all
  then show ?thesis using len n(1,3,5,7)
    unfolding list.set ball_simps prod.case by (metis min.commute)
qed

theorem shown_evidence_is_balanced_witness:
  "length (show_refs [\<lparr>er_id = ''c1'', er_kind = Some ''chunk''\<rparr>, \<lparr>er_id = ''m'', er_kind = None\<rparr>]) = 2 \<and>
   (\<exists>n. 1 \<le> n \<and> filter (\<lambda>r. ref_class r = ''chunk'') (show_refs [\<lparr>er_id = ''c1'', er_kind = Some ''chunk''\<rparr>, \<lparr>er_id = ''m'', er_kind = None\<rparr>]) =
      take n [\<lparr>er_id = ''c1'', er_kind = Some ''chunk''\<rparr>])"
proof -
  have f: "filter (\<lambda>r. ref_class r = ''chunk'') [\<lparr>er_id = ''c1'', er_kind = Some ''chunk''\<rparr>, \<lparr>er_id = ''m'', er_kind = None\<rparr>] = [\<lparr>er_id = ''c1'', er_kind = Some ''chunk''\<rparr>]"
    by code_simp
  note t = shown_evidence_is_balanced [of "[\<lparr>er_id = ''c1'', er_kind = Some ''chunk''\<rparr>, \<lparr>er_id = ''m'', er_kind = None\<rparr>]"]
  have "(''chunk'', 50) \<in> set [(''field_evidence'', 80), (''chunk'', 50), (''graph_fact'', 40), (''other'', 30 :: nat)]" by simp
  from bspec [OF conjunct2 [OF t] this, unfolded prod.case f] have "\<exists>n. 1 \<le> n \<and> filter (\<lambda>r. ref_class r = ''chunk'') (show_refs [\<lparr>er_id = ''c1'', er_kind = Some ''chunk''\<rparr>, \<lparr>er_id = ''m'', er_kind = None\<rparr>]) =
      take n [\<lparr>er_id = ''c1'', er_kind = Some ''chunk''\<rparr>]" by (simp del: filter.simps)
  moreover have "length (show_refs [\<lparr>er_id = ''c1'', er_kind = Some ''chunk''\<rparr>, \<lparr>er_id = ''m'', er_kind = None\<rparr>]) = 2" using conjunct1 [OF t] by simp
  ultimately show ?thesis by blast
qed

end
