(* ===== verification/Hypotheses_Facts.thy ===== *)
theory Hypotheses_Facts
  imports Hypotheses
begin

text \<open>
  Facts about the hypothesis ledger: what one call of \<open>generate\<close> or \<open>apply\<close> returns keeps the
  lineage, the evidence and the revision numbers; absorbed hypotheses are never touched; theta
  never applies selective pressure; and where a split child writes through its parent's evidence.
\<close>

section \<open>Actions\<close>

lemma act_simps [simp]:
  "act_errors es l = (r1, l') \<longleftrightarrow> r1 = Inr () \<and> l' = l\<lparr>lg_errors := lg_errors l @ es\<rparr>"
  "act_ordinal l = (r2, l') \<longleftrightarrow> r2 = Inr (lg_ordinal l) \<and> l' = l"
  "alloc_items items l = (r3, l') \<longleftrightarrow>
     r3 = Inr [length (lg_store l) ..< length (lg_store l) + length items] \<and> l' = l\<lparr>lg_store := lg_store l @ items\<rparr>"
  by (auto simp: act_errors_def act_ordinal_def alloc_items_def)

lemma act_valid_Inr [simp]: "act_valid name vs l = (Inr x, l') \<longleftrightarrow> vs = [] \<and> l' = l"
  by (auto simp: act_valid_def)

lemma act_state_valid_Inr [simp]:
  "act_state_valid env st l = (Inr x, l') \<longleftrightarrow> he_state env (map ((!) (lg_store l)) (hs_support st)) st = [] \<and> l' = l"
  by (auto simp: act_state_valid_def)

text \<open>What the store-only actions leave alone.\<close>

definition same_books :: "ledger \<Rightarrow> ledger \<Rightarrow> bool" where
  "same_books l l' \<longleftrightarrow> lg_new l' = lg_new l \<and> lg_live l' = lg_live l \<and> lg_trans l' = lg_trans l"

lemma write_roles_books: "write_roles roles as l = (r, l') \<Longrightarrow> same_books l l'"
proof (induction roles as l rule: write_roles.induct)
  case (2 roles a as l)
  show ?case
  proof (cases "support_id (lg_store l ! a)")
    case None then show ?thesis using 2(2) by (auto simp: same_books_def)
  next
    case (Some rid)
    show ?thesis using 2(1) [OF Some] 2(2) Some by (cases "map_of roles rid") (auto simp: same_books_def)
  qed
qed (auto simp: same_books_def)

lemma ledger_state_Inr:
  "ledger_state hid run_id p s ps addrs priors field rec l = (Inr st, l') \<Longrightarrow>
   same_books l l' \<and> lg_errors l' = lg_errors l' \<and> hs_id st = hid \<and> hs_parents st = ps \<and> hs_revision st = 0 \<and> hs_status st = H_Proposed
   \<and> hs_support st = addrs"
  by (auto simp: ledger_state_def act_bind_Inr dest: write_roles_books)

section \<open>The books of one call\<close>

text \<open>Nothing a hypothesis rests on is lost from one revision to the next.\<close>

definition grows :: "hyp_state \<Rightarrow> hyp_state \<Rightarrow> bool" where
  "grows b s \<longleftrightarrow> hs_id s = hs_id b \<and> hs_run s = hs_run b \<and> set (hs_parents b) \<subseteq> set (hs_parents s)
     \<and> set (hs_support b) \<subseteq> set (hs_support s) \<and> set (hs_field b) \<subseteq> set (hs_field s)
     \<and> set (hs_contradictions b) \<subseteq> set (hs_contradictions s) \<and> hs_priors s = hs_priors b
     \<and> hs_assumptions s = hs_assumptions b \<and> hs_falsifiers s = hs_falsifiers b \<and> hs_gaps s = hs_gaps b \<and> hs_created s = hs_created b"

lemma grows_refl: "grows s s" and grows_trans: "grows a b \<Longrightarrow> grows b c \<Longrightarrow> grows a c"
  by (auto simp: grows_def)

lemma set_sorted_set [simp]: "set (sorted_set xs) = set xs"
  by (simp add: sorted_set_def)

lemma grows_status [simp]: "grows b (s\<lparr>hs_status := x\<rparr>) = grows b s"
  and grows_revision [simp]: "grows b (s\<lparr>hs_revision := i\<rparr>) = grows b s"
  and grows_updated [simp]: "grows b (s\<lparr>hs_updated := r\<rparr>) = grows b s"
  by (auto simp: grows_def)

lemma merge_into_grows: "grows tgt (merge_into store tgt prev hid fa tgt)"
  by (auto simp: grows_def merge_into_def merged_support_def)

lemma plain_change_grows: "grows prev (plain_change rq kind prev contra fa prev)"
  by (auto simp: grows_def plain_change_def)

text \<open>
  The books: \<open>K\<close> is the set of ids handed to split children so far, \<open>X\<close> the hypotheses whose new
  revision still waits for its transition.
\<close>

definition entry_ok :: "(string, hyp_state) dict \<Rightarrow> string set \<Rightarrow> string set \<Rightarrow> hyp_transition list \<Rightarrow> hyp_actor \<Rightarrow> string \<Rightarrow> hyp_state \<Rightarrow> bool" where
  "entry_ok cur K X ts actor h s \<longleftrightarrow> hs_id s = h
     \<and> (h \<notin> X \<longrightarrow> (\<exists>t \<in> set ts. tn_hid t = h \<and> tn_to t = hs_revision s))
     \<and> (actor = Theta \<longrightarrow> hs_status s \<notin> set ABSORBED_STATUSES)
     \<and> (case map_of cur h of
          None \<Rightarrow> h \<in> K \<and> hs_revision s = 0
        | Some b \<Rightarrow> hs_revision s = hs_revision b + 1 \<and> grows b s \<and> hs_status b \<notin> set ABSORBED_STATUSES)"

definition trans_ok :: "(string, hyp_state) dict \<Rightarrow> hyp_actor \<Rightarrow> hyp_transition \<Rightarrow> bool" where
  "trans_ok new actor t \<longleftrightarrow> tn_causes t \<noteq> [] \<and> tn_actor t = actor \<and> (actor = Theta \<longrightarrow> tn_kind t \<in> set THETA_KINDS)
     \<and> (\<exists>s. map_of new (tn_hid t) = Some s \<and> (tn_kind t = GENERATE \<longrightarrow> set (tn_parents t) \<subseteq> set (hs_parents s)))"

definition dkeys :: "('k, 'v) dict \<Rightarrow> 'k set" where
  "dkeys d = fst ` set d"

lemma dkeys_set [simp]: "dkeys (dict_set k v d) = insert k (dkeys d)"
  by (simp add: dkeys_def)

lemma dkeys_None: "map_of d k = None \<longleftrightarrow> k \<notin> dkeys d"
  by (simp add: dkeys_def map_of_eq_None_iff)

lemma dkeys_Some: "k \<in> dkeys d \<Longrightarrow> \<exists>v. map_of d k = Some v"
  using dkeys_None [of d k] by auto

lemma dkeysI: "map_of d k = Some v \<Longrightarrow> k \<in> dkeys d"
  using dkeys_None [of d k] by auto

definition books :: "(string, hyp_state) dict \<Rightarrow> hyp_actor \<Rightarrow> string set \<Rightarrow> string set \<Rightarrow> ledger \<Rightarrow> bool" where
  "books cur actor K X l \<longleftrightarrow> distinct (map fst (lg_new l))
     \<and> dkeys (lg_live l) = dkeys cur \<union> dkeys (lg_new l)
     \<and> (\<forall>h \<in> dkeys cur. map_of (lg_live l) h = map_of cur h)
     \<and> (\<forall>h s. map_of (lg_new l) h = Some s \<longrightarrow> entry_ok cur K X (lg_trans l) actor h s)
     \<and> (\<forall>t \<in> set (lg_trans l). trans_ok (lg_new l) actor t)"

lemma books_same: "books cur actor K X l \<Longrightarrow> same_books l l' \<Longrightarrow> books cur actor K X l'"
proof -
  assume b: "books cur actor K X l" and "same_books l l'"
  then have eqs: "lg_new l' = lg_new l" "lg_live l' = lg_live l" "lg_trans l' = lg_trans l" by (simp_all add: same_books_def)
  show ?thesis using b unfolding books_def eqs .
qed

lemma entry_ok_mono: "entry_ok cur K X ts actor h s \<Longrightarrow> K \<subseteq> K' \<Longrightarrow> entry_ok cur K' X ts actor h s"
  unfolding entry_ok_def by (cases "map_of cur h") auto

lemma booksI:
  assumes "distinct (map fst (lg_new l))" "dkeys (lg_live l) = dkeys cur \<union> dkeys (lg_new l)"
    and "\<And>h. h \<in> dkeys cur \<Longrightarrow> map_of (lg_live l) h = map_of cur h"
    and "\<And>h s. map_of (lg_new l) h = Some s \<Longrightarrow> entry_ok cur K X (lg_trans l) actor h s"
    and "\<And>t. t \<in> set (lg_trans l) \<Longrightarrow> trans_ok (lg_new l) actor t"
  shows "books cur actor K X l"
  unfolding books_def by (intro conjI allI impI ballI assms)

lemma booksD:
  assumes "books cur actor K X l"
  shows "distinct (map fst (lg_new l))" "dkeys (lg_live l) = dkeys cur \<union> dkeys (lg_new l)"
    and "h \<in> dkeys cur \<Longrightarrow> map_of (lg_live l) h = map_of cur h"
    and "map_of (lg_new l) h = Some s \<Longrightarrow> entry_ok cur K X (lg_trans l) actor h s"
    and "t \<in> set (lg_trans l) \<Longrightarrow> trans_ok (lg_new l) actor t"
  using assms unfolding books_def by (simp_all only: simp_thms Ball_def)

lemma books_mono: "books cur actor K X l \<Longrightarrow> K \<subseteq> K' \<Longrightarrow> books cur actor K' X l"
  by (rule booksI) (erule booksD entry_ok_mono [OF booksD(4)]; assumption)+

lemma same_books_errors [simp]: "same_books l (l\<lparr>lg_errors := es\<rparr>)" and same_books_store [simp]: "same_books l (l\<lparr>lg_store := st\<rparr>)"
  and same_books_refl [simp]: "same_books l l"
  by (simp_all add: same_books_def)

lemma same_books_trans: "same_books a b \<Longrightarrow> same_books b c \<Longrightarrow> same_books a c"
  by (simp add: same_books_def)

lemma newest_cong: "lg_new l' = lg_new l \<Longrightarrow> lg_live l' = lg_live l \<Longrightarrow> newest l' h = newest l h"
  by (simp add: newest_def split: option.splits)

lemma same_books_newest: "same_books l l' \<Longrightarrow> newest l' h = newest l h"
  by (auto simp: same_books_def newest_def split: option.splits)

section \<open>Revising, adding a child, recording\<close>

lemma newest_in_live: "books cur actor K X l \<Longrightarrow> newest l h = Some s \<Longrightarrow> h \<in> dkeys (lg_live l)"
  using booksD(2) [of cur actor K X l] by (auto simp: newest_def dest: dkeysI split: option.splits)

lemma bump_Inr:
  assumes "bump_revision rec h f l = (Inr st, l')"
  obtains b where "newest l h = Some b" "l' = l\<lparr>lg_new := dict_set h st (lg_new l)\<rparr>"
    "st = (f b)\<lparr>hs_revision := hs_revision b + (if h \<in> dkeys (lg_new l) then 0 else 1), hs_updated := rec\<rparr>"
proof (cases "newest l h")
  case None then show ?thesis using assms by (simp add: bump_revision_def)
next
  case (Some b) then show ?thesis using assms by (intro that [of b]) (auto simp: bump_revision_def Let_def dkeys_def)
qed

lemma entry_ok_pending: "entry_ok cur K X ts actor h s \<Longrightarrow> entry_ok cur K (insert x X) ts actor h s"
  by (auto simp: entry_ok_def)

lemma books_bump:
  assumes b: "books cur actor K X l" and r: "bump_revision rec h f l = (Inr st, l')"
    and n: "newest l h = Some b" and live: "hs_status b \<notin> set ABSORBED_STATUSES"
    and g: "grows b (f b)" and th: "actor = Theta \<Longrightarrow> hs_status (f b) \<notin> set ABSORBED_STATUSES"
    and ids: "\<And>k s. map_of cur k = Some s \<Longrightarrow> hs_id s = k"
  shows "books cur actor K (insert h X) l' \<and> map_of (lg_new l') h = Some st"
proof -
  from r n have l': "l' = l\<lparr>lg_new := dict_set h st (lg_new l)\<rparr>"
    and st: "st = (f b)\<lparr>hs_revision := hs_revision b + (if h \<in> dkeys (lg_new l) then 0 else 1), hs_updated := rec\<rparr>"
    by (auto elim: bump_Inr)
  have gst: "grows b st" using g by (simp add: st)
  have hl: "h \<in> dkeys (lg_live l)" by (rule newest_in_live [OF b n])
  have entry: "entry_ok cur K (insert h X) (lg_trans l) actor h st"
  proof (cases "map_of (lg_new l) h")
    case (Some s)
    then have "b = s" using n by (simp add: newest_def)
    with booksD(4) [OF b Some] have e: "entry_ok cur K X (lg_trans l) actor h b" by simp
    have rev: "hs_revision st = hs_revision b" using Some by (simp add: st dkeysI)
    show ?thesis using e gst th rev
      by (auto simp: entry_ok_def grows_def st split: option.splits)
  next
    case None
    then have "map_of (lg_live l) h = Some b" using n by (simp add: newest_def)
    moreover have "h \<in> dkeys cur" using hl None booksD(2) [OF b] by (auto simp: dkeys_None)
    ultimately have cb: "map_of cur h = Some b" using booksD(3) [OF b] by simp
    have rev: "hs_revision st = hs_revision b + 1" using None by (simp add: st dkeys_None)
    show ?thesis using cb ids [OF cb] gst th rev live by (auto simp: entry_ok_def grows_def st)
  qed
  have "books cur actor K (insert h X) l'"
  proof (rule booksI)
    show "distinct (map fst (lg_new l'))" using booksD(1) [OF b] by (simp add: l')
    show "dkeys (lg_live l') = dkeys cur \<union> dkeys (lg_new l')" using booksD(2) [OF b] hl by (auto simp: l')
    show "map_of (lg_live l') k = map_of cur k" if "k \<in> dkeys cur" for k using booksD(3) [OF b that] by (simp add: l')
    show "entry_ok cur K (insert h X) (lg_trans l') actor k s" if "map_of (lg_new l') k = Some s" for k s
    proof (cases "k = h")
      case True then show ?thesis using that entry by (simp add: l')
    next
      case False
      then have "map_of (lg_new l) k = Some s" using that by (simp add: l')
      from entry_ok_pending [OF booksD(4) [OF b this]] show ?thesis by (simp add: l')
    qed
    show "trans_ok (lg_new l') actor t" if "t \<in> set (lg_trans l')" for t
    proof -
      have t: "trans_ok (lg_new l) actor t" using booksD(5) [OF b] that by (simp add: l')
      show ?thesis
      proof (cases "tn_hid t = h")
        case True
        with t obtain s where s: "map_of (lg_new l) h = Some s" "tn_kind t = GENERATE \<longrightarrow> set (tn_parents t) \<subseteq> set (hs_parents s)"
          by (auto simp: trans_ok_def)
        then have "s = b" using n by (simp add: newest_def)
        then show ?thesis using t True s gst by (auto simp: trans_ok_def l' grows_def)
      next
        case False then show ?thesis using t by (simp add: trans_ok_def l')
      qed
    qed
  qed
  then show ?thesis by (simp add: l')
qed

lemma call_emit_Inr:
  assumes "call_emit c h kind ps ch causes fr to status reason l = (Inr u, l')"
  obtains t where "l' = l\<lparr>lg_trans := lg_trans l @ [t], lg_ordinal := lg_ordinal l + 1\<rparr>" "tn_hid t = h" "tn_kind t = kind"
    "tn_actor t = ac_actor c" "tn_parents t = ps" "tn_causes t = causes" "tn_to t = to"
  using assms by (auto simp: call_emit_def emit_def make_transition_def Let_def act_bind_Inr)

lemma books_emit:
  assumes b: "books cur (ac_actor c) K X l" and e: "call_emit c h kind ps ch causes fr to status reason l = (Inr u, l')"
    and s: "map_of (lg_new l) h = Some s" and to: "to = hs_revision s" and cs: "causes \<noteq> []"
    and th: "ac_actor c = Theta \<Longrightarrow> kind \<in> set THETA_KINDS"
    and gen: "kind = GENERATE \<Longrightarrow> set ps \<subseteq> set (hs_parents s)"
  shows "books cur (ac_actor c) K (X - {h}) l' \<and> lg_new l' = lg_new l \<and> lg_live l' = lg_live l \<and> lg_store l' = lg_store l"
proof -
  from e obtain t where l': "l' = l\<lparr>lg_trans := lg_trans l @ [t], lg_ordinal := lg_ordinal l + 1\<rparr>"
    and t: "tn_hid t = h" "tn_kind t = kind" "tn_actor t = ac_actor c" "tn_parents t = ps" "tn_causes t = causes" "tn_to t = to"
    by (rule call_emit_Inr)
  have "books cur (ac_actor c) K (X - {h}) l'"
  proof (rule booksI)
    show "entry_ok cur K (X - {h}) (lg_trans l') (ac_actor c) k s'" if "map_of (lg_new l') k = Some s'" for k s'
    proof -
      have "map_of (lg_new l) k = Some s'" using that by (simp add: l')
      from booksD(4) [OF b this] have e: "entry_ok cur K X (lg_trans l) (ac_actor c) k s'" .
      have "\<exists>t' \<in> set (lg_trans l'). tn_hid t' = k \<and> tn_to t' = hs_revision s'" if "k \<notin> X - {h}"
      proof (cases "k = h")
        case True
        then have "s' = s" using s \<open>map_of (lg_new l) k = Some s'\<close> by simp
        then show ?thesis using t to True by (simp add: l')
      next
        case False
        then have "k \<notin> X" using that by simp
        then show ?thesis using e by (auto simp: entry_ok_def l')
      qed
      then show ?thesis using e by (simp add: entry_ok_def)
    qed
    show "trans_ok (lg_new l') (ac_actor c) t'" if "t' \<in> set (lg_trans l')" for t'
    proof (cases "t' = t")
      case True then show ?thesis using t s cs th gen by (simp add: trans_ok_def l')
    next
      case False then show ?thesis using booksD(5) [OF b, of t'] that by (simp add: l')
    qed
  qed (use booksD(1,2,3) [OF b] in \<open>simp_all add: l'\<close>)
  then show ?thesis by (simp add: l')
qed

lemma books_child:
  assumes b: "books cur actor K X l" and fresh: "cid \<notin> K" "cid \<notin> dkeys cur"
    and st: "hs_id st = cid" "hs_revision st = 0" "hs_status st = H_Proposed"
    and l': "l' = l\<lparr>lg_new := dict_set cid st (lg_new l), lg_live := dict_set cid st (lg_live l)\<rparr>"
  shows "books cur actor (insert cid K) (insert cid X) l'"
proof (rule booksI)
  have new: "cid \<notin> dkeys (lg_new l)"
  proof
    assume "cid \<in> dkeys (lg_new l)"
    then obtain s where "map_of (lg_new l) cid = Some s" by (auto dest: dkeys_Some)
    from booksD(4) [OF b this] fresh show False by (auto simp: entry_ok_def dkeys_None split: option.splits dest: dkeysI)
  qed
  have none: "map_of cur cid = None" using fresh(2) by (simp add: dkeys_None)
  show "entry_ok cur (insert cid K) (insert cid X) (lg_trans l') actor k s" if "map_of (lg_new l') k = Some s" for k s
  proof (cases "k = cid")
    case True then show ?thesis using that st none by (auto simp: entry_ok_def l' ABSORBED_STATUSES_def)
  next
    case False
    then have "map_of (lg_new l) k = Some s" using that by (simp add: l')
    from entry_ok_mono [OF entry_ok_pending [OF booksD(4) [OF b this]]] show ?thesis by (simp add: l' subset_insertI)
  qed
  show "trans_ok (lg_new l') actor t" if "t \<in> set (lg_trans l')" for t
  proof -
    have t: "trans_ok (lg_new l) actor t" using booksD(5) [OF b] that by (simp add: l')
    then have "tn_hid t \<noteq> cid" using new by (auto simp: trans_ok_def dest: dkeysI)
    then show ?thesis using t by (simp add: trans_ok_def l')
  qed
qed (use booksD(1,2,3) [OF b] fresh in \<open>auto simp: l'\<close>)

section \<open>One request\<close>

definition children_of :: "hyp_request list \<Rightarrow> nat \<Rightarrow> nat" where
  "children_of rqs n = length (rq_children (rqs ! n))"

definition child_ids :: "apply_call \<Rightarrow> hyp_request list \<Rightarrow> nat \<Rightarrow> nat \<Rightarrow> string set" where
  "child_ids c rqs n k = {child_id c i j | i j. i < n \<and> j < children_of rqs i \<or> i = n \<and> j < k}"

text \<open>The hashed ids of the children a call asks for are distinct and not yet taken.\<close>

definition fresh_children :: "apply_call \<Rightarrow> (string, hyp_state) dict \<Rightarrow> hyp_request list \<Rightarrow> bool" where
  "fresh_children c cur rqs \<longleftrightarrow>
     (\<forall>i < length rqs. \<forall>j < children_of rqs i. child_id c i j \<notin> dkeys cur \<and>
        (\<forall>i' < length rqs. \<forall>j' < children_of rqs i'. child_id c i j = child_id c i' j' \<longrightarrow> i = i' \<and> j = j'))"

lemma child_ids_Suc: "child_ids c rqs n (Suc k) = insert (child_id c n k) (child_ids c rqs n k)"
  by (auto simp: child_ids_def less_Suc_eq)

lemma child_ids_mono: "k \<le> children_of rqs n \<Longrightarrow> child_ids c rqs n k \<subseteq> child_ids c rqs (Suc n) 0"
  by (force simp: child_ids_def less_Suc_eq)

lemma child_ids_start: "child_ids c rqs n 0 \<subseteq> child_ids c rqs n k"
  by (auto simp: child_ids_def)

lemma child_fresh:
  assumes "fresh_children c cur rqs" "n < length rqs" "k < children_of rqs n"
  shows "child_id c n k \<notin> child_ids c rqs n k" "child_id c n k \<notin> dkeys cur"
proof
  assume "child_id c n k \<in> child_ids c rqs n k"
  then obtain i j where ij: "child_id c n k = child_id c i j" "i < n \<and> j < children_of rqs i \<or> i = n \<and> j < k" by (auto simp: child_ids_def)
  then have "i < length rqs" "j < children_of rqs i" using assms(2,3) by auto
  then have "n = i \<and> k = j" using assms ij(1) unfolding fresh_children_def by blast
  then show False using ij(2) by auto
next
  show "child_id c n k \<notin> dkeys cur" using assms unfolding fresh_children_def by blast
qed

lemma books_new_keys: "books cur actor K X l \<Longrightarrow> dkeys (lg_live l) \<subseteq> dkeys cur \<union> K"
proof
  fix h assume b: "books cur actor K X l" and "h \<in> dkeys (lg_live l)"
  then have "h \<in> dkeys cur \<or> h \<in> dkeys (lg_new l)" using booksD(2) [OF b] by auto
  then show "h \<in> dkeys cur \<union> K"
  proof
    assume "h \<in> dkeys (lg_new l)"
    then obtain s where "map_of (lg_new l) h = Some s" by (auto dest: dkeys_Some)
    from booksD(4) [OF b this] show ?thesis by (auto simp: entry_ok_def split: option.splits dest: dkeysI)
  qed simp
qed

lemma newest_dict_set: "k \<noteq> h \<Longrightarrow> newest (l\<lparr>lg_new := dict_set k s (lg_new l)\<rparr>) h = newest l h"
  by (auto simp: newest_def split: option.splits)

lemma newest_put_other:
  "k \<noteq> h \<Longrightarrow> newest (l\<lparr>lg_new := dict_set k s (lg_new l), lg_live := dict_set k s (lg_live l)\<rparr>) h = newest l h"
  by (auto simp: newest_def split: option.splits)

lemma split_child_books:
  assumes r: "split_child c n prev hid causes reason k child l = (Inr u, l')"
    and b: "books cur (ac_actor c) (child_ids c rqs n k) {} l" and n: "newest l hid = Some p" "hid \<noteq> child_id c n k"
    and fr: "fresh_children c cur rqs" "n < length rqs" "k < children_of rqs n"
  shows "books cur (ac_actor c) (child_ids c rqs n (Suc k)) {} l' \<and> newest l' hid = Some p"
proof -
  let ?cid = "child_id c n k"
  obtain cs cf cc er where sc: "split_cited (At_Child n k) (allowed_refs (map (\<lambda>(i, v). (v, i)) (ac_allowed c))) (pr_supporting child) = (cs, cf, cc, er)"
    by (metis prod_cases4)
  from r obtain addrs l1 st l2 l3 where
      alloc: "(if cs \<noteq> [] then alloc_items cs else act_return (hs_support prev)) (l\<lparr>lg_errors := lg_errors l @ er\<rparr>) = (Inr addrs, l1)"
    and st: "\<exists>stm pri fld. ledger_state ?cid (ac_run c) child stm [hid] addrs pri fld (ac_recorded c) l1 = (Inr st, l2)"
    and l3: "l3 = l2\<lparr>lg_new := dict_set ?cid st (lg_new l2), lg_live := dict_set ?cid st (lg_live l2)\<rparr>"
    and em: "call_emit c ?cid GENERATE [hid] [] (causes @ [(''hypothesis'', hid)] @ cc) None 0 H_Proposed reason l3 = (Inr u, l')"
    unfolding split_child_def Let_def sc prod.case act_bind_Inr act_base_simps act_simps act_state_valid_Inr by blast
  have "same_books l l1" using alloc by (auto simp: same_books_def split: if_splits)
  moreover have sto: "same_books l1 l2" "hs_id st = ?cid" "hs_parents st = [hid]" "hs_revision st = 0" "hs_status st = H_Proposed"
    using st by (auto dest: ledger_state_Inr)
  ultimately have same: "same_books l l2" using same_books_trans by blast
  from books_child [OF books_same [OF b same] child_fresh [OF fr] sto(2,4,5) l3]
  have b3: "books cur (ac_actor c) (child_ids c rqs n (Suc k)) {?cid} l3" by (simp add: child_ids_Suc)
  have s3: "map_of (lg_new l3) ?cid = Some st" by (simp add: l3)
  have "books cur (ac_actor c) (child_ids c rqs n (Suc k)) ({?cid} - {?cid}) l' \<and> lg_new l' = lg_new l3 \<and> lg_live l' = lg_live l3 \<and> lg_store l' = lg_store l3"
    by (rule books_emit [OF b3 em s3]) (simp_all add: sto THETA_KINDS_def)
  moreover have "newest l3 hid = Some p"
    using newest_put_other [of ?cid hid st l2] n same_books_newest [OF same, of hid] by (auto simp: l3)
  ultimately show ?thesis using newest_cong [of l' l3 hid] by simp
qed

lemma apply_split_books:
  assumes r: "apply_split c n rq prev causes reason l = (Inr u, l')"
    and b: "books cur (ac_actor c) (child_ids c rqs n 0) {} l" and p: "newest l (rq_hid rq) = Some prev" "hs_status prev \<notin> set ABSORBED_STATUSES"
    and cs: "causes \<noteq> []" and fr: "fresh_children c cur rqs" "n < length rqs" "rq = rqs ! n"
    and ids: "\<And>k s. map_of cur k = Some s \<Longrightarrow> hs_id s = k"
  shows "books cur (ac_actor c) (child_ids c rqs (Suc n) 0) {} l'"
proof -
  let ?hid = "rq_hid rq" and ?ch = "rq_children rq"
  have hl: "?hid \<in> dkeys (lg_live l)" by (rule newest_in_live [OF b p(1)])
  consider (err) es where "l' = l\<lparr>lg_errors := es\<rparr>" | (ok) "\<not> ac_max c < int (length (lg_live l) + length ?ch)" "?ch \<noteq> []"
    using r by (auto simp: apply_split_def split: if_splits)
  then show ?thesis
  proof cases
    case err
    then show ?thesis using books_mono [OF books_same [OF b, of l'] child_ids_mono] by simp
  next
    case ok
    have len: "children_of rqs n = length ?ch" by (simp add: children_of_def fr(3))
    from r ok obtain l1 st l2 where ch: "act_each (split_child c n prev ?hid causes reason) 0 ?ch l = (Inr (), l1)"
      and bu: "bump_revision (ac_recorded c) ?hid (\<lambda>s. s\<lparr>hs_status := H_Split\<rparr>) l1 = (Inr st, l2)"
      and em: "call_emit c ?hid SPLIT (hs_parents prev) (map (child_id c n) [0 ..< length ?ch]) causes (Some (hs_revision prev)) (hs_revision st) H_Split reason l2 = (Inr u, l')"
      by (auto simp: apply_split_def act_bind_Inr)
    have hid: "?hid \<noteq> child_id c n k" if "k < children_of rqs n" for k
    proof
      assume eq: "?hid = child_id c n k"
      have "?hid \<in> dkeys cur \<union> child_ids c rqs n 0" using hl books_new_keys [OF b] by blast
      then show False using child_fresh [OF fr(1,2) that] child_ids_start [of c rqs n k] eq by auto
    qed
    let ?P = "\<lambda>k l. books cur (ac_actor c) (child_ids c rqs n k) {} l \<and> newest l ?hid = Some prev"
    have "?P (length ?ch) l1"
    proof (rule act_each_keeps [OF ch, of ?P])
      show "?P 0 l" using b p by simp
    next
      fix i la lb
      assume "?P i la" and i: "i < length ?ch" and st: "split_child c n prev ?hid causes reason i (?ch ! i) la = (Inr (), lb)"
      then have ba: "books cur (ac_actor c) (child_ids c rqs n i) {} la" "newest la ?hid = Some prev" by simp_all
      have i99: "i < children_of rqs n" using i len by simp
      show "?P (i + 1) lb" using split_child_books [OF st ba hid [OF i99] fr(1,2) i99] by simp
    qed
    then have b1: "books cur (ac_actor c) (child_ids c rqs n (length ?ch)) {} l1" and n1: "newest l1 ?hid = Some prev" by simp_all
    have "books cur (ac_actor c) (child_ids c rqs n (length ?ch)) {?hid} l2 \<and> map_of (lg_new l2) ?hid = Some st"
      by (rule books_bump [OF b1 bu n1 p(2) _ _ ids]) (simp_all add: grows_refl ABSORBED_STATUSES_def)
    then have b2: "books cur (ac_actor c) (child_ids c rqs n (length ?ch)) {?hid} l2" and s2: "map_of (lg_new l2) ?hid = Some st" by simp_all
    have "books cur (ac_actor c) (child_ids c rqs n (length ?ch)) ({?hid} - {?hid}) l' \<and> lg_new l' = lg_new l2 \<and> lg_live l' = lg_live l2 \<and> lg_store l' = lg_store l2"
      by (rule books_emit [OF b2 em s2]) (simp_all add: cs THETA_KINDS_def)
    then show ?thesis using books_mono [OF _ child_ids_mono] len by (metis (no_types, lifting) Diff_cancel order_refl)
  qed
qed

lemma merge_into_status [simp]: "hs_status (merge_into store tgt prev hid fa s) = hs_status s"
  by (simp add: merge_into_def)

lemma bump_books_eqs:
  assumes "bump_revision rec h f l = (Inr st, l')" "newest l h = Some b"
  shows "lg_live l' = lg_live l" "lg_store l' = lg_store l" "hs_status st = hs_status (f b)" "k \<noteq> h \<Longrightarrow> newest l' k = newest l k"
proof -
  from assms have l': "l' = l\<lparr>lg_new := dict_set h st (lg_new l)\<rparr>"
    and st: "st = (f b)\<lparr>hs_revision := hs_revision b + (if h \<in> dkeys (lg_new l) then 0 else 1), hs_updated := rec\<rparr>"
    by (auto elim: bump_Inr)
  show "lg_live l' = lg_live l" "lg_store l' = lg_store l" by (simp_all add: l')
  show "hs_status st = hs_status (f b)" by (simp add: st)
  show "k \<noteq> h \<Longrightarrow> newest l' k = newest l k" using newest_dict_set [of h k st l] by (simp add: l')
qed

text \<open>Writing the status of the target once more, after its transition is recorded.\<close>

lemma books_set_status:
  assumes b: "books cur actor K X l" and s: "map_of (lg_new l) h = Some s"
    and st: "x \<notin> set ABSORBED_STATUSES"
    and l': "l' = l\<lparr>lg_new := dict_set h (s\<lparr>hs_status := x\<rparr>) (lg_new l)\<rparr>"
  shows "books cur actor K X l'"
proof (rule booksI)
  have hn: "h \<in> dkeys (lg_new l)" using s by (rule dkeysI)
  show "distinct (map fst (lg_new l'))" using booksD(1) [OF b] by (simp add: l')
  show "dkeys (lg_live l') = dkeys cur \<union> dkeys (lg_new l')" using booksD(2) [OF b] hn by (auto simp: l')
  show "map_of (lg_live l') k = map_of cur k" if "k \<in> dkeys cur" for k using booksD(3) [OF b that] by (simp add: l')
  show "entry_ok cur K X (lg_trans l') actor k s'" if "map_of (lg_new l') k = Some s'" for k s'
  proof (cases "k = h")
    case True
    then have "s' = s\<lparr>hs_status := x\<rparr>" using that by (simp add: l')
    then show ?thesis using booksD(4) [OF b s] st True by (auto simp: entry_ok_def l' split: option.splits)
  next
    case False
    then have "map_of (lg_new l) k = Some s'" using that by (simp add: l')
    from booksD(4) [OF b this] show ?thesis by (simp add: l')
  qed
  show "trans_ok (lg_new l') actor t" if "t \<in> set (lg_trans l')" for t
    using booksD(5) [OF b, of t] that s by (auto simp: trans_ok_def l')
qed

lemma apply_merge_books:
  assumes r: "apply_merge c n rq prev causes reason fa l = (Inr u, l')"
    and b: "books cur (ac_actor c) K {} l" and p: "newest l (rq_hid rq) = Some prev" "hs_status prev \<notin> set ABSORBED_STATUSES"
    and cs: "causes \<noteq> []" and th: "ac_actor c \<noteq> Theta"
    and ids: "\<And>k s. map_of cur k = Some s \<Longrightarrow> hs_id s = k"
  shows "books cur (ac_actor c) K {} l'"
proof -
  let ?hid = "rq_hid rq" and ?into = "rq_into rq"
  consider (err) es where "l' = l\<lparr>lg_errors := es\<rparr>"
    | (ok) tgt where "newest l ?into = Some tgt" "?into \<noteq> ?hid" "hs_status tgt \<notin> set ABSORBED_STATUSES" "map_of (lg_live l) ?into \<noteq> None"
    using r by (auto simp: apply_merge_def Let_def split: if_splits option.splits)
  then show ?thesis
  proof cases
    case err then show ?thesis using books_same [OF b, of l'] by simp
  next
    case ok
    from r ok obtain t2 l1 l2 l3 st l4 where
        b1: "bump_revision (ac_recorded c) ?into (merge_into (lg_store l) tgt prev ?hid fa) l = (Inr t2, l1)"
      and e1: "call_emit c ?into REVISE (hs_parents t2) [] (causes @ [(''hypothesis'', ?hid)]) (Some (hs_revision tgt)) (hs_revision t2)
                       (revised_status (hs_status t2)) ''MERGED_IN'' l1 = (Inr (), l2)"
      and l3: "l3 = l2\<lparr>lg_new := dict_set ?into (t2\<lparr>hs_status := revised_status (hs_status t2)\<rparr>) (lg_new l2)\<rparr>"
      and b2: "bump_revision (ac_recorded c) ?hid (\<lambda>s. s\<lparr>hs_status := H_Merged\<rparr>) l3 = (Inr st, l4)"
      and e2: "call_emit c ?hid MERGE (hs_parents prev) [?into] causes (Some (hs_revision prev)) (hs_revision st) H_Merged reason l4 = (Inr u, l')"
      by (auto simp: apply_merge_def Let_def act_bind_Inr)
    have "books cur (ac_actor c) K {?into} l1 \<and> map_of (lg_new l1) ?into = Some t2"
      by (rule books_bump [OF b b1 ok(1,3) merge_into_grows _ ids]) (simp_all add: th)
    then have k1: "books cur (ac_actor c) K {?into} l1" "map_of (lg_new l1) ?into = Some t2" by simp_all
    have k2: "books cur (ac_actor c) K ({?into} - {?into}) l2 \<and> lg_new l2 = lg_new l1 \<and> lg_live l2 = lg_live l1 \<and> lg_store l2 = lg_store l1"
      by (rule books_emit [OF k1(1) e1 k1(2)]) (simp_all add: th)
    then have k2': "books cur (ac_actor c) K {} l2" "map_of (lg_new l2) ?into = Some t2" using k1(2) by simp_all
    have "revised_status (hs_status t2) \<notin> set ABSORBED_STATUSES"
      using bump_books_eqs(3) [OF b1 ok(1)] ok(3) by (auto simp: revised_status_def ABSORBED_STATUSES_def)
    from books_set_status [OF k2' this l3] have k3: "books cur (ac_actor c) K {} l3" .
    have "newest l1 ?hid = Some prev" using bump_books_eqs(4) [OF b1 ok(1), of ?hid] ok(2) p(1) by simp
    then have "newest l2 ?hid = Some prev" using k2 newest_cong [of l2 l1 ?hid] by simp
    then have n3: "newest l3 ?hid = Some prev" using newest_dict_set [OF ok(2)] by (simp add: l3)
    have "books cur (ac_actor c) K {?hid} l4 \<and> map_of (lg_new l4) ?hid = Some st"
      by (rule books_bump [OF k3 b2 n3 p(2) _ _ ids]) (simp_all add: grows_refl th)
    then have k4: "books cur (ac_actor c) K {?hid} l4" "map_of (lg_new l4) ?hid = Some st" by simp_all
    have "books cur (ac_actor c) K ({?hid} - {?hid}) l' \<and> lg_new l' = lg_new l4 \<and> lg_live l' = lg_live l4 \<and> lg_store l' = lg_store l4"
      by (rule books_emit [OF k4(1) e2 k4(2)]) (simp_all add: cs th)
    then show ?thesis by simp
  qed
qed

lemma plain_status: "hs_status (plain_change rq kind prev contra fa s) = RESULTING_STATUS kind"
  by (simp add: plain_change_def)

lemma apply_plain_books:
  assumes r: "apply_plain c n rq kind prev causes reason fa l = (Inr u, l')"
    and b: "books cur (ac_actor c) K {} l" and p: "newest l (rq_hid rq) = Some prev" "hs_status prev \<notin> set ABSORBED_STATUSES"
    and cs: "causes \<noteq> []" and th: "ac_actor c = Theta \<Longrightarrow> kind \<in> set THETA_KINDS" and gk: "kind \<noteq> GENERATE"
    and ids: "\<And>k s. map_of cur k = Some s \<Longrightarrow> hs_id s = k"
  shows "books cur (ac_actor c) K {} l'"
proof -
  let ?hid = "rq_hid rq" and ?contra = "cited_contradictions ''contradicting evidence admitted'' (rq_contradictions rq)"
  show ?thesis
  proof (cases "kind = CONTRADICT \<and> ?contra = []")
    case True
    then have "l' = l\<lparr>lg_errors := lg_errors l @ [No_Contradiction n]\<rparr>" using r by (simp add: apply_plain_def)
    then show ?thesis using books_same [OF b, of l'] by simp
  next
    case False
    with r obtain st l1 where
        bu: "bump_revision (ac_recorded c) ?hid (plain_change rq kind prev ?contra fa) l = (Inr st, l1)"
      and em: "call_emit c ?hid kind (hs_parents st) [] causes (Some (hs_revision prev)) (hs_revision st) (hs_status st) reason l1 = (Inr u, l')"
      by (auto simp: apply_plain_def Let_def act_bind_Inr)
    have "RESULTING_STATUS kind \<notin> set ABSORBED_STATUSES" if "ac_actor c = Theta"
      using th [OF that] by (auto simp: THETA_KINDS_def ABSORBED_STATUSES_def)
    then have "books cur (ac_actor c) K {?hid} l1 \<and> map_of (lg_new l1) ?hid = Some st"
      by (intro books_bump [OF b bu p plain_change_grows _ ids]) (simp_all add: plain_status)
    then have k: "books cur (ac_actor c) K {?hid} l1" "map_of (lg_new l1) ?hid = Some st" by simp_all
    have "books cur (ac_actor c) K ({?hid} - {?hid}) l' \<and> lg_new l' = lg_new l1 \<and> lg_live l' = lg_live l1 \<and> lg_store l' = lg_store l1"
      by (rule books_emit [OF k(1) em k(2)]) (simp_all add: cs th gk)
    then show ?thesis by simp
  qed
qed

text \<open>Every way through a request: an error is noted, or the kind's own operation runs under the guards.\<close>

lemma apply_request_cases:
  assumes "apply_request c n rq l = (Inr u, l')"
  obtains (error) es where "l' = l\<lparr>lg_errors := es\<rparr>"
  | (run) kind prev causes fa reason es where "map_of TRANSITION_KINDS (rq_kind rq) = Some kind" "kind \<noteq> GENERATE"
      "newest l (rq_hid rq) = Some prev" "hs_status prev \<notin> set ABSORBED_STATUSES" "ac_actor c = Theta \<Longrightarrow> kind \<in> set THETA_KINDS" "causes \<noteq> []"
      "(if kind = SPLIT then apply_split c n rq prev causes reason
        else if kind = MERGE then apply_merge c n rq prev causes reason fa
        else apply_plain c n rq kind prev causes reason fa) (l\<lparr>lg_errors := es\<rparr>) = (Inr u, l')"
proof (cases "map_of TRANSITION_KINDS (rq_kind rq)")
  case None then show ?thesis using assms by (intro error) (simp add: apply_request_def Let_def)
next
  case (Some kind)
  show ?thesis
  proof (cases "kind = GENERATE \<or> map_of (lg_live l) (rq_hid rq) = None \<or> newest l (rq_hid rq) = None")
    case True
    then show ?thesis using assms Some
      by (intro error [of "lg_errors l @ (if kind = GENERATE then [Bad_Kind n (rq_kind rq)] else [Unknown_Hypothesis n (rq_hid rq)])"])
        (auto simp: apply_request_def Let_def split: option.splits)
  next
    case False
    then obtain old prev where live: "map_of (lg_live l) (rq_hid rq) = Some old" "newest l (rq_hid rq) = Some prev" by auto
    obtain causes cer fa fer where chk: "check_causes n (ac_allowed c) (rq_causes rq) = (causes, cer)" "check_field n (ac_allowed c) (rq_field rq) = (fa, fer)"
      by (metis surj_pair)
    note body = assms [unfolded apply_request_def Let_def Some option.case live chk prod.case]
    show ?thesis
    proof (cases "hs_status prev \<in> set ABSORBED_STATUSES \<or> (ac_actor c = Theta \<and> kind \<notin> set THETA_KINDS) \<or> ac_actor c \<notin> {Theta, Phi, Runtime} \<or> causes = []")
      case True
      then show ?thesis using body False by (auto intro: error split: if_splits)
    next
      case guards: False
      show ?thesis
        by (rule run [OF Some _ live(2) _ _ _]) (use body False guards in \<open>auto simp: act_bind_Inr split: if_splits\<close>)
    qed
  qed
qed

lemma newest_errors [simp]: "newest (l\<lparr>lg_errors := es\<rparr>) h = newest l h"
  by (rule newest_cong) simp_all

lemma apply_request_books:
  assumes r: "apply_request c n rq l = (Inr u, l')" and b: "books cur (ac_actor c) (child_ids c rqs n 0) {} l"
    and fr: "fresh_children c cur rqs" "n < length rqs" "rq = rqs ! n"
    and ids: "\<And>k s. map_of cur k = Some s \<Longrightarrow> hs_id s = k"
  shows "books cur (ac_actor c) (child_ids c rqs (Suc n) 0) {} l'"
  using r
proof (cases rule: apply_request_cases)
  case (error es)
  then show ?thesis using books_mono [OF books_same [OF b, of l'] child_ids_mono] by simp
next
  case (run kind prev causes fa reason es)
  let ?l = "l\<lparr>lg_errors := es\<rparr>"
  have b': "books cur (ac_actor c) (child_ids c rqs n 0) {} ?l" by (rule books_same [OF b]) simp
  have n': "newest ?l (rq_hid rq) = Some prev" using run(3) by simp
  show ?thesis
  proof (cases "kind = SPLIT")
    case True
    then show ?thesis using apply_split_books [OF _ b' n' run(4,6) fr ids] run(7) by simp
  next
    case nosplit: False
    have "books cur (ac_actor c) (child_ids c rqs n 0) {} l'"
    proof (cases "kind = MERGE")
      case True
      then have "ac_actor c \<noteq> Theta" using run(5) by (auto simp: THETA_KINDS_def)
      then show ?thesis using apply_merge_books [OF _ b' n' run(4,6) _ ids] run(7) True by simp
    next
      case False
      then show ?thesis using apply_plain_books [OF _ b' n' run(4,6,5,2) ids] run(7) nosplit by simp
    qed
    then show ?thesis using books_mono child_ids_mono by blast
  qed
qed

section \<open>A whole call\<close>

definition keyed :: "(string, hyp_state) dict \<Rightarrow> bool" where
  "keyed cur = list_all (\<lambda>(h, s). hs_id s = h) cur"

lemma keyed_id: "keyed cur \<Longrightarrow> map_of cur k = Some s \<Longrightarrow> hs_id s = k"
  by (auto simp: keyed_def list_all_iff dest: map_of_SomeD)

lemma apply_books:
  assumes r: "apply_requests c store cur rqs = (Inr (states, trs), l)" and fr: "fresh_children c cur rqs" and kd: "keyed cur"
  shows "books cur (ac_actor c) (child_ids c rqs (length rqs) 0) {} l" "states = map snd (lg_new l)" "trs = lg_trans l"
proof -
  from r obtain l1 where e: "act_each (apply_request c) 0 rqs (ledger_init store cur) = (Inr (), l1)"
    and l: "ledger_result l1 = (Inr (states, trs), l)"
    by (auto simp: apply_requests_def act_bind_Inr)
  have "books cur (ac_actor c) (child_ids c rqs (length rqs) 0) {} l1"
  proof (rule act_each_keeps [OF e, of "\<lambda>n. books cur (ac_actor c) (child_ids c rqs n 0) {}"])
    show "books cur (ac_actor c) (child_ids c rqs 0 0) {} (ledger_init store cur)"
      by (rule booksI) (simp_all add: ledger_init_def dkeys_def)
  next
    fix i l l'
    assume b: "books cur (ac_actor c) (child_ids c rqs i 0) {} l" and "i < length rqs" and "apply_request c i (rqs ! i) l = (Inr (), l')"
    then show "books cur (ac_actor c) (child_ids c rqs (i + 1) 0) {} l'"
      using apply_request_books [OF _ b fr _ refl keyed_id [OF kd]] by simp
  qed
  then show "books cur (ac_actor c) (child_ids c rqs (length rqs) 0) {} l" "states = map snd (lg_new l)" "trs = lg_trans l"
    using l by (auto simp: ledger_result_def split: if_splits)
qed

lemma books_state:
  assumes b: "books cur actor K {} l" and s: "s \<in> snd ` set (lg_new l)"
  shows "entry_ok cur K {} (lg_trans l) actor (hs_id s) s" "map_of (lg_new l) (hs_id s) = Some s"
proof -
  from s obtain h where "(h, s) \<in> set (lg_new l)" by auto
  then have m: "map_of (lg_new l) h = Some s" by (rule map_of_is_SomeI [OF booksD(1) [OF b]])
  from booksD(4) [OF b this] have e: "entry_ok cur K {} (lg_trans l) actor h s" .
  then have "hs_id s = h" by (simp add: entry_ok_def)
  then show "entry_ok cur K {} (lg_trans l) actor (hs_id s) s" "map_of (lg_new l) (hs_id s) = Some s" using e m by simp_all
qed

lemma lineage_intactI:
  assumes "\<And>t. t \<in> set trs \<Longrightarrow> tn_causes t \<noteq> []"
    and "\<And>s. s \<in> set states \<Longrightarrow> \<exists>t \<in> set trs. tn_hid t = hs_id s \<and> tn_to t = hs_revision s"
    and "\<And>s t. s \<in> set states \<Longrightarrow> t \<in> set trs \<Longrightarrow> tn_hid t = hs_id s \<Longrightarrow> tn_kind t = GENERATE \<Longrightarrow> set (tn_parents t) \<subseteq> set (hs_parents s)"
  shows "lineage_intact states trs = []"
proof -
  have "filter (\<lambda>t. tn_causes t = []) trs = []" using assms(1) by (auto simp: filter_empty_conv)
  moreover have "hs_revision s \<in> tn_to ` set (filter (\<lambda>t. tn_hid t = hs_id s) trs)" if "s \<in> set states" for s
    using assms(2) [OF that] by force
  moreover have "filter (\<lambda>p. p \<notin> set (hs_parents s) \<and> tn_kind t = GENERATE) (tn_parents t) = []"
    if "s \<in> set states" "t \<in> set (filter (\<lambda>t. tn_hid t = hs_id s) trs)" for s t
    using assms(3) [OF that(1), of t] that(2) by (auto simp: filter_empty_conv)
  ultimately show ?thesis by (simp add: lineage_intact_def Let_def)
qed



text \<open>
  Theta only generates, revises and splits: when the agent is the actor, a call of \<open>apply\<close> that
  returns records no other kind of transition, and leaves no hypothesis killed or merged.
\<close>

theorem theta_applies_no_pressure:
  assumes "apply_requests c store cur rqs = (Inr (states, trs), l)" "fresh_children c cur rqs" "keyed cur" "ac_actor c = Theta"
  shows "(\<forall>t \<in> set trs. tn_actor t = Theta \<and> tn_kind t \<in> {GENERATE, REVISE, SPLIT})
    \<and> (\<forall>s \<in> set states. hs_status s \<notin> {H_Killed, H_Merged})"
proof (intro conjI ballI)
  note b = apply_books [OF assms(1-3)]
  show "tn_actor t = Theta" "tn_kind t \<in> {GENERATE, REVISE, SPLIT}" if "t \<in> set trs" for t
    using booksD(5) [OF b(1), of t] that b(3) assms(4) by (auto simp: trans_ok_def THETA_KINDS_def)
  show "hs_status s \<notin> {H_Killed, H_Merged}" if "s \<in> set states" for s
    using books_state(1) [OF b(1), of s] that b(2) assms(4) by (auto simp: entry_ok_def ABSORBED_STATUSES_def)
qed

section \<open>What a call may write in the store\<close>

text \<open>The store still starts with the items \<open>st\<close>, whether the operation returns or raises.\<close>

abbreviation items_kept :: "support list \<Rightarrow> ledger \<Rightarrow> bool" where
  "items_kept st l \<equiv> take (length st) (lg_store l) = st"

abbreviation keeps :: "support list \<Rightarrow> 'a lact \<Rightarrow> bool" where
  "keeps st m \<equiv> keeps_state (items_kept st) m (\<lambda>_. True)"

lemma items_kept_length: "items_kept st l \<Longrightarrow> length st \<le> length (lg_store l)"
  by (metis length_take min.cobounded1)

lemma keeps_basic:
  "keeps st (act_return x)" "keeps_state (items_kept st) (act_raise e) Q" "keeps st (act_errors es)" "keeps st act_ordinal"
  "(\<And>l. lg_store (g l) = lg_store l) \<Longrightarrow> keeps st (act_modify g)"
  by (auto simp: keeps_state_def)

lemma keeps_valid: "keeps st (act_valid name vs)"
  by (simp add: act_valid_def keeps_basic)

lemma keeps_state_valid: "keeps st (act_state_valid env s)"
  by (rule keeps_state_pointwise) (auto simp: act_state_valid_def intro: keeps_valid)

lemma keeps_alloc: "keeps_state (items_kept st) (alloc_items items) (\<lambda>as. \<forall>a \<in> set as. length st \<le> a)"
  by (auto simp: keeps_state_def dest: items_kept_length)

lemma keeps_write_roles: "\<forall>a \<in> set as. length st \<le> a \<Longrightarrow> keeps st (write_roles roles as)"
proof -
  have "items_kept st l'" if "write_roles roles as l = (r, l')" "\<forall>a \<in> set as. length st \<le> a" "items_kept st l" for l r l'
    using that
  proof (induction roles as l rule: write_roles.induct)
    case (2 roles a as l)
    then show ?case by (cases "support_id (lg_store l ! a)"; cases "map_of roles (the (support_id (lg_store l ! a)))") auto
  qed simp
  then show "\<forall>a \<in> set as. length st \<le> a \<Longrightarrow> keeps st (write_roles roles as)" by (auto simp: keeps_state_def)
qed

lemma write_no_roles: "keeps st (write_roles [] as)"
proof -
  have "lg_store l' = lg_store l" if "write_roles rs as l = (r, l')" "rs = []" for rs l r l'
    using that by (induction rs as l rule: write_roles.induct) (auto split: option.splits)
  then show ?thesis by (auto simp: keeps_state_def)
qed

lemma keeps_ledger_state:
  "pr_roles p = [] \<or> (\<forall>a \<in> set addrs. length st \<le> a) \<Longrightarrow> keeps st (ledger_state hid run_id p s ps addrs priors field rec)"
  unfolding ledger_state_def by (rule keeps_state_then) (auto simp: keeps_basic intro: keeps_write_roles write_no_roles)

lemma keeps_call_emit: "keeps st (call_emit c h kind ps ch causes fr to status reason)"
  unfolding call_emit_def emit_def make_transition_def Let_def
  by (intro keeps_state_then keeps_basic keeps_valid) simp_all

lemma keeps_bump: "keeps st (bump_revision rec h f)"
  by (auto simp: keeps_state_def bump_revision_def Let_def split: option.splits)

lemma keeps_each: "(\<And>n x. x \<in> set xs \<Longrightarrow> keeps st (f n x)) \<Longrightarrow> keeps st (act_each f n xs)"
  by (induction xs arbitrary: n) (auto simp: keeps_basic intro!: keeps_state_then)

definition cites_knowledge :: "apply_call \<Rightarrow> hyp_proposal \<Rightarrow> bool" where
  "cites_knowledge c child = list_ex (\<lambda>i. case map_of (allowed_refs (map (\<lambda>(i, v). (v, i)) (ac_allowed c))) i of
     None \<Rightarrow> False | Some k \<Rightarrow> k \<notin> set PRIOR_EVIDENCE_KINDS \<and> k \<in> set CITABLE_EVIDENCE_KINDS \<and> k \<noteq> ''field_evidence'') (pr_supporting child)"

lemma citable_has_field:
  "k \<in> set CITABLE_EVIDENCE_KINDS \<Longrightarrow> k \<noteq> ''field_evidence'' \<Longrightarrow> \<exists>f. map_of KNOWLEDGE_ID_FIELD k = Some f"
  by (auto simp: CITABLE_EVIDENCE_KINDS_def KNOWLEDGE_ID_FIELD_def)

lemma cites_knowledge_items:
  "cites_knowledge c child \<Longrightarrow>
   split_cited lb (allowed_refs (map (\<lambda>(i, v). (v, i)) (ac_allowed c))) (pr_supporting child) = (cs, cf, cc, er) \<Longrightarrow> cs \<noteq> []"
  unfolding cites_knowledge_def
proof (induction "pr_supporting child" arbitrary: child cs cf cc er)
  case Nil then show ?case by simp
next
  case (Cons i ids)
  let ?al = "allowed_refs (map (\<lambda>(i, v). (v, i)) (ac_allowed c))"
  obtain su fe ca er' where r: "split_cited lb ?al ids = (su, fe, ca, er')" by (metis prod_cases4)
  have IH: "list_ex (\<lambda>i. case map_of ?al i of
     None \<Rightarrow> False | Some k \<Rightarrow> k \<notin> set PRIOR_EVIDENCE_KINDS \<and> k \<in> set CITABLE_EVIDENCE_KINDS \<and> k \<noteq> ''field_evidence'') ids \<Longrightarrow> su \<noteq> []"
    using Cons.hyps(1) [of "child\<lparr>pr_supporting := ids\<rparr>" su fe ca er'] r by simp
  show ?case
  proof (cases "map_of ?al i")
    case None then show ?thesis using Cons.prems Cons.hyps(2) [symmetric] r IH by (auto split: prod.splits)
  next
    case (Some k)
    show ?thesis
    proof (cases "k \<notin> set PRIOR_EVIDENCE_KINDS \<and> k \<in> set CITABLE_EVIDENCE_KINDS \<and> k \<noteq> ''field_evidence''")
      case True
      then obtain f where "map_of KNOWLEDGE_ID_FIELD k = Some f" using citable_has_field by blast
      then show ?thesis using Cons.prems(2) Cons.hyps(2) [symmetric] r Some True by auto
    next
      case False
      then have "su \<noteq> []" using Cons.prems(1) Cons.hyps(2) [symmetric] Some IH by auto
      then show ?thesis using Cons.prems(2) Cons.hyps(2) [symmetric] r Some by (auto split: if_splits option.splits)
    qed
  qed
qed

lemma keeps_split_child:
  assumes "pr_roles child = [] \<or> cites_knowledge c child"
  shows "keeps st (split_child c n prev hid causes reason k child)"
proof -
  obtain cs cf cc er where sc: "split_cited (At_Child n k) (allowed_refs (map (\<lambda>(i, v). (v, i)) (ac_allowed c))) (pr_supporting child) = (cs, cf, cc, er)"
    by (metis prod_cases4)
  let ?Q = "\<lambda>as. pr_roles child = [] \<or> (\<forall>a \<in> set as. length st \<le> a)"
  have al: "keeps_state (items_kept st) (if cs \<noteq> [] then alloc_items cs else act_return (hs_support prev)) ?Q"
  proof (cases "cs = []")
    case True
    then have "pr_roles child = []" using assms cites_knowledge_items [OF _ sc] by blast
    then show ?thesis using True by (simp add: keeps_basic)
  next
    case False
    then show ?thesis using keeps_alloc [of st cs] by (auto simp: keeps_state_def)
  qed
  show ?thesis
    unfolding split_child_def Let_def sc prod.case
    by (rule keeps_state_then, rule keeps_basic, rule keeps_state_bind [OF al], rule keeps_state_then, erule keeps_ledger_state,
        rule keeps_state_then, rule keeps_state_valid, rule keeps_state_then, rule keeps_basic, simp, rule keeps_call_emit)
qed

lemma keeps_apply_split:
  assumes "\<And>ch. ch \<in> set (rq_children rq) \<Longrightarrow> pr_roles ch = [] \<or> cites_knowledge c ch"
  shows "keeps st (apply_split c n rq prev causes reason)"
proof (rule keeps_state_pointwise)
  fix l
  let ?run = "act_bind (act_each (split_child c n prev (rq_hid rq) causes reason) 0 (rq_children rq)) (\<lambda>_.
        act_bind (bump_revision (ac_recorded c) (rq_hid rq) (\<lambda>s. s\<lparr>hs_status := H_Split\<rparr>)) (\<lambda>st.
          call_emit c (rq_hid rq) SPLIT (hs_parents prev) (map (child_id c n) [0 ..< length (rq_children rq)]) causes
            (Some (hs_revision prev)) (hs_revision st) H_Split reason))"
  have "keeps st ?run"
    by (intro keeps_state_then keeps_each keeps_split_child keeps_bump keeps_call_emit assms)
  then show "\<exists>m'. keeps st m' \<and> apply_split c n rq prev causes reason l = m' l"
    unfolding apply_split_def by (auto intro: keeps_basic)
qed

lemma keeps_apply_merge: "keeps st (apply_merge c n rq prev causes reason fa)"
proof (rule keeps_state_pointwise)
  fix l
  show "\<exists>m'. keeps st m' \<and> apply_merge c n rq prev causes reason fa l = m' l"
  proof (cases "if map_of (lg_live l) (rq_into rq) = None then None else newest l (rq_into rq)")
    case None
    then show ?thesis unfolding apply_merge_def Let_def by (auto intro: keeps_basic)
  next
    case (Some tgt)
    show ?thesis
    proof (cases "rq_into rq = rq_hid rq \<or> hs_status tgt \<in> set ABSORBED_STATUSES")
      case True
      then show ?thesis unfolding apply_merge_def Let_def Some option.case by (auto intro: keeps_basic)
    next
      case False
      let ?run = "act_bind (bump_revision (ac_recorded c) (rq_into rq) (merge_into (lg_store l) tgt prev (rq_hid rq) fa)) (\<lambda>t2.
            act_bind (act_state_valid (ac_env c) t2) (\<lambda>_.
            act_bind (call_emit c (rq_into rq) REVISE (hs_parents t2) [] (causes @ [(''hypothesis'', rq_hid rq)]) (Some (hs_revision tgt)) (hs_revision t2)
                       (revised_status (hs_status t2)) ''MERGED_IN'') (\<lambda>_.
            act_bind (act_modify (\<lambda>l. l\<lparr>lg_new := dict_set (rq_into rq) (t2\<lparr>hs_status := revised_status (hs_status t2)\<rparr>) (lg_new l)\<rparr>)) (\<lambda>_.
            act_bind (bump_revision (ac_recorded c) (rq_hid rq) (\<lambda>s. s\<lparr>hs_status := H_Merged\<rparr>)) (\<lambda>st.
              call_emit c (rq_hid rq) MERGE (hs_parents prev) [rq_into rq] causes (Some (hs_revision prev)) (hs_revision st) H_Merged reason)))))"
      have "keeps st ?run"
        by (intro keeps_state_then keeps_bump keeps_state_valid keeps_call_emit keeps_basic) simp
      moreover have "apply_merge c n rq prev causes reason fa l = ?run l"
        unfolding apply_merge_def Let_def Some option.case if_not_P [OF False] ..
      ultimately show ?thesis by blast
    qed
  qed
qed

lemma keeps_apply_plain: "keeps st (apply_plain c n rq kind prev causes reason fa)"
  unfolding apply_plain_def Let_def
  by (cases "kind = CONTRADICT \<and> cited_contradictions ''contradicting evidence admitted'' (rq_contradictions rq) = []")
    (auto intro!: keeps_basic keeps_state_then keeps_bump keeps_state_valid keeps_call_emit)

lemma keeps_apply_request:
  assumes "\<And>ch. ch \<in> set (rq_children rq) \<Longrightarrow> pr_roles ch = [] \<or> cites_knowledge c ch"
  shows "keeps st (apply_request c n rq)"
proof (rule keeps_state_pointwise)
  fix l
  have run: "keeps st (act_bind (act_errors es) (\<lambda>_. if kind = SPLIT then apply_split c n rq prev causes reason
      else if kind = MERGE then apply_merge c n rq prev causes reason fa else apply_plain c n rq kind prev causes reason fa))" for es kind prev causes reason fa
    by (rule keeps_state_then) (simp_all add: keeps_basic keeps_apply_split keeps_apply_merge keeps_apply_plain assms)
  show "\<exists>m'. keeps st m' \<and> apply_request c n rq l = m' l"
    unfolding apply_request_def Let_def
    by (cases "map_of TRANSITION_KINDS (rq_kind rq)"; cases "map_of (lg_live l) (rq_hid rq)"; cases "newest l (rq_hid rq)";
        cases "check_causes n (ac_allowed c) (rq_causes rq)"; cases "check_field n (ac_allowed c) (rq_field rq)")
      (auto intro: keeps_basic run)
qed

text \<open>
  A call changes no knowledge item it did not create, whether it returns, rejects or raises,
  as long as every split child that declares support roles cites knowledge of its own.
\<close>

theorem apply_leaves_parent_evidence:
  assumes "\<forall>rq \<in> set rqs. \<forall>ch \<in> set (rq_children rq). pr_roles ch = [] \<or> cites_knowledge c ch"
  shows "take (length store) (lg_store (snd (apply_requests c store cur rqs))) = store"
proof -
  have "keeps store (act_bind (act_each (apply_request c) 0 rqs) (\<lambda>_. ledger_result))"
  proof (rule keeps_state_then)
    show "keeps store (act_each (apply_request c) 0 rqs)"
      by (rule keeps_each, rule keeps_apply_request) (use assms in blast)
    show "keeps store ledger_result" by (auto simp: keeps_state_def ledger_result_def)
  qed
  from keeps_stateD [OF this] show ?thesis by (simp add: apply_requests_def ledger_init_def)
qed

section \<open>Generated hypotheses rest on evidence of the step\<close>

lemma allowed_refs_in: "map_of (allowed_refs refs) i = Some k \<Longrightarrow> (k, i) \<in> set refs"
proof -
  have "(k, i) \<in> set rs \<or> map_of d i = Some k" if "map_of (fold (\<lambda>(k, i). dict_set i k) rs d) i = Some k" for rs and d :: "(string, string) dict"
    using that
  proof (induction rs arbitrary: d)
    case (Cons r rs)
    obtain k' i' where r: "r = (k', i')" by fastforce
    then have "map_of (fold (\<lambda>(k, i). dict_set i k) rs (dict_set i' k' d)) i = Some k" using Cons.prems by simp
    from Cons.IH [OF this] show ?case by (auto simp: r split: if_splits)
  qed simp
  from this [of refs "[]"] show "map_of (allowed_refs refs) i = Some k \<Longrightarrow> (k, i) \<in> set refs" by (simp add: allowed_refs_def)
qed

lemma support_id_item: "support_id (knowledge_item f i) = (if i = [] then None else Some i)"
  by (cases f) (simp_all add: support_id_def knowledge_item_def Let_def List.map_filter_simps)

lemma support_id_role [simp]: "support_id (s\<lparr>su_role := r\<rparr>) = support_id s"
  by (simp add: support_id_def)

lemma write_roles_ids:
  "write_roles roles as l = (Inr u, l') \<Longrightarrow> length (lg_store l') = length (lg_store l)
     \<and> (\<forall>a < length (lg_store l). support_id (lg_store l' ! a) = support_id (lg_store l ! a))
     \<and> (\<forall>a \<in> set as. support_id (lg_store l ! a) \<noteq> None)"
proof (induction roles as l rule: write_roles.induct)
  case (2 roles a as l)
  obtain rid where rid: "support_id (lg_store l ! a) = Some rid" using 2(2) by (cases "support_id (lg_store l ! a)") auto
  have upd: "support_id ((lg_store l)[a := (lg_store l ! a)\<lparr>su_role := r\<rparr>] ! b) = support_id (lg_store l ! b)" for b r
    by (cases "a < length (lg_store l)"; cases "b = a") (auto simp: list_update_beyond)
  show ?case
  proof (cases "map_of roles rid")
    case None then show ?thesis using 2(1) [OF rid] 2(2) rid by auto
  next
    case (Some r) then show ?thesis using 2(1) [OF rid] 2(2) rid upd by auto
  qed
qed simp

definition grounded :: "cause list \<Rightarrow> string option \<Rightarrow> bool" where
  "grounded refs i \<longleftrightarrow> (\<exists>(k, j) \<in> set refs. i = Some j \<and> k \<in> set CITABLE_EVIDENCE_KINDS)"

lemma split_cited_grounded:
  "split_cited lb (allowed_refs refs) ids = (su, fe, ca, er) \<Longrightarrow>
     (\<forall>it \<in> set su. support_id it \<noteq> None \<longrightarrow> grounded refs (support_id it))
     \<and> (\<forall>(k, i) \<in> set ca. (k, i) \<in> set refs \<and> k \<in> set CITABLE_EVIDENCE_KINDS \<and> k \<notin> set PRIOR_EVIDENCE_KINDS)"
proof (induction ids arbitrary: su fe ca er)
  case (Cons i ids)
  obtain su' fe' ca' er' where r: "split_cited lb (allowed_refs refs) ids = (su', fe', ca', er')" by (metis prod_cases4)
  note IH = Cons.IH [OF r]
  show ?case
  proof (cases "map_of (allowed_refs refs) i")
    case None then show ?thesis using Cons.prems r IH by simp
  next
    case (Some k)
    note kin = allowed_refs_in [OF Some]
    show ?thesis
    proof (cases "k \<in> set PRIOR_EVIDENCE_KINDS \<or> k \<notin> set CITABLE_EVIDENCE_KINDS")
      case True then show ?thesis using Cons.prems r IH Some by (auto split: if_splits)
    next
      case False
      show ?thesis
      proof (cases "k = ''field_evidence''")
        case True
        have "su = su'" "ca = (k, i) # ca'" using Cons.prems r Some False True by auto
        then show ?thesis using IH kin False by simp
      next
        case nf: False
        then obtain f where f: "map_of KNOWLEDGE_ID_FIELD k = Some f" using citable_has_field False by blast
        have "su = knowledge_item f i # su'" "ca = (k, i) # ca'" using Cons.prems r Some False nf f by auto
        then show ?thesis using IH kin False by (auto simp: support_id_item grounded_def)
      qed
    qed
  qed
qed simp

definition gen_state_ok :: "cause list \<Rightarrow> string list \<Rightarrow> ledger \<Rightarrow> string \<Rightarrow> hyp_state \<Rightarrow> bool" where
  "gen_state_ok refs parents l h s \<longleftrightarrow> hs_id s = h \<and> hs_revision s = 0 \<and> hs_parents s = parents
     \<and> (\<exists>t \<in> set (lg_trans l). tn_hid t = h \<and> tn_to t = 0)
     \<and> (\<forall>a \<in> set (hs_support s). a < length (lg_store l) \<and> grounded refs (support_id (lg_store l ! a)))"

definition gen_trans_ok :: "cause list \<Rightarrow> string list \<Rightarrow> hyp_transition \<Rightarrow> bool" where
  "gen_trans_ok refs parents t \<longleftrightarrow> tn_parents t = parents \<and> tn_kind t = GENERATE
     \<and> (\<exists>(k, i) \<in> set (tn_causes t). (k, i) \<in> set refs \<and> k \<in> set CITABLE_EVIDENCE_KINDS)"

definition gen_ok :: "cause list \<Rightarrow> string list \<Rightarrow> nat \<Rightarrow> ledger \<Rightarrow> bool" where
  "gen_ok refs parents n l \<longleftrightarrow> (lg_errors l = [] \<longrightarrow> length (lg_new l) = n)
     \<and> (\<forall>(h, s) \<in> set (lg_new l). gen_state_ok refs parents l h s) \<and> (\<forall>t \<in> set (lg_trans l). gen_trans_ok refs parents t)"

lemma gen_ok_error: "gen_ok refs ps n l \<Longrightarrow> es \<noteq> [] \<Longrightarrow> gen_ok refs ps m (l\<lparr>lg_errors := lg_errors l @ es\<rparr>)"
  by (simp add: gen_ok_def gen_state_ok_def)

lemma gen_ok_errors: "gen_ok refs ps n l \<Longrightarrow> gen_ok refs ps n (l\<lparr>lg_errors := lg_errors l @ es\<rparr>)"
  by (simp add: gen_ok_def gen_state_ok_def)

lemma gen_ok_store:
  assumes "gen_ok refs ps n l" "lg_new l' = lg_new l" "lg_trans l' = lg_trans l" "lg_errors l' = lg_errors l" "length (lg_store l) \<le> length (lg_store l')"
    and "\<And>a. a < length (lg_store l) \<Longrightarrow> support_id (lg_store l' ! a) = support_id (lg_store l ! a)"
  shows "gen_ok refs ps n l'"
  using assms unfolding gen_ok_def gen_state_ok_def by fastforce

lemma gen_ok_add:
  assumes "gen_ok refs ps n l" "gen_trans_ok refs ps t" "tn_hid t = h" "tn_to t = 0" "hs_id st = h" "hs_revision st = 0" "hs_parents st = ps"
    and "\<And>a. a \<in> set (hs_support st) \<Longrightarrow> a < length (lg_store l) \<and> grounded refs (support_id (lg_store l ! a))"
  shows "gen_ok refs ps (n + 1) (l\<lparr>lg_new := lg_new l @ [(h, st)], lg_trans := lg_trans l @ [t]\<rparr>)"
  using assms unfolding gen_ok_def gen_state_ok_def by fastforce

lemma ledger_state_errors: "ledger_state hid run_id p s ps addrs priors field rec l = (Inr st, l') \<Longrightarrow> lg_errors l' = lg_errors l"
proof -
  have "lg_errors l' = lg_errors l" if "write_roles roles as l = (r, l')" for roles as l r l'
    using that by (induction roles as l rule: write_roles.induct) (auto split: option.splits)
  then show "ledger_state hid run_id p s ps addrs priors field rec l = (Inr st, l') \<Longrightarrow> lg_errors l' = lg_errors l"
    by (auto simp: ledger_state_def act_bind_Inr)
qed

lemma make_transition_Inr:
  assumes "make_transition env run_id hid kind actor stp n ps ch causes fr to status reason rec l = (Inr t, l')"
  shows "l' = l" "tn_hid t = hid" "tn_to t = to" "tn_parents t = ps" "tn_kind t = kind" "tn_causes t = causes"
  using assms by (auto simp: make_transition_def Let_def act_bind_Inr)

lemma generate_one_ok:
  assumes g: "gen_ok refs ps n l" and r: "generate_one env run_id stp (allowed_refs refs) snapshot rec ps base n pr l = (Inr (), l')"
  shows "gen_ok refs ps (n + 1) l'"
proof (cases "\<exists>p. pr = Some p \<and> \<not> blank_statement (pr_statement p)")
  case False
  then have "l' = l\<lparr>lg_errors := lg_errors l @ [No_Statement n]\<rparr>" using r by (auto simp: generate_one_def split: option.splits if_splits)
  then show ?thesis using gen_ok_error [OF g] by simp
next
  case True
  then obtain p where p: "pr = Some p" "\<not> blank_statement (pr_statement p)" by blast
  obtain items field causes er where sc: "split_cited (At_Hypothesis n) (allowed_refs refs) (pr_supporting p) = (items, field, causes, er)" by (metis prod_cases4)
  obtain priors pcauses per where sp: "split_priors (pr_priors p) (allowed_refs refs) snapshot = (priors, pcauses, per)" by (metis prod_cases3)
  let ?l0 = "l\<lparr>lg_errors := lg_errors l @ (er @ per)\<rparr>"
  have g0: "gen_ok refs ps n ?l0" by (rule gen_ok_errors [OF g])
  note body = r [unfolded generate_one_def p option.case if_not_P [OF p(2)] sc sp prod.case act_bind_Inr act_base_simps act_simps, simplified]
  show ?thesis
  proof (cases "causes = []")
    case True
    then have "l' = ?l0\<lparr>lg_errors := lg_errors ?l0 @ [No_Citation n]\<rparr>" using body by simp
    then show ?thesis using gen_ok_error [OF g0, of "[No_Citation n]"] by simp
  next
    case ne: False
    let ?hid = "hypothesis_id env run_id (is_step_id stp) (base + n)" and ?addrs = "[length (lg_store l) ..< length (lg_store l) + length items]"
    let ?l1 = "?l0\<lparr>lg_store := lg_store l @ items\<rparr>"
    from body ne obtain st l2 t where
        st: "ledger_state ?hid run_id p (case pr_statement p of None \<Rightarrow> JNull | Some s \<Rightarrow> s) ps ?addrs priors field rec ?l1 = (Inr st, l2)"
      and mt: "\<exists>l3 l4. make_transition env run_id ?hid GENERATE Theta stp n ps [] (causes @ pcauses) None 0 H_Proposed ''THETA_GENERATED'' rec l3 = (Inr t, l4)
            \<and> l3 = l2\<lparr>lg_new := lg_new l2 @ [(?hid, st)]\<rparr> \<and> l' = l4\<lparr>lg_trans := lg_trans l4 @ [t]\<rparr>"
      by (auto simp: act_bind_Inr Let_def)
    then have t: "tn_hid t = ?hid" "tn_to t = 0" "tn_parents t = ps" "tn_kind t = GENERATE" "tn_causes t = causes @ pcauses"
      and l': "l' = l2\<lparr>lg_new := lg_new l2 @ [(?hid, st)], lg_trans := lg_trans l2 @ [t]\<rparr>"
      by (auto dest: make_transition_Inr)
    have w: "\<exists>u. write_roles (pr_roles p) ?addrs ?l1 = (Inr u, l2)" using st by (auto simp: ledger_state_def act_bind_Inr)
    then have ids: "length (lg_store l2) = length (lg_store l) + length items"
        "\<And>a. a < length (lg_store l) + length items \<Longrightarrow> support_id (lg_store l2 ! a) = support_id ((lg_store l @ items) ! a)"
        "\<And>a. a \<in> set ?addrs \<Longrightarrow> support_id ((lg_store l @ items) ! a) \<noteq> None"
      using write_roles_ids by fastforce+
    have so: "lg_new l2 = lg_new l" "lg_trans l2 = lg_trans l" "hs_id st = ?hid" "hs_parents st = ps" "hs_revision st = 0" "hs_support st = ?addrs"
      using ledger_state_Inr [OF st] by (simp_all add: same_books_def)
    have g2: "gen_ok refs ps n l2"
    proof (rule gen_ok_store [OF g0])
      show "lg_errors l2 = lg_errors ?l0" using ledger_state_errors [OF st] by simp
      show "support_id (lg_store l2 ! a) = support_id (lg_store ?l0 ! a)" if "a < length (lg_store ?l0)" for a
        using ids(2) [of a] that by (simp add: nth_append)
    qed (use so ids(1) in simp_all)
    note gr = split_cited_grounded [OF sc]
    have tok: "gen_trans_ok refs ps t" using ne gr t by (cases causes) (auto simp: gen_trans_ok_def)
    have sup: "a < length (lg_store l2) \<and> grounded refs (support_id (lg_store l2 ! a))" if "a \<in> set (hs_support st)" for a
    proof -
      have a: "a \<in> set ?addrs" using that so(6) by simp
      then have "a < length (lg_store l) + length items" "(lg_store l @ items) ! a \<in> set items" by (auto simp: nth_append)
      then show ?thesis using ids(1,2) ids(3) [OF a] gr by auto
    qed
    show ?thesis unfolding l' by (rule gen_ok_add [OF g2 tok t(1,2) so(3,5,4) sup])
  qed
qed

lemma key_refs_in: "key_refs refs = Inr rs \<Longrightarrow> (k, i) \<in> set rs \<Longrightarrow> \<exists>r \<in> set refs. er_id r = i \<and> er_kind r = Some k"
  unfolding key_refs_def by (drule collect_set) (auto split: option.splits)

text \<open>
  What the agent generates rests on the step's evidence: when \<open>generate\<close> returns, it returns one
  hypothesis per proposal and no more than the limit; every transition names as a cause an evidence
  ref of the step's context of a citable kind, and every knowledge item of every hypothesis carries
  the id of such a ref (a registry prior is of no citable kind); and the lineage check finds nothing.
\<close>

theorem generated_hypotheses_are_grounded:
  assumes "generate env run_id stp proposals snapshot rec max_hypotheses parents base (ledger_init store []) = (Inr (states, trs), l)"
  shows "length states = length proposals \<and> int (length proposals) \<le> max_hypotheses \<and> lineage_intact states trs = []
    \<and> (\<forall>t \<in> set trs. \<exists>r \<in> set (cx_evidence_refs (is_context stp)). \<exists>k \<in> set CITABLE_EVIDENCE_KINDS.
         er_kind r = Some k \<and> (k, er_id r) \<in> set (tn_causes t))
    \<and> (\<forall>s \<in> set states. \<forall>a \<in> set (hs_support s). \<exists>r \<in> set (cx_evidence_refs (is_context stp)). \<exists>k \<in> set CITABLE_EVIDENCE_KINDS.
         er_kind r = Some k \<and> support_id (lg_store l ! a) = Some (er_id r))"
proof -
  obtain refs where refs: "key_refs (cx_evidence_refs (is_context stp)) = Inr refs"
    using assms by (cases "key_refs (cx_evidence_refs (is_context stp))") (auto simp: generate_def)
  let ?bad = "proposals = [] \<or> max_hypotheses < int (length proposals)"
  from assms obtain l0 l1 where l0: "(if ?bad then act_errors [Bad_Count (length proposals) max_hypotheses] else act_return ()) (ledger_init store []) = (Inr (), l0)"
    and l1: "act_each (generate_one env run_id stp (allowed_refs refs) snapshot rec parents base) 0 proposals l0 = (Inr (), l1)"
    and res: "ledger_result l1 = (Inr (states, trs), l)"
    unfolding generate_def refs sum.case act_bind_Inr by auto
  have l: "l = l1" "lg_errors l1 = []" "states = map snd (lg_new l1)" "trs = lg_trans l1"
    using res by (auto simp: ledger_result_def split: if_splits)
  have g0: "gen_ok refs parents 0 l0"
    using l0 by (auto simp: gen_ok_def ledger_init_def split: if_splits)
  have g1: "gen_ok refs parents (length proposals) l1"
    by (rule act_each_keeps [OF l1, of "gen_ok refs parents"]) (use g0 generate_one_ok in auto)
  have mono: "lg_errors l0 = []"
  proof -
    have "lg_errors la \<noteq> [] \<Longrightarrow> lg_errors lb \<noteq> []" if "generate_one env run_id stp (allowed_refs refs) snapshot rec parents base i x la = (Inr (), lb)" for i x la lb
      using that by (auto simp: generate_one_def act_bind_Inr make_transition_def Let_def split: option.splits if_splits prod.splits dest: ledger_state_errors)
    then have "lg_errors l0 \<noteq> [] \<Longrightarrow> lg_errors l1 \<noteq> []"
      by (intro act_each_keeps [OF l1, of "\<lambda>_ l. lg_errors l \<noteq> []"]) auto
    then show ?thesis using l(2) by blast
  qed
  then have "\<not> ?bad" using l0 by (auto split: if_splits)
  have st: "gen_state_ok refs parents l1 (hs_id s) s" if "s \<in> set states" for s
    using that g1 l(3) by (auto simp: gen_ok_def gen_state_ok_def)
  have tr: "gen_trans_ok refs parents t" if "t \<in> set trs" for t using that g1 l(4) by (simp add: gen_ok_def)
  have "lineage_intact states trs = []"
  proof (rule lineage_intactI)
    show "tn_causes t \<noteq> []" if "t \<in> set trs" for t using tr [OF that] by (auto simp: gen_trans_ok_def)
    show "\<exists>t \<in> set trs. tn_hid t = hs_id s \<and> tn_to t = hs_revision s" if "s \<in> set states" for s
      using st [OF that] l(4) by (auto simp: gen_state_ok_def)
    show "set (tn_parents t) \<subseteq> set (hs_parents s)" if "s \<in> set states" "t \<in> set trs" for s t
      using st [OF that(1)] tr [OF that(2)] by (simp add: gen_state_ok_def gen_trans_ok_def)
  qed
  moreover have "\<exists>r \<in> set (cx_evidence_refs (is_context stp)). \<exists>k \<in> set CITABLE_EVIDENCE_KINDS. er_kind r = Some k \<and> (k, er_id r) \<in> set (tn_causes t)"
    if "t \<in> set trs" for t
    using tr [OF that] key_refs_in [OF refs] by (fastforce simp: gen_trans_ok_def)
  moreover have "\<exists>r \<in> set (cx_evidence_refs (is_context stp)). \<exists>k \<in> set CITABLE_EVIDENCE_KINDS. er_kind r = Some k \<and> support_id (lg_store l ! a) = Some (er_id r)"
    if "s \<in> set states" "a \<in> set (hs_support s)" for s a
    using st [OF that(1)] that(2) key_refs_in [OF refs] l(1) by (fastforce simp: gen_state_ok_def grounded_def)
  moreover have "length states = length proposals" using g1 l(2,3) by (simp add: gen_ok_def)
  ultimately show ?thesis using \<open>\<not> ?bad\<close> by auto
qed

section \<open>A concrete ledger\<close>

text \<open>Two hypotheses resting on one knowledge item, and a call by phi that merges, strengthens and splits.\<close>

definition led_env :: hyp_env where
  "led_env = \<lparr>he_sha = (\<lambda>s. s), he_state = (\<lambda>_ _. []), he_transition = (\<lambda>_. [])\<rparr>"

definition led_text :: hyp_text where
  "led_text = \<lparr>ht_statement = JString ''runners lose keys'', ht_mechanism = JNull, ht_population = JNull, ht_activity = JNull,
     ht_task = JNull, ht_context = JNull, ht_friction = JNull\<rparr>"

definition led_hyp :: "string \<Rightarrow> hyp_state" where
  "led_hyp h = \<lparr>hs_id = h, hs_run = ''r'', hs_parents = [], hs_revision = 0, hs_text = led_text, hs_status = H_Proposed, hs_support = [0],
     hs_priors = [], hs_field = [], hs_assumptions = [], hs_contradictions = [], hs_falsifiers = [], hs_gaps = [], hs_created = ''t0'', hs_updated = ''t0''\<rparr>"

definition led_store :: "support list" where
  "led_store = [\<lparr>su_chunk = Some ''c1'', su_document = None, su_fact = None, su_trace = None, su_role = ''mechanism''\<rparr>]"

definition led_current :: "(string, hyp_state) dict" where
  "led_current = [(''h1'', led_hyp ''h1''), (''h2'', led_hyp ''h2'')]"

definition led_child :: "string list \<Rightarrow> (string, string) dict \<Rightarrow> hyp_proposal" where
  "led_child ids roles = \<lparr>pr_statement = None, pr_text = led_text, pr_supporting = ids, pr_priors = [], pr_roles = roles,
     pr_contradictions = [], pr_gaps = [], pr_assumptions = [], pr_falsifiers = []\<rparr>"

definition led_request :: "string \<Rightarrow> string \<Rightarrow> hyp_proposal list \<Rightarrow> string \<Rightarrow> hyp_request" where
  "led_request kind h children into = \<lparr>rq_kind = kind, rq_hid = h, rq_causes = [(''chunk'', ''c1'')], rq_reason = None, rq_field = [],
     rq_children = children, rq_into = into, rq_changes = [], rq_contradictions = []\<rparr>"

definition led_step :: issued_step where
  "led_step = \<lparr>is_run_id = ''r'', is_step_id = ''s'', is_type = ''VALIDATE'', is_sequence = 3, is_issued_at = ''t1'', is_objective = [],
     is_context = \<lparr>cx_evidence_refs = [\<lparr>er_id = ''c1'', er_kind = Some ''chunk''\<rparr>], cx_inputs = [], cx_prior_step_ids = [], cx_admitted = [],
       cx_hypotheses = None, cx_registry = None\<rparr>,
     is_constraints = [], is_output_schema = JNull, is_rules = [], is_external = None, is_cognitive = None, is_theta = None, is_harness = None\<rparr>"

definition led_call :: "hyp_actor \<Rightarrow> apply_call" where
  "led_call a = \<lparr>ac_env = led_env, ac_run = ''r'', ac_step = led_step, ac_actor = a, ac_allowed = [(''c1'', ''chunk'')], ac_recorded = ''t1'', ac_max = 8\<rparr>"

definition led_requests :: "hyp_request list" where
  "led_requests = [led_request ''MERGE'' ''h2'' [] ''h1'', led_request ''STRENGTHEN'' ''h1'' [] [],
     led_request ''SPLIT'' ''h1'' [led_child [''c1''] [], led_child [] []] []]"

lemma led_runs:
  "case apply_requests (led_call Phi) led_store led_current led_requests of
     (Inr (states, trs), l) \<Rightarrow> map hs_id states = [''h1'', ''h2'', ''hyp_r:s:300'', ''hyp_r:s:301'']
        \<and> map hs_status states = [H_Split, H_Merged, H_Proposed, H_Proposed] \<and> length trs = 6
   | (Inl e, l) \<Rightarrow> False"
  by code_simp

lemma led_child_ids: "child_id (led_call Phi) 2 0 = ''hyp_r:s:300''" "child_id (led_call Phi) 2 1 = ''hyp_r:s:301''"
    "child_id (led_call Theta) 1 0 = ''hyp_r:s:200''"
  by code_simp+

lemma led_keys: "dkeys led_current = {''h1'', ''h2''}"
  by (auto simp: dkeys_def led_current_def)

lemma led_children:
  "children_of led_requests 0 = 0" "children_of led_requests (Suc 0) = 0" "children_of led_requests 2 = 2" "length led_requests = 3"
  by (simp_all add: children_of_def led_requests_def led_request_def)

lemma less_led: "i < 3 \<longleftrightarrow> i = 0 \<or> i = 1 \<or> i = (2::nat)" "j < 2 \<longleftrightarrow> j = 0 \<or> j = (1::nat)"
  by auto

lemma led_fresh: "fresh_children (led_call Phi) led_current led_requests"
  unfolding fresh_children_def led_children(4) led_keys
proof (intro allI impI conjI)
  fix i j assume "i < 3" "j < children_of led_requests i"
  then have ij: "i = 2" "j = 0 \<or> j = 1" by (auto simp: less_led led_children)
  then show "child_id (led_call Phi) i j \<notin> {''h1'', ''h2''}" using led_child_ids by auto
  fix i' j' assume "i' < 3" "j' < children_of led_requests i'" and eq: "child_id (led_call Phi) i j = child_id (led_call Phi) i' j'"
  then have "i' = 2" "j' = 0 \<or> j' = 1" by (auto simp: less_led led_children)
  with ij eq led_child_ids show "i = i'" "j = j'" by auto
qed

lemma led_keyed: "keyed led_current"
  by code_simp



definition led_theta :: "hyp_request list" where
  "led_theta = [led_request ''REVISE'' ''h1'' [] [], led_request ''SPLIT'' ''h1'' [led_child [''c1''] []] []]"

lemma led_theta_runs:
  "case apply_requests (led_call Theta) led_store led_current led_theta of (Inr (states, trs), l) \<Rightarrow> length trs = 3 | (Inl e, l) \<Rightarrow> False"
  by code_simp

lemma led_theta_children: "children_of led_theta 0 = 0" "children_of led_theta (Suc 0) = 1" "length led_theta = 2"
  by (simp_all add: children_of_def led_theta_def led_request_def)

lemma led_theta_fresh: "fresh_children (led_call Theta) led_current led_theta"
  unfolding fresh_children_def led_theta_children(3) led_keys
proof (intro allI impI conjI)
  fix i j assume "i < 2" "j < children_of led_theta i"
  then have ij: "i = 1" "j = 0" by (auto simp: less_led led_theta_children)
  then show "child_id (led_call Theta) i j \<notin> {''h1'', ''h2''}" using led_child_ids by auto
  fix i' j' assume "i' < 2" "j' < children_of led_theta i'"
  then have "i' = 1" "j' = 0" by (auto simp: less_led led_theta_children)
  with ij show "i = i'" "j = j'" by auto
qed

theorem theta_applies_no_pressure_witness:
  "\<exists>states trs l. apply_requests (led_call Theta) led_store led_current led_theta = (Inr (states, trs), l) \<and> length trs = 3
     \<and> filter (\<lambda>t. tn_kind t \<notin> {GENERATE, REVISE, SPLIT}) trs = []"
proof -
  obtain states trs l where r: "apply_requests (led_call Theta) led_store led_current led_theta = (Inr (states, trs), l)" and "length trs = 3"
    using led_theta_runs by (auto split: prod.splits sum.splits)
  moreover have "filter (\<lambda>t. tn_kind t \<notin> {GENERATE, REVISE, SPLIT}) trs = []"
    using theta_applies_no_pressure [OF r led_theta_fresh led_keyed] by (auto simp: led_call_def filter_empty_conv)
  ultimately show ?thesis by blast
qed

theorem apply_leaves_parent_evidence_witness:
  "take 1 (lg_store (snd (apply_requests (led_call Phi) led_store led_current led_requests))) = led_store"
proof -
  have "\<forall>rq \<in> set led_requests. \<forall>ch \<in> set (rq_children rq). pr_roles ch = [] \<or> cites_knowledge (led_call Phi) ch"
    by (simp add: led_requests_def led_request_def led_child_def)
  from apply_leaves_parent_evidence [OF this, of led_store led_current] show ?thesis by (simp add: led_store_def)
qed

text \<open>
  Without that condition the parent's evidence is rewritten: a split child that inherits the
  parent's items and declares a support role changes the role in the parent's own items, and the
  change stays when the call is rejected for another request.
\<close>

lemma split_child_rewrites_parent_role:
  "case apply_requests (led_call Phi) led_store led_current
     [led_request ''SPLIT'' ''h1'' [led_child [] [(''c1'', ''friction'')]] [], led_request ''KILL'' ''h9'' [] []] of
     (Inl (Hypothesis_Rejected es), l) \<Rightarrow> es = [Unknown_Hypothesis 1 ''h9''] \<and> map su_role (lg_store l) = [''friction''] \<and> map su_role led_store = [''mechanism'']
   | _ \<Rightarrow> False"
  by code_simp

definition led_proposal :: hyp_proposal where
  "led_proposal = (led_child [''c1''] [(''c1'', ''friction'')])\<lparr>pr_statement := Some (JString ''runners lose keys'')\<rparr>"

lemma led_generates:
  "case generate led_env ''r'' led_step [Some led_proposal] None ''t1'' 8 [] 0 (ledger_init [] []) of
     (Inr (states, trs), l) \<Rightarrow> length trs = 1 | (Inl e, l) \<Rightarrow> False"
  by code_simp

theorem generated_hypotheses_are_grounded_witness:
  "\<exists>states trs l. generate led_env ''r'' led_step [Some led_proposal] None ''t1'' 8 [] 0 (ledger_init [] []) = (Inr (states, trs), l)
     \<and> length states = 1 \<and> length trs = 1 \<and> lineage_intact states trs = []"
proof -
  obtain states trs l where r: "generate led_env ''r'' led_step [Some led_proposal] None ''t1'' 8 [] 0 (ledger_init [] []) = (Inr (states, trs), l)"
    and "length trs = 1"
    using led_generates by (auto split: prod.splits sum.splits)
  with generated_hypotheses_are_grounded [OF r] show ?thesis by auto
qed

end
