(* ===== verification/Service_Ledger.thy ===== *)
theory Service_Ledger
  imports Adapter_Service Hypotheses_Facts
begin

text \<open>
  The ledger's revisions in the tables: what a transaction stores is what the next one loads.
\<close>

section \<open>Revisions written and read\<close>

text \<open>The revisions belong to the run, and each is above every stored revision of its hypothesis.\<close>

definition batch_fits :: "string \<Rightarrow> hyp_row list \<Rightarrow> hyp_state list \<Rightarrow> bool" where
  "batch_fits run_id rows states \<longleftrightarrow> distinct (map hs_id states) \<and>
     (\<forall>s \<in> set states. hs_run s = run_id \<and>
        (\<forall>x \<in> set rows. hs_id (hr_state x) = hs_id s \<longrightarrow> hs_revision (hr_state x) < hs_revision s))"

definition row_of :: "support list \<Rightarrow> hyp_state \<Rightarrow> hyp_row" where
  "row_of store s = \<lparr>hr_state = s, hr_items = map ((!) store) (hs_support s)\<rparr>"

lemma insert_revisions_append: "batch_fits run_id rows states \<Longrightarrow> fold (insert_revision store) states rows = rows @ map (row_of store) states"
proof (induction states arbitrary: rows)
  case (Cons s states)
  have "insert_revision store s rows = rows @ [row_of store s]"
  proof -
    have "\<not> list_ex (\<lambda>r. hs_id (hr_state r) = hs_id s \<and> hs_revision (hr_state r) = hs_revision s) rows"
      using Cons.prems unfolding list_ex_iff batch_fits_def by (metis less_irrefl list.set_intros(1))
    then show ?thesis unfolding insert_revision_def row_of_def by (simp only: if_False)
  qed
  moreover have "batch_fits run_id (rows @ [row_of store s]) states" using Cons.prems by (auto simp: batch_fits_def row_of_def)
  ultimately show ?case using Cons.IH by simp
qed simp

lemma newer_rows_from:
  "map_of (fold newer_row rs d) h = Some r \<Longrightarrow> map_of d h = Some r \<or> r \<in> set rs \<and> hs_id (hr_state r) = h"
proof (induction rs arbitrary: d)
  case (Cons x rs)
  from Cons.IH [of "newer_row x d"] Cons.prems show ?case by (auto simp: newer_row_def split: option.splits if_splits)
qed simp

lemma newest_rows_from: "map_of (newest_rows run_id rows) h = Some r \<Longrightarrow> r \<in> set rows \<and> hs_id (hr_state r) = h"
  unfolding newest_rows_def by (drule newer_rows_from) auto

lemma newest_rows_append:
  assumes "batch_fits run_id rows states"
  shows "map_of (newest_rows run_id (rows @ map (row_of store) states)) h =
    (case map_of (map (\<lambda>s. (hs_id s, row_of store s)) states) h of Some r \<Rightarrow> Some r | None \<Rightarrow> map_of (newest_rows run_id rows) h)"
proof -
  have run: "filter (\<lambda>r. hs_run (hr_state r) = run_id) (map (row_of store) states) = map (row_of store) states"
    using assms by (auto simp: batch_fits_def row_of_def filter_id_conv)
  have old: "hs_revision (hr_state r) < hs_revision s" if "s \<in> set states" "map_of (newest_rows run_id rows) (hs_id s) = Some r" for s r
    using assms newest_rows_from [OF that(2)] that(1) unfolding batch_fits_def by blast
  have "map_of (fold newer_row (map (row_of store) ss) d) h =
      (case map_of (map (\<lambda>s. (hs_id s, row_of store s)) ss) h of Some r \<Rightarrow> Some r | None \<Rightarrow> map_of d h)"
    if "distinct (map hs_id ss)" "\<And>s r. s \<in> set ss \<Longrightarrow> map_of d (hs_id s) = Some r \<Longrightarrow> hs_revision (hr_state r) < hs_revision s" for ss d
    using that
  proof (induction ss arbitrary: d)
    case (Cons s ss)
    have n: "map_of (newer_row (row_of store s) d) = (map_of d)(hs_id s \<mapsto> row_of store s)"
      using Cons.prems(2) [of s] by (auto simp: newer_row_def row_of_def split: option.splits)
    have "hs_id s \<notin> hs_id ` set ss" using Cons.prems(1) by simp
    then have none: "map_of (map (\<lambda>s. (hs_id s, row_of store s)) ss) (hs_id s) = None" by (auto simp: map_of_eq_None_iff)
    have "map_of (fold newer_row (map (row_of store) ss) (newer_row (row_of store s) d)) h =
        (case map_of (map (\<lambda>s. (hs_id s, row_of store s)) ss) h of Some r \<Rightarrow> Some r | None \<Rightarrow> ((map_of d)(hs_id s \<mapsto> row_of store s)) h)"
      unfolding n [symmetric]
    proof (rule Cons.IH)
      show "distinct (map hs_id ss)" using Cons.prems(1) by simp
      fix t r assume t: "t \<in> set ss" "map_of (newer_row (row_of store s) d) (hs_id t) = Some r"
      then have "hs_id t \<noteq> hs_id s" using \<open>hs_id s \<notin> _\<close> by (metis image_eqI)
      then show "hs_revision (hr_state r) < hs_revision t" using Cons.prems(2) [of t r] t unfolding n by simp
    qed
    then show ?case using none by (cases "h = hs_id s") (auto split: option.splits)
  qed simp
  from this [of states "newest_rows run_id rows", OF _ old] assms show ?thesis
    unfolding newest_rows_def filter_append run fold_append comp_def by (simp add: batch_fits_def)
qed

text \<open>Loading: the items of a revision are the ones of its row, at addresses of their own.\<close>

lemma load_rows_spec:
  "load_rows rows store = (store', cur) \<Longrightarrow> map fst cur = map fst rows \<and> (\<exists>more. store' = store @ more) \<and>
    list_all2 (\<lambda>(h, r) (k, s). s = (hr_state r)\<lparr>hs_support := hs_support s\<rparr> \<and> map ((!) store') (hs_support s) = hr_items r) rows cur"
proof (induction rows arbitrary: store store' cur)
  case (Cons p rows)
  obtain h r where p: "p = (h, r)" by fastforce
  obtain st1 c1 where l: "load_rows rows (store @ hr_items r) = (st1, c1)" by fastforce
  note ih = Cons.IH [OF l]
  then obtain more where m: "st1 = (store @ hr_items r) @ more" by blast
  have "map ((!) st1) [length store ..< length store + length (hr_items r)] = hr_items r"
    unfolding m by (rule nth_equalityI) (simp_all add: nth_append)
  then show ?case using Cons.prems ih m unfolding p by (auto simp: l)
qed simp

lemma load_rows_lookup:
  assumes "load_rows rows store = (store', cur)" "map_of rows h = Some r"
  shows "\<exists>s. map_of cur h = Some s \<and> s = (hr_state r)\<lparr>hs_support := hs_support s\<rparr> \<and> map ((!) store') (hs_support s) = hr_items r"
proof -
  have "list_all2 (\<lambda>(h, r) (k, s). s = (hr_state r)\<lparr>hs_support := hs_support s\<rparr> \<and> map ((!) store') (hs_support s) = hr_items r) rows cur"
    "map fst cur = map fst rows" using load_rows_spec [OF assms(1)] by blast+
  then show ?thesis using assms(2)
  proof (induction rows cur rule: list_all2_induct)
    case (Cons p rows q cur)
    then show ?case by (cases p; cases q) (auto split: if_splits)
  qed simp
qed

lemma newest_same_run:
  "batch_fits run_id rows states \<Longrightarrow> map_of (newest_rows run_id (fold (insert_revision store) states rows)) h =
    (case map_of (map (\<lambda>s. (hs_id s, row_of store s)) states) h of Some r \<Rightarrow> Some r | None \<Rightarrow> map_of (newest_rows run_id rows) h)"
  using newest_rows_append insert_revisions_append by metis


text \<open>A second revision of \<open>h1\<close>, with an item of its own.\<close>

definition led_second :: hyp_state where
  "led_second = (led_hyp ''h1'')\<lparr>hs_revision := 1\<rparr>"

definition led_tables :: adapter_db where
  "led_tables = \<lparr>db_runs = [], db_steps = [], db_hyps = [row_of led_store (led_hyp ''h1''), row_of led_store (led_hyp ''h2'')], db_trans = [],
     db_actions = [], db_evidence = [], db_results = []\<rparr>"


section \<open>Room for new hypotheses\<close>

text \<open>
  The bound passed to \<open>generate\<close> is \<open>max(0, max_h - live) or 1\<close>: at a full ledger it still lets one more in.
\<close>

lemma full_ledger_has_room: "max_h \<le> int (length (live_hypotheses current)) \<Longrightarrow> room_for max_h current = 1"
  by (simp add: room_for_def)

end
