(* ===== verification/Ontology.thy ===== *)
theory Ontology
  imports Py_Strings
begin

text \<open>
  The relation ontology of the extraction contract (\<^verbatim>\<open>llm_extraction/ontology.py\<close>): the closed
  set of predicate ids, the alias table, and the normalization that routes any emitted predicate
  onto an id: exact id, alias of the whole phrase, longest alias occurring as whole words, last
  resort. The definitions of the ids (prose for the prompt) are not modelled. Text is ASCII.
\<close>

section \<open>Tables\<close>

definition RELATION_ONTOLOGY :: "string list" where
  "RELATION_ONTOLOGY =
     [''IS_A'', ''PART_OF'', ''HAS_PROPERTY'', ''SAME_AS'', ''USES'', ''REQUIRES'', ''PRODUCES'', ''CAUSES'', ''REGULATES'',
      ''CORRELATES_WITH'', ''CONSTRAINED_BY'', ''PRECEDES'', ''MEASURES'', ''LOCATED_IN'', ''ALTERNATIVE_TO'', ''OPPOSES'',
      ''ACTS_ON'', ''RELATED_TO'']"

definition LAST_RESORT :: string where "LAST_RESORT = ''RELATED_TO''"

definition PREDICATE_ALIASES :: "(string \<times> string) list" where
  "PREDICATE_ALIASES =
     [(''kind_of'', ''IS_A''), (''type_of'', ''IS_A''), (''instance_of'', ''IS_A''),
      (''a_kind_of'', ''IS_A''), (''is_a_kind_of'', ''IS_A''), (''component_of'', ''PART_OF''),
      (''member_of'', ''PART_OF''), (''part'', ''PART_OF''), (''has'', ''HAS_PROPERTY''),
      (''has_attribute'', ''HAS_PROPERTY''), (''has_state'', ''HAS_PROPERTY''), (''has_ability'', ''HAS_PROPERTY''),
      (''same'', ''SAME_AS''), (''aka'', ''SAME_AS''), (''also_known_as'', ''SAME_AS''),
      (''alias_of'', ''SAME_AS''), (''employs'', ''USES''), (''leverages'', ''USES''),
      (''utilizes'', ''USES''), (''depends_on'', ''REQUIRES''), (''needs'', ''REQUIRES''),
      (''necessitates'', ''REQUIRES''), (''creates'', ''PRODUCES''), (''generates'', ''PRODUCES''),
      (''yields'', ''PRODUCES''), (''emits'', ''PRODUCES''), (''leads_to'', ''CAUSES''),
      (''results_in'', ''CAUSES''), (''triggers'', ''CAUSES''), (''controls'', ''REGULATES''),
      (''modulates'', ''REGULATES''), (''governs'', ''REGULATES''), (''varies_with'', ''CORRELATES_WITH''),
      (''associated_with'', ''CORRELATES_WITH''), (''correlated_with'', ''CORRELATES_WITH''), (''limited_by'', ''CONSTRAINED_BY''),
      (''bounded_by'', ''CONSTRAINED_BY''), (''restricted_by'', ''CONSTRAINED_BY''), (''limited'', ''CONSTRAINED_BY''),
      (''comes_before'', ''PRECEDES''), (''precedes_in_time'', ''PRECEDES''), (''before'', ''PRECEDES''),
      (''follows'', ''PRECEDES''), (''quantifies'', ''MEASURES''), (''evaluates'', ''MEASURES''),
      (''assesses'', ''MEASURES''), (''monitors'', ''MEASURES''), (''inside'', ''LOCATED_IN''),
      (''within'', ''LOCATED_IN''), (''located'', ''LOCATED_IN''), (''housed_in'', ''LOCATED_IN''),
      (''replaces'', ''ALTERNATIVE_TO''), (''substitute_for'', ''ALTERNATIVE_TO''), (''competes_with'', ''ALTERNATIVE_TO''),
      (''contradicts'', ''OPPOSES''), (''counteracts'', ''OPPOSES''), (''opposed_to'', ''OPPOSES''),
      (''conflicts_with'', ''OPPOSES''), (''mitigates'', ''OPPOSES''), (''acts'', ''ACTS_ON''),
      (''performs'', ''ACTS_ON''), (''applies_to'', ''ACTS_ON''), (''affects'', ''ACTS_ON''),
      (''executes'', ''ACTS_ON''), (''reported'', ''ACTS_ON''), (''reports'', ''ACTS_ON''),
      (''stated'', ''ACTS_ON''), (''announced'', ''ACTS_ON''), (''disclosed'', ''ACTS_ON''),
      (''observed_on'', ''ACTS_ON''), (''connects_to'', ''RELATED_TO''), (''relates_to'', ''RELATED_TO''),
      (''mentions'', ''RELATED_TO''), (''associated'', ''CORRELATES_WITH'')]"

section \<open>Normalization\<close>

definition upper_char :: "char \<Rightarrow> char" where
  "upper_char c = (if 97 \<le> (of_char c :: nat) \<and> (of_char c :: nat) \<le> 122 then char_of (of_char c - 32 :: nat) else c)"

definition py_upper :: "string \<Rightarrow> string" where
  "py_upper s = map upper_char s"

definition swap_char :: "char \<Rightarrow> char \<Rightarrow> string \<Rightarrow> string" where
  "swap_char a b s = map (\<lambda>c. if c = a then b else c) s"

text \<open>The class \<open>[a-z0-9]\<close> of the look-behind and look-ahead.\<close>

definition word_char :: "char \<Rightarrow> bool" where
  "word_char c = (97 \<le> (of_char c :: nat) \<and> (of_char c :: nat) \<le> 122 \<or> py_isdigit c)"

definition occurs_at :: "string \<Rightarrow> string \<Rightarrow> nat \<Rightarrow> bool" where
  "occurs_at phrase s i =
     (starts_with phrase (drop i s) \<and> (i = 0 \<or> \<not> word_char (s ! (i - 1))) \<and>
      (length s \<le> i + length phrase \<or> \<not> word_char (s ! (i + length phrase))))"

definition occurs_as_words :: "string \<Rightarrow> string \<Rightarrow> bool" where
  "occurs_as_words phrase s = list_ex (occurs_at phrase s) [0..<Suc (length s)]"

definition alias_patterns :: "(string \<times> string) list" where
  "alias_patterns = map (\<lambda>(a, t). (swap_char (CHR ''_'') (CHR '' '') a, t))
     (sort_key (\<lambda>(a, t). - int (length a)) PREDICATE_ALIASES)"

definition normalize_predicate :: "string \<Rightarrow> string \<times> string" where
  "normalize_predicate raw =
     (let key = py_strip raw; up = py_upper key in
      if up \<in> set RELATION_ONTOLOGY then (up, ''enum'')
      else case map_of PREDICATE_ALIASES (swap_char (CHR '' '') (CHR ''_'') (py_lower key)) of
        Some t \<Rightarrow> (t, ''alias'')
      | None \<Rightarrow>
          let low = swap_char (CHR ''_'') (CHR '' '') (py_lower key) in
          (case find (\<lambda>(p, t). occurs_as_words p low) alias_patterns of
             Some (p, t) \<Rightarrow> (t, ''alias'')
           | None \<Rightarrow> (LAST_RESORT, ''related_fallback'')))"

section \<open>Every predicate lands on the ontology\<close>

lemma aliases_in_ontology: "(a, t) \<in> set PREDICATE_ALIASES \<Longrightarrow> t \<in> set RELATION_ONTOLOGY"
proof -
  have "list_all (\<lambda>(a, t). t \<in> set RELATION_ONTOLOGY) PREDICATE_ALIASES" by code_simp
  then show "(a, t) \<in> set PREDICATE_ALIASES \<Longrightarrow> t \<in> set RELATION_ONTOLOGY" by (auto simp: list_all_iff)
qed

lemma patterns_in_ontology: "(p, t) \<in> set alias_patterns \<Longrightarrow> t \<in> set RELATION_ONTOLOGY"
  using aliases_in_ontology by (auto simp: alias_patterns_def)

lemma ontology_fixed: "p \<in> set RELATION_ONTOLOGY \<Longrightarrow> py_upper (py_strip p) = p \<and> py_upper (py_strip (py_lower p)) = p"
proof -
  have "list_all (\<lambda>p. py_upper (py_strip p) = p \<and> py_upper (py_strip (py_lower p)) = p) RELATION_ONTOLOGY" by code_simp
  then show "p \<in> set RELATION_ONTOLOGY \<Longrightarrow> py_upper (py_strip p) = p \<and> py_upper (py_strip (py_lower p)) = p"
    by (auto simp: list_all_iff)
qed

lemma normalize_ontology_id:
  "p \<in> set RELATION_ONTOLOGY \<Longrightarrow> normalize_predicate p = (p, ''enum'') \<and> normalize_predicate (py_lower p) = (p, ''enum'')"
  using ontology_fixed [of p] by (simp add: normalize_predicate_def)

text \<open>
  Normalization is a total, idempotent projection onto the ontology: whatever string a model
  emits, the result is one of the ids; the method is \<open>enum\<close> exactly when the trimmed, upper-cased
  string is itself that id; normalizing a result again leaves it unchanged and reports \<open>enum\<close>,
  in either case of letters.
\<close>

theorem predicate_lands_on_ontology:
  "fst (normalize_predicate raw) \<in> set RELATION_ONTOLOGY \<and>
   (snd (normalize_predicate raw) = ''enum'' \<longleftrightarrow> py_upper (py_strip raw) \<in> set RELATION_ONTOLOGY) \<and>
   normalize_predicate (fst (normalize_predicate raw)) = (fst (normalize_predicate raw), ''enum'') \<and>
   normalize_predicate (py_lower (fst (normalize_predicate raw))) = (fst (normalize_predicate raw), ''enum'')"
proof -
  have last: "LAST_RESORT \<in> set RELATION_ONTOLOGY" by code_simp
  have r: "fst (normalize_predicate raw) \<in> set RELATION_ONTOLOGY"
    using last by (auto simp: normalize_predicate_def Let_def split: option.splits
        dest!: map_of_SomeD find_in intro: aliases_in_ontology patterns_in_ontology)
  moreover have "snd (normalize_predicate raw) = ''enum'' \<longleftrightarrow> py_upper (py_strip raw) \<in> set RELATION_ONTOLOGY"
    by (auto simp: normalize_predicate_def Let_def split: option.splits)
  ultimately show ?thesis using normalize_ontology_id by blast
qed

text \<open>
  Two phrases the code's comment rules out: the phrasal pass does read \<open>has\<close> in \<open>has_no_effect_on\<close>
  (underscores become spaces first) and \<open>before\<close> in \<open>not before\<close>.
\<close>

lemma negated_phrases_matched:
  "normalize_predicate ''has_no_effect_on'' = (''HAS_PROPERTY'', ''alias'')"
  "normalize_predicate ''not before'' = (''PRECEDES'', ''alias'')"
  by code_simp+

end
