(* ===== verification/Json_Mask.thy ===== *)
theory Json_Mask
  imports Ontology
begin

text \<open>
  The grammar mask of the local extraction lane (\<^verbatim>\<open>sidecars/local_extractor/json_mask.py\<close>): the
  incremental character tracker, the offline parser of a prefix, the per-state token masks, the
  predicate enum, and the logits processor with its per-sequence bookkeeping. Text is ASCII. The
  tokenizer (token texts, decoding, stop ids) is a parameter; logits are a list in which \<open>None\<close> is
  minus infinity. The caches of computed masks are not modelled: they return what was computed.
\<close>

section \<open>Grammar states\<close>

datatype gstate = S_START | S_OBJ | S_KEY | S_COLON | S_VALUE | S_ARR | S_STR_BODY | S_STR_ESC | S_KEY_BODY | S_KEY_ESC
  | S_NUM | S_LIT | S_DONE

definition after_ws :: "string \<Rightarrow> string \<Rightarrow> bool" where
  "after_ws cs text = (case dropWhile py_space text of [] \<Rightarrow> False | c # _ \<Rightarrow> c \<in> set cs)"

definition only :: "string \<Rightarrow> string \<Rightarrow> bool" where
  "only cs text = list_all (\<lambda>c. py_space c \<or> c \<in> set cs) text"

definition QUOTE :: char where "QUOTE = CHR 0x22"
definition BACKSLASH :: char where "BACKSLASH = CHR 0x5C"
definition DIGITS :: string where "DIGITS = ''0123456789''"
definition LOWER :: string where "LOWER = ''abcdefghijklmnopqrstuvwxyz''"

text \<open>\<open>pattern s\<close> is \<open>None\<close> for the states without a pattern (string bodies are free).\<close>

fun pattern :: "gstate \<Rightarrow> (string \<Rightarrow> bool) option" where
  "pattern S_START = Some (after_ws ''{'')"
| "pattern S_KEY = Some (after_ws [QUOTE, CHR ''}''])"
| "pattern S_COLON = Some (after_ws '':'')"
| "pattern S_VALUE = Some (after_ws (''{['' @ QUOTE # DIGITS @ ''-tfn''))"
| "pattern S_OBJ = Some (after_ws '',}'')"
| "pattern S_ARR = Some (after_ws '',]'')"
| "pattern S_NUM = Some (only (DIGITS @ ''eE+-.,}]''))"
| "pattern S_LIT = Some (only (LOWER @ '',}]''))"
| "pattern S_DONE = Some (only [])"
| "pattern _ = None"

section \<open>The incremental tracker\<close>

datatype phase = P_key | P_colon | P_value | P_after

text \<open>The stack has its top at the head.\<close>

record tracker =
  tr_state :: gstate
  tr_stack :: "(char \<times> phase) list"
  tr_in_str :: bool
  tr_in_key :: bool
  tr_esc :: bool
  tr_last_key :: string
  tr_pred_open :: bool
  tr_pred_buf :: string

definition tracker_init :: tracker where
  "tracker_init = \<lparr>tr_state = S_START, tr_stack = [], tr_in_str = False, tr_in_key = False, tr_esc = False,
     tr_last_key = [], tr_pred_open = False, tr_pred_buf = []\<rparr>"

definition set_top :: "phase \<Rightarrow> (char \<times> phase) list \<Rightarrow> (char \<times> phase) list" where
  "set_top p st = (case st of [] \<Rightarrow> [] | (c, _) # rest \<Rightarrow> (c, p) # rest)"

definition top_is :: "char \<Rightarrow> (char \<times> phase) list \<Rightarrow> bool" where
  "top_is c st = (case st of [] \<Rightarrow> False | (d, _) # _ \<Rightarrow> d = c)"

definition at_key :: "(char \<times> phase) list \<Rightarrow> bool" where
  "at_key st = (case st of [] \<Rightarrow> False | (c, p) # _ \<Rightarrow> c = CHR ''{'' \<and> p = P_key)"

definition closed_state :: "(char \<times> phase) list \<Rightarrow> gstate" where
  "closed_state st =
     (case st of [] \<Rightarrow> S_DONE
      | (c, p) # _ \<Rightarrow> if p \<in> {P_after, P_value} then (if c = CHR ''['' then S_ARR else S_OBJ) else S_KEY)"

definition comma_phase :: "(char \<times> phase) list \<Rightarrow> phase" where
  "comma_phase st = (if top_is (CHR ''{'') st then P_key else P_value)"

definition opens :: "char \<Rightarrow> bool" where "opens ch = (ch \<in> set ''{['')"
definition closes_container :: "char \<Rightarrow> bool" where "closes_container ch = (ch \<in> set ''}]'')"

definition number_char :: "char \<Rightarrow> gstate \<Rightarrow> bool" where
  "number_char ch s = (py_isdigit ch \<or> ch = CHR ''-'' \<or> (ch \<in> set ''.eE+-'' \<and> s = S_NUM))"

definition feed_in_str :: "char \<Rightarrow> tracker \<Rightarrow> tracker" where
  "feed_in_str ch t =
     (if tr_esc t then t\<lparr>tr_esc := False, tr_last_key := (if tr_in_key t then tr_last_key t @ [ch] else tr_last_key t)\<rparr>
      else if ch = BACKSLASH then t\<lparr>tr_esc := True\<rparr>
      else
        let t1 = t\<lparr>tr_pred_buf := (if tr_pred_open t then tr_pred_buf t @ [ch] else tr_pred_buf t)\<rparr> in
        if ch \<noteq> QUOTE then (if tr_in_key t1 then t1\<lparr>tr_last_key := tr_last_key t1 @ [ch]\<rparr> else t1)
        else if tr_in_key t1 then
          t1\<lparr>tr_in_str := False, tr_pred_open := False, tr_last_key := py_strip (tr_last_key t1),
             tr_stack := set_top P_colon (tr_stack t1), tr_state := S_COLON\<rparr>
        else
          t1\<lparr>tr_in_str := False, tr_pred_open := False, tr_stack := set_top P_after (tr_stack t1),
             tr_state := (if top_is (CHR ''['') (tr_stack t1) then S_ARR else S_OBJ), tr_in_key := False\<rparr>)"

definition feed_structure :: "char \<Rightarrow> tracker \<Rightarrow> tracker" where
  "feed_structure ch t =
     (let st = tr_stack t in
      if ch = QUOTE then
        (if at_key st then t\<lparr>tr_in_str := True, tr_in_key := True, tr_last_key := [], tr_state := S_KEY_BODY\<rparr>
         else t\<lparr>tr_in_str := True, tr_in_key := False, tr_pred_open := (tr_last_key t = ''predicate''), tr_pred_buf := [],
                tr_state := S_STR_BODY\<rparr>)
      else if opens ch then
        t\<lparr>tr_stack := (ch, if ch = CHR ''{'' then P_key else P_value) # st,
          tr_state := (if ch = CHR ''{'' then S_KEY else S_VALUE)\<rparr>
      else if closes_container ch then t\<lparr>tr_stack := tl st, tr_state := closed_state (tl st)\<rparr>
      else if ch = CHR '':'' then t\<lparr>tr_stack := set_top P_value st, tr_state := S_VALUE\<rparr>
      else if ch = CHR '','' then
        t\<lparr>tr_stack := set_top (comma_phase st) st, tr_state := (if top_is (CHR ''{'') st then S_KEY else S_ARR)\<rparr>
      else if number_char ch (tr_state t) then
        t\<lparr>tr_state := S_NUM, tr_stack := set_top P_after st\<rparr>
      else if is_alpha ch then t\<lparr>tr_state := S_LIT, tr_stack := set_top P_after st\<rparr>
      else t)"

definition feed :: "char \<Rightarrow> tracker \<Rightarrow> tracker" where
  "feed ch t = (if tr_in_str t then feed_in_str ch t else feed_structure ch t)"

definition feed_text :: "string \<Rightarrow> tracker \<Rightarrow> tracker" where
  "feed_text text t = fold feed text t"

section \<open>The offline parser of a prefix\<close>

record parse_state =
  ps_stack :: "(char \<times> phase) list"
  ps_in_str :: bool
  ps_in_key :: bool
  ps_esc :: bool
  ps_state :: gstate

definition parse_init :: parse_state where
  "parse_init = \<lparr>ps_stack = [], ps_in_str = False, ps_in_key = False, ps_esc = False, ps_state = S_START\<rparr>"

definition parse_char :: "char \<Rightarrow> parse_state \<Rightarrow> parse_state" where
  "parse_char ch s =
     (let st = ps_stack s in
      if ps_in_str s then
        (if ps_esc s then s\<lparr>ps_esc := False\<rparr>
         else if ch = BACKSLASH then s\<lparr>ps_esc := True\<rparr>
         else if ch = QUOTE then
           (if ps_in_key s then s\<lparr>ps_in_str := False, ps_stack := set_top P_colon st, ps_state := S_COLON\<rparr>
            else s\<lparr>ps_in_str := False, ps_stack := set_top P_after st,
                   ps_state := (if top_is (CHR ''['') st then S_ARR else S_OBJ)\<rparr>)
         else s)
      else if ch = QUOTE then
        s\<lparr>ps_in_str := True, ps_in_key := at_key st, ps_state := (if at_key st then S_KEY_BODY else S_STR_BODY)\<rparr>
      else if opens ch then
        s\<lparr>ps_stack := (ch, if ch = CHR ''{'' then P_key else P_value) # st,
          ps_state := (if ch = CHR ''{'' then S_KEY else S_VALUE)\<rparr>
      else if closes_container ch then s\<lparr>ps_stack := tl st, ps_state := closed_state (tl st)\<rparr>
      else if ch = CHR '':'' then s\<lparr>ps_stack := set_top P_value st, ps_state := S_VALUE\<rparr>
      else if ch = CHR '','' then
        s\<lparr>ps_stack := set_top (comma_phase st) st, ps_state := (if top_is (CHR ''{'') st then S_KEY else S_ARR)\<rparr>
      else if number_char ch (ps_state s) then
        s\<lparr>ps_state := S_NUM, ps_stack := set_top P_after st\<rparr>
      else if is_alpha ch then s\<lparr>ps_state := S_LIT, ps_stack := set_top P_after st\<rparr>
      else s)"

definition state_for :: "string \<Rightarrow> gstate" where
  "state_for text =
     (let s = fold parse_char text parse_init in
      if ps_in_str s then (if ps_in_key s then S_KEY_BODY else S_STR_BODY) else ps_state s)"

section \<open>Masks\<close>

definition enum_ids :: "string list" where
  "enum_ids = sort (remdups (RELATION_ONTOLOGY @ map py_lower RELATION_ONTOLOGY))"

text \<open>The sorted list, evaluated once.\<close>

lemma enum_ids_code [code]:
  "enum_ids =
     [''ACTS_ON'', ''ALTERNATIVE_TO'', ''CAUSES'', ''CONSTRAINED_BY'', ''CORRELATES_WITH'', ''HAS_PROPERTY'',
      ''IS_A'', ''LOCATED_IN'', ''MEASURES'', ''OPPOSES'', ''PART_OF'', ''PRECEDES'',
      ''PRODUCES'', ''REGULATES'', ''RELATED_TO'', ''REQUIRES'', ''SAME_AS'', ''USES'',
      ''acts_on'', ''alternative_to'', ''causes'', ''constrained_by'', ''correlates_with'', ''has_property'',
      ''is_a'', ''located_in'', ''measures'', ''opposes'', ''part_of'', ''precedes'',
      ''produces'', ''regulates'', ''related_to'', ''requires'', ''same_as'', ''uses'']"
  by code_simp

record tokenizer =
  tk_texts :: "string list"
  tk_decode :: "nat list \<Rightarrow> string"
  tk_eos_token_ids :: "nat list"
  tk_eos_token_id :: "nat option"

definition stop_ids :: "tokenizer \<Rightarrow> nat list" where
  "stop_ids tk = (if tk_eos_token_ids tk \<noteq> [] then tk_eos_token_ids tk
     else case tk_eos_token_id tk of None \<Rightarrow> [] | Some i \<Rightarrow> [i])"

definition compile_mask :: "tokenizer \<Rightarrow> gstate \<Rightarrow> bool list option" where
  "compile_mask tk s = map_option (\<lambda>pat. map (\<lambda>text. text \<noteq> [] \<and> pat text) (tk_texts tk)) (pattern s)"

definition on_trie :: "string \<Rightarrow> bool" where
  "on_trie buf = list_ex (\<lambda>e. starts_with buf e) enum_ids"

definition closes :: "string \<Rightarrow> bool" where
  "closes text = (case text of [] \<Rightarrow> False | c # _ \<Rightarrow> c = QUOTE)"

definition first_closing :: "string list \<Rightarrow> nat option" where
  "first_closing texts = find (\<lambda>i. closes (texts ! i)) [0..<length texts]"

definition enum_allowed_cont :: "tokenizer \<Rightarrow> string \<Rightarrow> nat \<Rightarrow> bool list" where
  "enum_allowed_cont tk buf width =
     map (\<lambda>i. (i < length (tk_texts tk) \<and> tk_texts tk ! i \<noteq> [] \<and> on_trie (buf @ tk_texts tk ! i)) \<or>
              (buf \<in> set enum_ids \<and> first_closing (tk_texts tk) = Some i)) [0..<width]"

text \<open>
  \<open>_apply\<close>: blocked positions become minus infinity; a mask shorter than the logits blocks the
  rest. Numpy refuses a mask longer than the logits and a stop id out of range.
\<close>

datatype mask_error = Shape_Mismatch | Index_Out_Of_Range

type_synonym logits = "rat option list"

definition blocked_mask :: "tokenizer \<Rightarrow> bool list \<Rightarrow> nat \<Rightarrow> gstate option \<Rightarrow> mask_error + bool list" where
  "blocked_mask tk allowed width s =
     (if width < length allowed then Inl Shape_Mismatch
      else
        let m = map Not allowed @ replicate (width - length allowed) True in
        if s = Some S_DONE then
          (if list_all (\<lambda>i. i < width) (stop_ids tk) then Inr (fold (\<lambda>i m. m[i := False]) (stop_ids tk) m)
           else Inl Index_Out_Of_Range)
        else Inr m)"

definition apply_mask :: "tokenizer \<Rightarrow> bool list \<Rightarrow> logits \<Rightarrow> gstate option \<Rightarrow> mask_error + logits" where
  "apply_mask tk allowed ls s =
     res_bind (blocked_mask tk allowed (length ls) s) (\<lambda>m. Inr (map2 (\<lambda>b l. if b then None else l) m ls))"

section \<open>The processor\<close>

record mask_state =
  ms_prompt_lens :: "(nat list, nat) dict"
  ms_seq :: "(nat list, tracker \<times> nat) dict"

definition CACHE_LIMIT :: nat where "CACHE_LIMIT = 8192"

definition bounded_set :: "nat list \<Rightarrow> 'v \<Rightarrow> (nat list, 'v) dict \<Rightarrow> (nat list, 'v) dict" where
  "bounded_set key v d = (let d1 = dict_set key v d in if CACHE_LIMIT < length d1 then [] else d1)"

definition prompt_len :: "nat list \<Rightarrow> mask_state \<Rightarrow> nat \<times> mask_state" where
  "prompt_len ids ms =
     (let key = take 16 ids in
      case map_of (ms_prompt_lens ms) key of
        Some pl \<Rightarrow> if length ids < pl
          then (length ids, ms\<lparr>ms_prompt_lens := bounded_set key (length ids) (ms_prompt_lens ms)\<rparr>) else (pl, ms)
      | None \<Rightarrow> (length ids, ms\<lparr>ms_prompt_lens := bounded_set key (length ids) (ms_prompt_lens ms)\<rparr>))"

text \<open>When the table of sequences overflows it is cleared and holds only the new sequence.\<close>

definition sequence_entry :: "nat list \<Rightarrow> mask_state \<Rightarrow> (tracker \<times> nat) \<times> mask_state" where
  "sequence_entry key ms =
     (case map_of (ms_seq ms) key of
        Some e \<Rightarrow> (e, ms)
      | None \<Rightarrow>
          let d = dict_set key (tracker_init, 0) (ms_seq ms) in
          ((tracker_init, 0), ms\<lparr>ms_seq := (if CACHE_LIMIT < length d then [(key, (tracker_init, 0))] else d)\<rparr>))"

definition advance_tracker :: "tokenizer \<Rightarrow> nat list \<Rightarrow> tracker \<times> nat \<Rightarrow> tracker \<times> nat" where
  "advance_tracker tk gen e =
     (if snd e < length gen then (feed_text (tk_decode tk (drop (snd e) gen)) (fst e), length gen) else e)"

definition mask_logits :: "tokenizer \<Rightarrow> tracker \<Rightarrow> logits \<Rightarrow> mask_error + logits" where
  "mask_logits tk t ls =
     (if tr_in_str t \<and> tr_pred_open t then
        (if on_trie (tr_pred_buf t) then apply_mask tk (enum_allowed_cont tk (tr_pred_buf t) (length ls)) ls None else Inr ls)
      else case compile_mask tk (tr_state t) of
          None \<Rightarrow> Inr ls
        | Some allowed \<Rightarrow> if list_all id allowed then Inr ls else apply_mask tk allowed ls (Some (tr_state t)))"

definition processor :: "tokenizer \<Rightarrow> nat list \<Rightarrow> logits \<Rightarrow> mask_state \<Rightarrow> (mask_error + logits) \<times> mask_state" where
  "processor tk ids ls ms =
     (let key = take 16 ids;
          (pl, ms1) = prompt_len ids ms;
          (e, ms2) = sequence_entry key ms1;
          e' = advance_tracker tk (drop pl ids) e in
      (mask_logits tk (fst e') ls, ms2\<lparr>ms_seq := dict_set key e' (ms_seq ms2)\<rparr>))"

section \<open>The tracker refines the parser\<close>

definition parse_of :: "tracker \<Rightarrow> parse_state" where
  "parse_of t = \<lparr>ps_stack = tr_stack t, ps_in_str = tr_in_str t, ps_in_key = tr_in_key t, ps_esc = tr_esc t,
     ps_state = tr_state t\<rparr>"

definition body_state :: "tracker \<Rightarrow> bool" where
  "body_state t = (tr_in_str t \<longrightarrow> tr_state t = (if tr_in_key t then S_KEY_BODY else S_STR_BODY))"

lemma feed_commutes: "parse_of (feed ch t) = parse_char ch (parse_of t)"
proof (cases "tr_in_str t")
  case True
  then show ?thesis by (auto simp add: feed_def feed_in_str_def parse_char_def parse_of_def Let_def)
next
  case False
  then show ?thesis by (auto simp add: feed_def feed_structure_def parse_char_def parse_of_def Let_def)
qed

lemma feed_body: "body_state t \<Longrightarrow> body_state (feed ch t)"
  by (auto simp: feed_def feed_in_str_def feed_structure_def body_state_def Let_def)

interpretation mask_parity: simulation feed parse_char parse_of body_state
  by unfold_locales (rule feed_commutes, rule feed_body)

text \<open>
  C31. The incremental tracker refines the offline parser: after any characters whatever, fed one
  by one, the tracker is in exactly the state the parser computes from the whole prefix, and its
  stack, string and escape flags are the parser's.
\<close>

theorem tracker_refines_parser:
  "tr_state (feed_text cs tracker_init) = state_for cs \<and>
   parse_of (feed_text cs tracker_init) = fold parse_char cs parse_init"
proof -
  have i: "parse_of tracker_init = parse_init" "body_state tracker_init"
    by (simp_all add: parse_of_def parse_init_def tracker_init_def body_state_def)
  have f: "parse_of (feed_text cs tracker_init) = fold parse_char cs parse_init" "body_state (feed_text cs tracker_init)"
    using mask_parity.fold_commutes [OF i(2), of cs] by (simp_all add: feed_text_def i(1))
  then show ?thesis
    by (auto simp: state_for_def Let_def body_state_def parse_of_def simp flip: f(1))
qed

section \<open>Predicate strings\<close>

text \<open>Decoding under the mask: every sampled token has a finite masked logit.\<close>

fun emits :: "tokenizer \<Rightarrow> (nat \<times> logits) list \<Rightarrow> tracker \<Rightarrow> tracker option" where
  "emits tk [] t = Some t"
| "emits tk ((i, ls) # steps) t =
     (case mask_logits tk t ls of
        Inl _ \<Rightarrow> None
      | Inr out \<Rightarrow> if i < length out \<and> out ! i \<noteq> None then emits tk steps (feed_text (tk_texts tk ! i) t) else None)"

definition in_predicate :: "tracker \<Rightarrow> bool" where
  "in_predicate t = (tr_in_str t \<and> tr_pred_open t \<and> \<not> tr_esc t \<and> \<not> tr_in_key t)"

lemma enum_plain: "e \<in> set enum_ids \<Longrightarrow> QUOTE \<notin> set e \<and> BACKSLASH \<notin> set e"
proof -
  have "list_all (\<lambda>e. QUOTE \<notin> set e \<and> BACKSLASH \<notin> set e) enum_ids" by code_simp
  then show "e \<in> set enum_ids \<Longrightarrow> QUOTE \<notin> set e \<and> BACKSLASH \<notin> set e" by (auto simp: list_all_iff)
qed

lemma on_trie_iff: "on_trie buf \<longleftrightarrow> (\<exists>e \<in> set enum_ids. prefix buf e)"
  by (auto simp: on_trie_def list_ex_iff)

lemma feed_plain:
  assumes "in_predicate t" "QUOTE \<notin> set cs" "BACKSLASH \<notin> set cs"
  shows "in_predicate (feed_text cs t) \<and> tr_pred_buf (feed_text cs t) = tr_pred_buf t @ cs"
  using assms
proof (induction cs arbitrary: t)
  case (Cons c cs)
  have "in_predicate (feed c t)" "tr_pred_buf (feed c t) = tr_pred_buf t @ [c]"
    using Cons.prems by (auto simp: in_predicate_def feed_def feed_in_str_def Let_def)
  then show ?case using Cons.IH [of "feed c t"] Cons.prems by (simp add: feed_text_def)
qed (simp add: feed_text_def)

lemma finite_logit_allowed:
  assumes "apply_mask tk allowed ls s = Inr out" "i < length out" "out ! i \<noteq> None" "s \<noteq> Some S_DONE"
  shows "i < length allowed \<and> allowed ! i"
proof -
  obtain m where m: "blocked_mask tk allowed (length ls) s = Inr m" "out = map2 (\<lambda>b l. if b then None else l) m ls"
    using assms(1) by (auto simp: apply_mask_def)
  then have "m = map Not allowed @ replicate (length ls - length allowed) True" "length allowed \<le> length ls"
    using assms(4) by (auto simp: blocked_mask_def Let_def split: if_splits)
  then show ?thesis using assms(2,3) m(2) by (auto simp: nth_append split: if_splits)
qed

lemma masked_predicate_token:
  assumes "in_predicate t" "on_trie (tr_pred_buf t)" "mask_logits tk t ls = Inr out" "i < length out" "out ! i \<noteq> None"
  shows "(tr_pred_buf t \<in> set enum_ids \<and> closes (tk_texts tk ! i)) \<or>
    (in_predicate (feed_text (tk_texts tk ! i) t) \<and> on_trie (tr_pred_buf t @ tk_texts tk ! i) \<and>
     tr_pred_buf (feed_text (tk_texts tk ! i) t) = tr_pred_buf t @ tk_texts tk ! i)"
proof -
  let ?al = "enum_allowed_cont tk (tr_pred_buf t) (length ls)" and ?txt = "tk_texts tk ! i"
  have "apply_mask tk ?al ls None = Inr out" using assms(1-3) by (simp add: mask_logits_def in_predicate_def)
  then have "i < length ?al" "?al ! i" using finite_logit_allowed assms(4,5) by blast+
  then consider "on_trie (tr_pred_buf t @ ?txt)" | "tr_pred_buf t \<in> set enum_ids" "first_closing (tk_texts tk) = Some i"
    by (auto simp: enum_allowed_cont_def)
  then show ?thesis
  proof cases
    case 1
    then obtain e where e: "e \<in> set enum_ids" "prefix (tr_pred_buf t @ ?txt) e" by (auto simp: on_trie_iff)
    then have "QUOTE \<notin> set ?txt" "BACKSLASH \<notin> set ?txt" using enum_plain [OF e(1)] by (auto simp: prefix_def)
    then show ?thesis using feed_plain [OF assms(1)] 1 by blast
  next
    case 2
    then have "closes ?txt" by (auto simp: first_closing_def find_Some_iff)
    then show ?thesis using 2 by blast
  qed
qed

lemma masked_predicate_run:
  assumes "in_predicate t" "on_trie (tr_pred_buf t)" "emits tk steps t = Some u"
  shows "(in_predicate u \<and> tr_pred_buf u = tr_pred_buf t @ concat (map (\<lambda>(i, _). tk_texts tk ! i) steps) \<and> on_trie (tr_pred_buf u)) \<or>
    (\<exists>pre i rest. map fst steps = pre @ i # rest \<and> tr_pred_buf t @ concat (map (\<lambda>i. tk_texts tk ! i) pre) \<in> set enum_ids \<and>
       closes (tk_texts tk ! i))"
  using assms
proof (induction steps arbitrary: t)
  case (Cons p steps)
  obtain i ls where p: "p = (i, ls)" by (cases p)
  obtain out where o: "mask_logits tk t ls = Inr out" "i < length out" "out ! i \<noteq> None"
    "emits tk steps (feed_text (tk_texts tk ! i) t) = Some u"
    using Cons.prems(3) unfolding p by (auto split: sum.splits if_splits)
  from masked_predicate_token [OF Cons.prems(1,2) o(1-3)] show ?case
  proof
    assume "tr_pred_buf t \<in> set enum_ids \<and> closes (tk_texts tk ! i)"
    then have "map fst (p # steps) = [] @ i # map fst steps \<and>
        tr_pred_buf t @ concat (map (\<lambda>i. tk_texts tk ! i) []) \<in> set enum_ids \<and> closes (tk_texts tk ! i)"
      by (simp add: p)
    then show ?thesis by blast
  next
    assume a: "in_predicate (feed_text (tk_texts tk ! i) t) \<and> on_trie (tr_pred_buf t @ tk_texts tk ! i) \<and>
      tr_pred_buf (feed_text (tk_texts tk ! i) t) = tr_pred_buf t @ tk_texts tk ! i"
    then consider "in_predicate u \<and> tr_pred_buf u = tr_pred_buf t @ concat (map (\<lambda>(i, _). tk_texts tk ! i) (p # steps)) \<and>
        on_trie (tr_pred_buf u)"
      | pre j rest where "map fst steps = pre @ j # rest" "closes (tk_texts tk ! j)"
        "tr_pred_buf t @ concat (map (\<lambda>i. tk_texts tk ! i) (i # pre)) \<in> set enum_ids"
      using Cons.IH [of "feed_text (tk_texts tk ! i) t"] o(4) by (auto simp: p)
    then show ?thesis
    proof cases
      case 1
      then show ?thesis by blast
    next
      case 2
      then have "map fst (p # steps) = (i # pre) @ j # rest" by (simp add: p)
      then show ?thesis using 2(2,3) by blast
    qed
  qed
qed simp

text \<open>
  A masked predicate is an ontology id: whatever tokens are sampled among those the mask
  leaves finite from the moment a predicate string opens, the string so far is a prefix of an
  ontology id, and the first token that closes it is only available when the body is complete,
  that is exactly one of the ids.
\<close>

theorem masked_predicate_is_enum:
  assumes "in_predicate t" "tr_pred_buf t = []" "emits tk steps t = Some u"
  shows "(in_predicate u \<and> tr_pred_buf u = concat (map (\<lambda>(i, _). tk_texts tk ! i) steps) \<and> on_trie (tr_pred_buf u)) \<or>
    (\<exists>pre i rest. map fst steps = pre @ i # rest \<and> concat (map (\<lambda>i. tk_texts tk ! i) pre) \<in> set enum_ids \<and>
       closes (tk_texts tk ! i))"
proof -
  have "on_trie (tr_pred_buf t)" unfolding assms(2) by code_simp
  from masked_predicate_run [OF assms(1) this assms(3)] show ?thesis unfolding assms(2) append_Nil .
qed

text \<open>A vocabulary of five tokens, and the tracker at an open predicate string.\<close>

definition demo_tok :: tokenizer where
  "demo_tok = \<lparr>tk_texts = [''IS'', ''_A'', [QUOTE], ''x'', ''{''], tk_decode = \<lambda>_. [], tk_eos_token_ids = [], tk_eos_token_id = None\<rparr>"

definition demo_predicate :: tracker where
  "demo_predicate = feed_text (''{'' @ QUOTE # ''predicate'' @ QUOTE # '':'' @ [QUOTE]) tracker_init"

definition demo_logits :: logits where "demo_logits = replicate 5 (Some 0)"

theorem masked_predicate_is_enum_witness:
  "\<exists>u. emits demo_tok [(0, demo_logits), (1, demo_logits)] demo_predicate = Some u \<and> on_trie (tr_pred_buf u) \<and>
    emits demo_tok [(0, demo_logits), (2, demo_logits)] demo_predicate = None \<and>
    emits demo_tok [(3, demo_logits)] demo_predicate = None"
proof -
  have p: "in_predicate demo_predicate" "tr_pred_buf demo_predicate = []" by code_simp+
  have n: "emits demo_tok [(0, demo_logits), (2, demo_logits)] demo_predicate = None"
    "emits demo_tok [(3, demo_logits)] demo_predicate = None"
    "(case emits demo_tok [(0, demo_logits), (1, demo_logits)] demo_predicate of None \<Rightarrow> False | Some u \<Rightarrow> True)"
    "\<not> closes (tk_texts demo_tok ! 0)" "\<not> closes (tk_texts demo_tok ! 1)" by code_simp+
  then obtain u where u: "emits demo_tok [(0, demo_logits), (1, demo_logits)] demo_predicate = Some u"
    by (auto split: option.splits)
  have "\<not> (\<exists>pre i rest. map fst [(0::nat, demo_logits), (1, demo_logits)] = pre @ i # rest \<and> closes (tk_texts demo_tok ! i))"
    using n(4,5) by (auto simp: Cons_eq_append_conv)
  then have "on_trie (tr_pred_buf u)" using masked_predicate_is_enum [OF p u] by blast
  then show ?thesis using u n(1,2) by blast
qed

section \<open>What the mask lets through\<close>

text \<open>
  Array elements: after a comma inside an array the state is the one that only offers another
  comma or the closing bracket, and right after an opening bracket the closing one is not
  offered; so neither a second element nor an empty array can be produced token by token.
\<close>

lemma comma_in_array_blocks_values:
  assumes "\<not> tr_in_str t" "top_is (CHR ''['') (tr_stack t)"
  shows "pattern (tr_state (feed (CHR '','') t)) = Some (after_ws '',]'')"
  using assms
  by (auto simp: feed_def feed_structure_def Let_def opens_def closes_container_def QUOTE_def top_is_def split: list.splits)

lemma second_element_blocked:
  "\<not> after_ws '',]'' [QUOTE]" "\<not> after_ws '',]'' ''{''" "\<not> after_ws '',]'' ''['' " "\<not> after_ws '',]'' ''1''" "\<not> after_ws '',]'' ''t''"
  "pattern (tr_state (feed_text ''['' t)) = Some p \<Longrightarrow> \<not> tr_in_str t \<Longrightarrow> \<not> p '']''"
proof -
  show "\<not> after_ws '',]'' [QUOTE]" "\<not> after_ws '',]'' ''{''" "\<not> after_ws '',]'' ''['' " "\<not> after_ws '',]'' ''1''" "\<not> after_ws '',]'' ''t''"
    by code_simp+
  have "\<not> after_ws (''{['' @ QUOTE # DIGITS @ ''-tfn'') '']''" by code_simp
  then show "pattern (tr_state (feed_text ''['' t)) = Some p \<Longrightarrow> \<not> tr_in_str t \<Longrightarrow> \<not> p '']''"
    by (auto simp: feed_text_def feed_def feed_structure_def Let_def opens_def QUOTE_def)
qed

text \<open>
  Sequences are told apart by their first sixteen tokens only: once a prompt with these tokens
  has been seen, a longer prompt sharing them has its tail read as generated text by the tracker
  of the earlier sequence.
\<close>

lemma shared_prefix_read_as_generated:
  assumes "map_of (ms_prompt_lens ms) (take 16 ids) = Some pl" "pl \<le> length ids"
    "map_of (ms_seq ms) (take 16 ids) = Some (t, n)" "n < length ids - pl"
  shows "map_of (ms_seq (snd (processor tk ids ls ms))) (take 16 ids) =
    Some (feed_text (tk_decode tk (drop (n + pl) ids)) t, length ids - pl)"
  using assms by (simp add: processor_def prompt_len_def sequence_entry_def advance_tracker_def Let_def)

end
