(* ===== verification/Dedup.thy ===== *)
theory Dedup
  imports Py_Strings
begin

text \<open>
  The near-duplicate document guard of the intake stage (\<^verbatim>\<open>shared/polymath_shared/dedup.py\<close>):
  the shingle fingerprint of a text, the exact overlap of two fingerprints, the size prune, the
  candidates of an incoming document and the verdict. A fingerprint is a finite set of strings;
  similarities are exact rationals, and the environment is a function from variable names to
  values. Python's \<open>float()\<close> of a non-empty string is the argument \<open>float_of\<close>.
\<close>

section \<open>The fingerprint\<close>

definition DUPLICATE_STOP_WORDS :: "string list" where
  "DUPLICATE_STOP_WORDS =
     [''and'', ''are'', ''but'', ''for'', ''from'', ''have'', ''into'', ''not'', ''the'', ''that'',
      ''this'', ''with'', ''you'', ''your'', ''their'', ''there'', ''then'', ''than'', ''was'',
      ''were'', ''will'', ''would'', ''could'', ''should'', ''about'', ''which'']"

definition DEFAULT_SHINGLE_K :: nat where "DEFAULT_SHINGLE_K = 5"
definition DEFAULT_JACCARD_THRESHOLD :: rat where "DEFAULT_JACCARD_THRESHOLD = 1 / 10"
definition MIN_SHINGLES :: nat where "MIN_SHINGLES = 24"
definition CERTAIN_CONTAINMENT :: rat where "CERTAIN_CONTAINMENT = 95 / 100"
definition LIKELY_CONTAINMENT :: rat where "LIKELY_CONTAINMENT = 65 / 100"
definition DEFAULT_SCAN_DOCS :: int where "DEFAULT_SCAN_DOCS = 250"

lemmas dedup_consts = DEFAULT_SHINGLE_K_def DEFAULT_JACCARD_THRESHOLD_def MIN_SHINGLES_def
  CERTAIN_CONTAINMENT_def LIKELY_CONTAINMENT_def DEFAULT_SCAN_DOCS_def

text \<open>A token is a match of \<open>[a-zA-Z][a-zA-Z0-9_'-]{2,}\<close>.\<close>

definition token_char :: "char \<Rightarrow> bool" where
  "token_char c \<longleftrightarrow> is_alpha c \<or> py_isdigit c \<or> c \<in> set ''_-'' \<or> of_char c = (39 :: nat)"

definition content_words :: "string list \<Rightarrow> string list" where
  "content_words texts =
     concat (map (\<lambda>text. filter (\<lambda>w. w \<noteq> [] \<and> w \<notin> set DUPLICATE_STOP_WORDS)
       (map (strip_chars [char_of (39 :: nat), CHR ''_'', CHR ''-'']) (regex_words is_alpha token_char 2 (py_lower text)))) texts)"

text \<open>The windows of \<open>k\<close> consecutive words, joined by a space.\<close>

definition k_grams :: "nat \<Rightarrow> 'a list \<Rightarrow> 'a list set" where
  "k_grams k ws = (if length ws < k then {} else set (map (\<lambda>i. take k (drop i ws)) [0..<length ws - k + 1]))"

definition shingle_set :: "nat \<Rightarrow> string list \<Rightarrow> string set" where
  "shingle_set k texts = py_join CHR '' '' ` k_grams k (content_words texts)"

section \<open>Overlap\<close>

definition overlap :: "'a set \<Rightarrow> 'a set \<Rightarrow> rat \<times> rat" where
  "overlap incoming existing =
     (if incoming = {} \<or> existing = {} then (0, 0)
      else let inter = card (incoming \<inter> existing) in
        if inter = 0 then (0, 0)
        else let un = card incoming + card existing - inter in
          (if un \<noteq> 0 then of_nat inter / of_nat un else 0, of_nat inter / of_nat (card incoming)))"

definition can_exceed_jaccard :: "nat \<Rightarrow> nat \<Rightarrow> rat \<Rightarrow> bool" where
  "can_exceed_jaccard size_a size_b threshold =
     (if size_a = 0 \<or> size_b = 0 then False
      else threshold \<le> of_nat (min size_a size_b) / of_nat (max size_a size_b))"

datatype dup_confidence = Certain | Likely | Review
datatype dup_verdict = Refuse | Flag | Clear

definition classify_confidence :: "rat \<Rightarrow> rat \<Rightarrow> rat \<Rightarrow> dup_confidence" where
  "classify_confidence containment certain likely =
     (if certain \<le> containment then Certain else if likely \<le> containment then Likely else Review)"

section \<open>Knobs\<close>

record guard_knobs =
  gk_enabled :: bool
  gk_jaccard :: rat
  gk_refuse :: rat
  gk_likely :: rat
  gk_scan_docs :: int
  gk_shingle_k :: nat
  gk_min_shingles :: nat

definition DEFAULT_KNOBS :: guard_knobs where
  "DEFAULT_KNOBS = \<lparr>gk_enabled = True, gk_jaccard = DEFAULT_JACCARD_THRESHOLD, gk_refuse = CERTAIN_CONTAINMENT,
     gk_likely = LIKELY_CONTAINMENT, gk_scan_docs = DEFAULT_SCAN_DOCS, gk_shingle_k = DEFAULT_SHINGLE_K,
     gk_min_shingles = MIN_SHINGLES\<rparr>"

definition env_float :: "(string \<Rightarrow> rat option) \<Rightarrow> (string \<Rightarrow> string option) \<Rightarrow> string \<Rightarrow> rat \<Rightarrow> rat" where
  "env_float float_of env name dflt =
     (let raw = py_strip (case env name of None \<Rightarrow> [] | Some s \<Rightarrow> s) in
      if raw = [] then dflt else case float_of raw of None \<Rightarrow> dflt | Some x \<Rightarrow> x)"

definition knobs_of_env :: "(string \<Rightarrow> rat option) \<Rightarrow> (string \<Rightarrow> string option) \<Rightarrow> guard_knobs" where
  "knobs_of_env float_of env = DEFAULT_KNOBS\<lparr>
     gk_enabled := py_lower (py_strip (case env ''POLYMATH_INTAKE_NEAR_DUPLICATE_GUARD'' of None \<Rightarrow> ''1'' | Some s \<Rightarrow> s))
       \<notin> set [''0'', ''false'', ''off'', ''no''],
     gk_jaccard := env_float float_of env ''POLYMATH_INTAKE_NEAR_DUPLICATE_JACCARD'' DEFAULT_JACCARD_THRESHOLD,
     gk_refuse := env_float float_of env ''POLYMATH_INTAKE_NEAR_DUPLICATE_CONTAINMENT'' CERTAIN_CONTAINMENT,
     gk_scan_docs := int_trunc (env_float float_of env ''POLYMATH_INTAKE_NEAR_DUPLICATE_SCAN_DOCS'' (of_int DEFAULT_SCAN_DOCS))\<rparr>"

section \<open>Candidates and verdict\<close>

text \<open>\<open>round(x, 4)\<close>.\<close>

definition round4 :: "rat \<Rightarrow> rat" where
  "round4 x = of_int (py_round (x * 10000)) / 10000"

record dup_candidate =
  dup_doc :: string
  dup_source :: string
  dup_jaccard :: rat
  dup_containment :: rat
  dup_tier :: dup_confidence
  dup_shingles :: nat

definition candidate_of :: "guard_knobs \<Rightarrow> string \<Rightarrow> string \<Rightarrow> nat \<Rightarrow> rat \<times> rat \<Rightarrow> dup_candidate" where
  "candidate_of knobs doc_id source_name n jc =
     \<lparr>dup_doc = doc_id, dup_source = source_name, dup_jaccard = round4 (fst jc), dup_containment = round4 (snd jc),
      dup_tier = classify_confidence (snd jc) (gk_refuse knobs) (gk_likely knobs), dup_shingles = n\<rparr>"

definition dup_rank :: "dup_candidate \<Rightarrow> rat \<times> rat \<times> string" where
  "dup_rank c = (- dup_containment c, - dup_jaccard c, dup_doc c)"

fun compare_docs ::
  "guard_knobs \<Rightarrow> string set \<Rightarrow> (string \<times> string \<times> string set) list \<Rightarrow> dup_candidate list \<times> nat" where
  "compare_docs knobs incoming [] = ([], 0)"
| "compare_docs knobs incoming ((doc_id, source_name, fp) # rest) =
     (let (out, compared) = compare_docs knobs incoming rest in
      if card fp < gk_min_shingles knobs then (out, compared + 1)
      else if \<not> can_exceed_jaccard (card incoming) (card fp) (gk_jaccard knobs) then (out, compared + 1)
      else let jc = overlap incoming fp in
        if fst jc < gk_jaccard knobs then (out, compared + 1)
        else (candidate_of knobs doc_id source_name (card fp) jc # out, compared + 1))"

definition near_duplicate_candidates ::
  "guard_knobs \<Rightarrow> nat \<Rightarrow> string set \<Rightarrow> (string \<times> string \<times> string set) list \<Rightarrow> dup_candidate list \<times> nat" where
  "near_duplicate_candidates knobs limit incoming existing =
     (if card incoming < gk_min_shingles knobs then ([], 0)
      else let (out, compared) = compare_docs knobs incoming existing in
        (take limit (sort_key dup_rank out), compared))"

definition decide :: "guard_knobs \<Rightarrow> bool \<Rightarrow> dup_candidate list \<Rightarrow> dup_verdict" where
  "decide knobs override candidates =
     (case candidates of [] \<Rightarrow> Clear
      | best # _ \<Rightarrow> if gk_refuse knobs \<le> dup_containment best \<and> \<not> override then Refuse else Flag)"

section \<open>Overlap lemmas\<close>

lemma card_le_max: "card (A :: 'a set) \<le> max (card A) (card B)" "card B \<le> max (card A) (card B)"
  by simp_all

lemma overlap_jaccard_le:
  assumes "finite A" "finite B" "A \<noteq> {}" "B \<noteq> {}"
  shows "fst (overlap A B) \<le> of_nat (min (card A) (card B)) / of_nat (max (card A) (card B))"
proof (cases "card (A \<inter> B) = 0")
  case True
  then show ?thesis by (simp add: overlap_def Let_def)
next
  case False
  have un: "card A + card B - card (A \<inter> B) = card (A \<union> B)" using assms card_Un_Int [of A B] by simp
  have "card (A \<inter> B) \<le> min (card A) (card B)" using assms by (simp add: card_mono)
  moreover have "max (card A) (card B) \<le> card (A \<union> B)" using assms by (simp add: card_mono)
  moreover have "0 < max (card A) (card B)" using assms by (simp add: card_gt_0_iff less_max_iff_disj)
  ultimately have "(of_nat (card (A \<inter> B)) :: rat) / of_nat (card (A \<union> B)) \<le>
      of_nat (min (card A) (card B)) / of_nat (max (card A) (card B))"
    by (intro frac_le) (simp_all only: of_nat_0_le_iff of_nat_le_iff of_nat_0_less_iff)
  then show ?thesis using assms False un by (auto simp: overlap_def Let_def)
qed

lemma prune_is_sound:
  assumes "finite A" "finite B" "0 < t" "t \<le> fst (overlap A B)"
  shows "can_exceed_jaccard (card A) (card B) t"
proof -
  have ne: "A \<noteq> {}" "B \<noteq> {}" using assms(3,4) by (auto simp: overlap_def)
  then have "card A \<noteq> 0" "card B \<noteq> 0" using assms by simp_all
  then show ?thesis using overlap_jaccard_le [OF assms(1,2) ne] assms(4) by (simp add: can_exceed_jaccard_def)
qed

lemma overlap_bounds:
  assumes "finite A" "finite B"
  shows "0 \<le> fst (overlap A B) \<and> fst (overlap A B) \<le> snd (overlap A B) \<and> snd (overlap A B) \<le> 1"
proof (cases "A = {} \<or> B = {} \<or> card (A \<inter> B) = 0")
  case True
  then show ?thesis by (auto simp: overlap_def Let_def)
next
  case False
  have un: "card A + card B - card (A \<inter> B) = card (A \<union> B)" using assms card_Un_Int [of A B] by simp
  have "card (A \<inter> B) \<le> card A" "card A \<le> card (A \<union> B)" using assms by (simp_all add: card_mono)
  moreover have "0 < card A" using False assms by (simp add: card_gt_0_iff)
  ultimately have "(of_nat (card (A \<inter> B)) :: rat) / of_nat (card (A \<union> B)) \<le> of_nat (card (A \<inter> B)) / of_nat (card A)"
    "(of_nat (card (A \<inter> B)) :: rat) / of_nat (card A) \<le> 1"
    by (auto intro!: divide_left_mono simp: divide_le_eq_1)
  then show ?thesis using False un by (auto simp: overlap_def Let_def)
qed

lemma containment_one:
  assumes "finite A" "A \<noteq> {}"
  shows "snd (overlap A B) = 1 \<longleftrightarrow> A \<subseteq> B"
proof
  assume "snd (overlap A B) = 1"
  then have "card (A \<inter> B) = card A" by (auto simp: overlap_def Let_def split: if_splits)
  then have "A \<inter> B = A" using assms by (intro card_subset_eq) auto
  then show "A \<subseteq> B" by blast
next
  assume "A \<subseteq> B"
  then have "A \<inter> B = A" "B \<noteq> {}" using assms by blast+
  then show "snd (overlap A B) = 1" using assms by (simp add: overlap_def Let_def)
qed

lemma overlap_image:
  assumes "inj_on f (A \<union> B)"
  shows "overlap (f ` A) (f ` B) = overlap A B"
proof -
  have "card (f ` A) = card A" "card (f ` B) = card B" using assms by (auto intro: card_image inj_on_subset)
  moreover have "f ` A \<inter> f ` B = f ` (A \<inter> B)" using assms by (intro inj_on_image_Int [symmetric]) auto
  moreover have "card (f ` (A \<inter> B)) = card (A \<inter> B)" using assms by (auto intro: card_image inj_on_subset)
  ultimately show ?thesis by (simp add: overlap_def Let_def)
qed

section \<open>Fingerprint lemmas\<close>

lemma no_space_token: "token_char c \<Longrightarrow> c \<noteq> CHR '' ''"
  by (auto simp: token_char_def is_alpha_def py_isdigit_def)

lemma content_word_no_space: "w \<in> set (content_words texts) \<Longrightarrow> CHR '' '' \<notin> set w"
  using strip_chars_subset regex_word_chars [of is_alpha token_char] no_space_token
  by (fastforce simp: content_words_def list_all_iff token_char_def)

lemma k_grams_words: "g \<in> k_grams k ws \<Longrightarrow> length g = k \<and> set g \<subseteq> set ws"
  by (auto simp: k_grams_def split: if_splits dest!: in_set_takeD in_set_dropD)

lemma finite_k_grams [simp]: "finite (k_grams k ws)"
  by (simp add: k_grams_def)

lemma finite_shingles [simp]: "finite (shingle_set k texts)"
  by (simp add: shingle_set_def)

text \<open>
  The fingerprint measures shared runs of words and nothing else: the overlap of two shingle
  sets, computed on joined strings, is the overlap of the sets of \<open>k\<close>-word windows of the two
  texts, so no two different windows are ever confused by the join; the Jaccard value lies between
  0 and the containment, which lies below 1; and the containment is 1 exactly when every window of
  a non-empty incoming text occurs in the existing one.
\<close>

theorem fingerprint_measures_shared_windows:
  fixes incoming existing :: "string list"
  assumes "0 < k"
  shows "overlap (shingle_set k incoming) (shingle_set k existing) =
      overlap (k_grams k (content_words incoming)) (k_grams k (content_words existing)) \<and>
    (let (jaccard, containment) = overlap (shingle_set k incoming) (shingle_set k existing) in
      0 \<le> jaccard \<and> jaccard \<le> containment \<and> containment \<le> 1 \<and>
      (shingle_set k incoming \<noteq> {} \<longrightarrow>
        (containment = 1 \<longleftrightarrow> k_grams k (content_words incoming) \<subseteq> k_grams k (content_words existing))))"
proof -
  let ?I = "k_grams k (content_words incoming)" and ?E = "k_grams k (content_words existing)"
  have inj: "inj_on (py_join CHR '' '') (?I \<union> ?E)"
  proof (rule inj_onI)
    fix x y
    assume xy: "x \<in> ?I \<union> ?E" "y \<in> ?I \<union> ?E" and eq: "py_join CHR '' '' x = py_join CHR '' '' y"
    have len: "length x = k" "length y = k" using xy k_grams_words by blast+
    have words: "set x \<union> set y \<subseteq> set (content_words incoming) \<union> set (content_words existing)"
      using xy k_grams_words by blast
    show "x = y"
    proof (rule py_join_inj [OF eq])
      show "\<forall>s \<in> set x \<union> set y. CHR '' '' \<notin> set s" using words content_word_no_space by blast
    qed (use len assms in auto)
  qed
  have eq: "overlap (shingle_set k incoming) (shingle_set k existing) = overlap ?I ?E"
    unfolding shingle_set_def by (rule overlap_image [OF inj])
  have ne: "shingle_set k incoming \<noteq> {} \<longleftrightarrow> ?I \<noteq> {}" by (simp add: shingle_set_def)
  show ?thesis
    using eq ne overlap_bounds [of ?I ?E] containment_one [of ?I ?E] by (simp add: case_prod_beta Let_def)
qed

lemma demo_words: "content_words [''The cat''] = [''cat'']"
  by code_simp

theorem fingerprint_measures_shared_windows_witness:
  "snd (overlap (shingle_set 1 [''The cat'']) (shingle_set 1 [''cat sat''])) = 1"
proof -
  have words: "content_words [''cat sat''] = [''cat'', ''sat'']" by code_simp
  have "shingle_set 1 [''The cat''] \<noteq> {}" by (simp add: shingle_set_def demo_words k_grams_def)
  moreover have "k_grams 1 (content_words [''The cat'']) \<subseteq> k_grams 1 (content_words [''cat sat''])"
    by (simp add: demo_words words k_grams_def upt_rec)
  ultimately show ?thesis
    using fingerprint_measures_shared_windows [of 1 "[''The cat'']" "[''cat sat'']"] by (auto simp: case_prod_beta)
qed

section \<open>The guard\<close>

text \<open>The specification: no prune, one comprehension over the existing documents.\<close>

definition related :: "guard_knobs \<Rightarrow> string set \<Rightarrow> string set \<Rightarrow> bool" where
  "related knobs incoming fp \<longleftrightarrow> gk_min_shingles knobs \<le> card fp \<and> gk_jaccard knobs \<le> fst (overlap incoming fp)"

definition spec_candidates :: "guard_knobs \<Rightarrow> string set \<Rightarrow> (string \<times> string \<times> string set) list \<Rightarrow> dup_candidate list" where
  "spec_candidates knobs incoming existing =
     map (\<lambda>(d, s, fp). candidate_of knobs d s (card fp) (overlap incoming fp))
       (filter (\<lambda>(d, s, fp). related knobs incoming fp) existing)"

lemma compare_docs_spec:
  assumes "finite incoming" "\<forall>(d, s, fp) \<in> set existing. finite fp" "0 < gk_jaccard knobs"
  shows "compare_docs knobs incoming existing = (spec_candidates knobs incoming existing, length existing)"
  using assms(2)
proof (induction existing)
  case (Cons x rest)
  obtain d s fp where x: "x = (d, s, fp)" by (cases x)
  have "compare_docs knobs incoming rest = (spec_candidates knobs incoming rest, length rest)" using Cons by auto
  moreover have "related knobs incoming fp \<longrightarrow> can_exceed_jaccard (card incoming) (card fp) (gk_jaccard knobs)"
    using prune_is_sound [OF assms(1) _ assms(3), of fp] Cons.prems x by (auto simp: related_def)
  ultimately show ?case
    by (cases "card fp < gk_min_shingles knobs") (auto simp: x spec_candidates_def related_def Let_def)
qed (simp add: spec_candidates_def)

lemma round4_mono: "x \<le> y \<Longrightarrow> round4 x \<le> round4 y"
proof -
  have mono: "py_round a \<le> py_round b" if "a \<le> b" for a b :: rat
  proof (cases "\<lfloor>a\<rfloor> = \<lfloor>b\<rfloor>")
    case True
    then show ?thesis using that by (auto simp: py_round_def Let_def)
  next
    case False
    then have "\<lfloor>a\<rfloor> + 1 \<le> \<lfloor>b\<rfloor>" using floor_mono [OF that] by linarith
    moreover have "py_round a \<le> \<lfloor>a\<rfloor> + 1" "\<lfloor>b\<rfloor> \<le> py_round b" by (auto simp: py_round_def Let_def)
    ultimately show ?thesis by linarith
  qed
  assume "x \<le> y"
  then show ?thesis using mono [of "x * 10000" "y * 10000"] by (simp add: round4_def divide_right_mono)
qed

lemma sorted_head_le:
  assumes "sort_key f xs = y # ys" "x \<in> set xs"
  shows "f y \<le> f x"
proof -
  have "sorted (map f (y # ys))" using assms(1) sorted_sort_key [of f xs] by simp
  moreover have "x \<in> set (y # ys)" using assms set_sort [of f xs] by auto
  ultimately show ?thesis by auto
qed

text \<open>
  C19. The guard finds what an exhaustive scan finds. With a positive Jaccard threshold the
  candidates it reports are exactly the documents with enough shingles whose Jaccard similarity
  reaches the threshold, best containment first (ties by Jaccard, then document id), cut to the
  limit: the size prune never drops one. It counts every document it was given as compared, and
  an incoming text with too few shingles is compared with none.
\<close>

theorem guard_equals_exhaustive_scan:
  assumes "finite incoming" "\<forall>(d, s, fp) \<in> set existing. finite fp" "0 < gk_jaccard knobs"
  shows "near_duplicate_candidates knobs limit incoming existing =
    (if card incoming < gk_min_shingles knobs then ([], 0)
     else (take limit (sort_key dup_rank (spec_candidates knobs incoming existing)), length existing))"
  by (simp add: near_duplicate_candidates_def compare_docs_spec [OF assms])

theorem guard_equals_exhaustive_scan_witness:
  "near_duplicate_candidates (DEFAULT_KNOBS\<lparr>gk_min_shingles := 1\<rparr>) 3 {''a''} [(''d'', ''n'', {''a''})] =
    (take 3 (sort_key dup_rank (spec_candidates (DEFAULT_KNOBS\<lparr>gk_min_shingles := 1\<rparr>) {''a''} [(''d'', ''n'', {''a''})])), 1)"
  using guard_equals_exhaustive_scan [of "{''a''}" "[(''d'', ''n'', {''a''})]" "DEFAULT_KNOBS\<lparr>gk_min_shingles := 1\<rparr>" 3]
  by (simp add: DEFAULT_KNOBS_def dedup_consts)

lemma guard_candidates:
  assumes "finite incoming" "\<forall>(d, s, fp) \<in> set existing. finite fp" "0 < gk_jaccard knobs"
    "gk_min_shingles knobs \<le> card incoming" "0 < limit"
  shows "decide knobs override (fst (near_duplicate_candidates knobs limit incoming existing)) =
    (case sort_key dup_rank (spec_candidates knobs incoming existing) of [] \<Rightarrow> Clear
     | c # _ \<Rightarrow> if gk_refuse knobs \<le> dup_containment c \<and> \<not> override then Refuse else Flag)"
  using assms(4,5) by (auto simp: near_duplicate_candidates_def compare_docs_spec [OF assms(1-3)] decide_def gr0_conv_Suc split: list.splits)

lemma best_containment:
  assumes "sort_key dup_rank cs = c # rest" "x \<in> set cs"
  shows "dup_containment x \<le> dup_containment c"
  using sorted_head_le [OF assms] by (auto simp: dup_rank_def less_eq_prod_def)

lemma sort_key_Nil: "sort_key f xs = [] \<longleftrightarrow> xs = []"
  by (metis length_0_conv length_sort)



text \<open>
  The tier of a candidate comes from the exact containment, the verdict from the rounded one:
  a text just below the threshold is recorded as likely and yet refused.
\<close>

lemma refused_as_likely:
  "dup_tier (candidate_of DEFAULT_KNOBS d s n (1 / 2, 18999 / 20000)) = Likely \<and>
   decide DEFAULT_KNOBS False [candidate_of DEFAULT_KNOBS d s n (1 / 2, 18999 / 20000)] = Refuse"
proof -
  have half: "\<lfloor>18999 / 2 :: rat\<rfloor> = 9499" by (simp add: floor_eq_iff)
  have "odd (9499 :: int)" by simp
  then show ?thesis
    by (simp add: candidate_of_def DEFAULT_KNOBS_def dedup_consts classify_confidence_def decide_def round4_def
        py_round_def Let_def half)
qed

end
