(* ===== verification/Pass1.thy ===== *)
theory Pass1
  imports Py_Strings
begin

text \<open>
  The Pass-1 retrieval engine (\<^verbatim>\<open>shared/polymath_shared/pass1.py\<close>): four routing lanes, their
  reciprocal-rank fusion into documents, the sections of the winning documents, the filtered
  descent to child chunks, the global child rescue, the demotion of noisy regions, the bounded cut
  that reserves rescue seats, the order-only reranking and the expansion to neighbours.

  Everything the engine calls is the record \<open>retrieval_env\<close>: the embedder, the name of a corpus's
  collection, the routing search, and the optional reranker, neighbour lookup and region lookup.
  A lookup that raises is \<open>None\<close>; the source swallows those exceptions. Similarities and fusion
  scores are exact rationals. A dict of the source with fixed keys is a record whose optional
  fields stand for the keys that only some of them have.
\<close>

section \<open>Plan\<close>

datatype lane_kind = Document_Summary | Section_Summary | Child_Lane | Child_Lexical | Entity_Card

datatype arrival = Document_Led | Section_Led | Global_Child_Rescue | Multi_Representation
  | Neighbor_Expansion | Lexical_Rescue | Latent_Rescue

record retrieval_plan =
  rp_corpora :: "string list option"
  rp_document_enabled :: bool
  rp_document_top_k :: int
  rp_section_enabled :: bool
  rp_section_top_k :: int
  rp_child_enabled :: bool
  rp_child_top_k :: int
  rp_card_enabled :: bool
  rp_card_top_k :: int
  rp_card_max_docs :: int
  rp_rrf_k :: int
  rp_max_documents :: int
  rp_max_sections :: int
  rp_max_children :: int
  rp_rescue_max :: int
  rp_rerank_enabled :: bool
  rp_final_children :: int
  rp_final_items :: int
  rp_reserved :: int
  rp_neighbors :: int
  rp_neighbors_max :: int
  rp_demote :: bool

definition PASS1_DEFAULT_PLAN :: retrieval_plan where
  "PASS1_DEFAULT_PLAN =
     \<lparr>rp_corpora = None, rp_document_enabled = True, rp_document_top_k = 10, rp_section_enabled = True,
      rp_section_top_k = 12, rp_child_enabled = True, rp_child_top_k = 24, rp_card_enabled = True,
      rp_card_top_k = 8, rp_card_max_docs = 4, rp_rrf_k = 60, rp_max_documents = 5, rp_max_sections = 3,
      rp_max_children = 3, rp_rescue_max = 3, rp_rerank_enabled = True, rp_final_children = 12,
      rp_final_items = 15, rp_reserved = 2, rp_neighbors = 0, rp_neighbors_max = 8, rp_demote = True\<rparr>"

text \<open>\<open>xs[:n]\<close>: a negative \<open>n\<close> drops from the end.\<close>

definition py_upto :: "int \<Rightarrow> 'a list \<Rightarrow> 'a list" where
  "py_upto n xs = take (nat (if 0 \<le> n then n else int (length xs) + n)) xs"

definition opt_or :: "'a \<Rightarrow> 'a option \<Rightarrow> 'a" where
  "opt_or d x = (case x of None \<Rightarrow> d | Some y \<Rightarrow> y)"

section \<open>Lanes and documents\<close>

record lane_hit =
  lh_kind :: lane_kind
  lh_rank :: nat
  lh_similarity :: rat
  lh_corpus :: string
  lh_doc :: string
  lh_parent :: string
  lh_chunk :: string
  lh_summary :: string
  lh_source :: string
  lh_text :: string

record document_candidate =
  cand_doc :: string
  cand_corpus :: string
  cand_documents :: "lane_hit list"
  cand_cards :: "lane_hit list"
  cand_sections :: "lane_hit list"
  cand_children :: "lane_hit list"
  cand_lexical :: "lane_hit list"
  cand_rrf :: "(lane_kind, rat) dict"
  cand_best_document :: "nat option"
  cand_best_section :: "nat option"
  cand_best_child :: "nat option"
  cand_best_lexical :: "nat option"
  cand_score :: rat
  cand_rank :: int

definition representation_kinds_present :: "document_candidate \<Rightarrow> lane_kind list" where
  "representation_kinds_present c =
     (if cand_documents c = [] then [] else [Document_Summary]) @
     (if cand_sections c = [] then [] else [Section_Summary]) @
     (if cand_children c = [] then [] else [Child_Lane]) @
     (if cand_lexical c = [] then [] else [Child_Lexical]) @
     (if cand_cards c = [] then [] else [Entity_Card])"

definition new_candidate :: "lane_hit \<Rightarrow> document_candidate" where
  "new_candidate h = \<lparr>cand_doc = lh_doc h, cand_corpus = lh_corpus h, cand_documents = [], cand_cards = [],
     cand_sections = [], cand_children = [], cand_lexical = [], cand_rrf = [], cand_best_document = None,
     cand_best_section = None, cand_best_child = None, cand_best_lexical = None, cand_score = 0, cand_rank = - 1\<rparr>"

text \<open>\<open>1.0 / (k + rank + 1)\<close>.\<close>

definition rrf_score :: "nat \<Rightarrow> int \<Rightarrow> rat" where
  "rrf_score rank k = 1 / of_int (k + int rank + 1)"

definition append_hit :: "lane_kind \<Rightarrow> lane_hit \<Rightarrow> document_candidate \<Rightarrow> document_candidate" where
  "append_hit kind h c = (case kind of
       Document_Summary \<Rightarrow> c\<lparr>cand_documents := cand_documents c @ [h]\<rparr>
     | Section_Summary \<Rightarrow> c\<lparr>cand_sections := cand_sections c @ [h]\<rparr>
     | Child_Lane \<Rightarrow> c\<lparr>cand_children := cand_children c @ [h]\<rparr>
     | Child_Lexical \<Rightarrow> c\<lparr>cand_lexical := cand_lexical c @ [h]\<rparr>
     | Entity_Card \<Rightarrow> c\<lparr>cand_cards := cand_cards c @ [h]\<rparr>)"

definition add_rrf :: "lane_kind \<Rightarrow> rat \<Rightarrow> document_candidate \<Rightarrow> document_candidate" where
  "add_rrf kind x c = c\<lparr>cand_rrf := dict_set kind (opt_or 0 (map_of (cand_rrf c) kind) + x) (cand_rrf c)\<rparr>"

text \<open>One hit of a lane; \<open>seen\<close> is the documents the lane has already voted for.\<close>

definition vote :: "int \<Rightarrow> lane_kind \<Rightarrow> lane_hit \<Rightarrow>
    (string, document_candidate) dict \<times> string list \<Rightarrow> (string, document_candidate) dict \<times> string list" where
  "vote k kind h bs =
     (let (by_doc, seen) = bs;
          c = append_hit kind h (opt_or (new_candidate h) (map_of by_doc (lh_doc h)))
      in if lh_doc h \<in> set seen then (dict_set (lh_doc h) c by_doc, seen)
         else (dict_set (lh_doc h) (add_rrf kind (rrf_score (lh_rank h) k) c) by_doc, lh_doc h # seen))"

definition vote_lane :: "int \<Rightarrow> lane_kind \<times> lane_hit list \<Rightarrow>
    (string, document_candidate) dict \<Rightarrow> (string, document_candidate) dict" where
  "vote_lane k lane by_doc = fst (fold (vote k (fst lane)) (snd lane) (by_doc, []))"

definition best_rank :: "lane_hit list \<Rightarrow> nat option" where
  "best_rank hits = (case map lh_rank hits of [] \<Rightarrow> None | r # rs \<Rightarrow> Some (py_min (\<lambda>x. x) r rs))"

definition score_candidate :: "document_candidate \<Rightarrow> document_candidate" where
  "score_candidate c = c\<lparr>cand_score := sum_list (map snd (cand_rrf c)),
     cand_best_document := best_rank (cand_documents c), cand_best_section := best_rank (cand_sections c),
     cand_best_child := best_rank (cand_children c), cand_best_lexical := best_rank (cand_lexical c)\<rparr>"

definition doc_order :: "document_candidate \<Rightarrow> rat \<times> string" where
  "doc_order c = (- cand_score c, cand_doc c)"

definition number_ranks :: "document_candidate list \<Rightarrow> document_candidate list" where
  "number_ranks cs = map2 (\<lambda>i c. c\<lparr>cand_rank := int i\<rparr>) [0..<length cs] cs"

definition aggregate_documents_n :: "(lane_kind \<times> lane_hit list) list \<Rightarrow> int \<Rightarrow> document_candidate list" where
  "aggregate_documents_n lanes k =
     number_ranks (sort_key doc_order (map score_candidate (map snd (fold (vote_lane k) lanes []))))"

definition aggregate_documents ::
  "lane_hit list \<Rightarrow> lane_hit list \<Rightarrow> lane_hit list \<Rightarrow> int \<Rightarrow> document_candidate list" where
  "aggregate_documents doc_lane section_lane child_lane k =
     aggregate_documents_n [(Document_Summary, doc_lane), (Section_Summary, section_lane), (Child_Lane, child_lane)] k"

section \<open>Sections\<close>

datatype section_origin = From_Section_Summary | From_Child_Rescue | From_Lexical_Rescue

record section_slot =
  sec_doc :: string
  sec_parent :: string
  sec_summary :: string
  sec_source :: string
  sec_rank :: nat
  sec_similarity :: rat
  sec_from :: "section_origin list"

definition section_by_summary :: "string \<Rightarrow> lane_hit \<Rightarrow> (string, section_slot) dict \<Rightarrow> (string, section_slot) dict" where
  "section_by_summary doc_id h d =
     (case map_of d (lh_parent h) of
        None \<Rightarrow> dict_set (lh_parent h) \<lparr>sec_doc = doc_id, sec_parent = lh_parent h, sec_summary = lh_summary h,
          sec_source = lh_source h, sec_rank = lh_rank h, sec_similarity = lh_similarity h, sec_from = [From_Section_Summary]\<rparr> d
      | Some s \<Rightarrow> if lh_rank h < sec_rank s
          then dict_set (lh_parent h) (s\<lparr>sec_rank := lh_rank h, sec_similarity := lh_similarity h\<rparr>) d else d)"

definition section_by_child :: "string \<Rightarrow> lane_hit \<Rightarrow> (string, section_slot) dict \<Rightarrow> (string, section_slot) dict" where
  "section_by_child doc_id h d =
     (case map_of d (lh_parent h) of
        None \<Rightarrow> dict_set (lh_parent h) \<lparr>sec_doc = doc_id, sec_parent = lh_parent h, sec_summary = [],
          sec_source = lh_source h, sec_rank = lh_rank h, sec_similarity = lh_similarity h, sec_from = [From_Child_Rescue]\<rparr> d
      | Some s \<Rightarrow> dict_set (lh_parent h) (s\<lparr>sec_from := sec_from s @ [From_Child_Rescue]\<rparr>) d)"

definition section_order :: "section_slot \<Rightarrow> nat \<times> string" where
  "section_order s = (sec_rank s, sec_parent s)"

definition doc_sections :: "int \<Rightarrow> document_candidate \<Rightarrow> section_slot list" where
  "doc_sections max_sections doc =
     py_upto max_sections (sort_key section_order (map snd
       (fold (section_by_child (cand_doc doc)) (cand_children doc)
         (fold (section_by_summary (cand_doc doc)) (cand_sections doc) []))))"

definition resolve_sections :: "document_candidate list \<Rightarrow> int \<Rightarrow> section_slot list" where
  "resolve_sections docs max_sections = concat (map (doc_sections max_sections) docs)"

section \<open>Child candidates\<close>

record child_item =
  ch_chunk :: string
  ch_doc :: string
  ch_parent :: string
  ch_text :: string
  ch_source :: string
  ch_similarity :: "rat option"
  ch_arrival :: arrival
  ch_depth_rank :: "nat option"
  ch_global_rank :: "nat option"
  ch_lexical_rank :: "nat option"
  ch_latent_rank :: "nat option"
  ch_document_rank :: "int option"
  ch_role :: "string option"
  ch_rerank :: "rat option"

definition child_of_hit :: "arrival \<Rightarrow> lane_hit \<Rightarrow> child_item" where
  "child_of_hit a h = \<lparr>ch_chunk = lh_chunk h, ch_doc = lh_doc h, ch_parent = lh_parent h, ch_text = lh_text h,
     ch_source = lh_source h, ch_similarity = Some (lh_similarity h), ch_arrival = a, ch_depth_rank = None,
     ch_global_rank = None, ch_lexical_rank = None, ch_latent_rank = None, ch_document_rank = None, ch_role = None, ch_rerank = None\<rparr>"

text \<open>\<open>_truncate_reserving_rescue\<close>.\<close>

definition truncate_reserving_rescue :: "child_item list \<Rightarrow> int \<Rightarrow> int \<Rightarrow> arrival list \<Rightarrow> child_item list" where
  "truncate_reserving_rescue candidates limit reserved rescue_arrivals =
     (if limit \<le> 0 \<or> int (length candidates) \<le> limit
      then (if 0 \<le> limit then py_upto limit candidates else candidates)
      else let rescue = filter (\<lambda>c. ch_arrival c \<in> set rescue_arrivals) candidates in
        if rescue = [] \<or> reserved \<le> 0 then py_upto limit candidates
        else let seats = min (min reserved (int (length rescue))) limit;
                 hierarchy = filter (\<lambda>c. ch_arrival c \<notin> set rescue_arrivals) candidates;
                 kept_ids = map ch_chunk (py_upto (limit - seats) hierarchy) @ map ch_chunk (py_upto seats rescue)
             in py_upto limit (filter (\<lambda>c. ch_chunk c \<in> set kept_ids) candidates))"

record neighbor_row =
  nb_chunk :: "string option"
  nb_doc :: "string option"
  nb_parent :: "string option"
  nb_text :: "string option"
  nb_source :: "string option"

definition child_of_neighbor :: "string \<Rightarrow> neighbor_row \<Rightarrow> child_item" where
  "child_of_neighbor cid n = \<lparr>ch_chunk = cid, ch_doc = opt_or [] (nb_doc n), ch_parent = opt_or [] (nb_parent n),
     ch_text = opt_or [] (nb_text n), ch_source = opt_or [] (nb_source n), ch_similarity = None,
     ch_arrival = Neighbor_Expansion, ch_depth_rank = None, ch_global_rank = None, ch_lexical_rank = None, ch_latent_rank = None,
     ch_document_rank = None, ch_role = None, ch_rerank = None\<rparr>"

fun admit_neighbors :: "int \<Rightarrow> string list \<Rightarrow> child_item list \<Rightarrow> neighbor_row list \<Rightarrow> child_item list" where
  "admit_neighbors cap have_ids added [] = added"
| "admit_neighbors cap have_ids added (n # ns) =
     (let cid = opt_or [] (nb_chunk n) in
      if cid = [] \<or> cid \<in> set have_ids then admit_neighbors cap have_ids added ns
      else let added' = added @ [child_of_neighbor cid n] in
        if cap \<le> int (length added') then added' else admit_neighbors cap (cid # have_ids) added' ns)"

type_synonym neighbor_lookup = "(string \<times> string) list \<Rightarrow> int \<Rightarrow> neighbor_row list option"

text \<open>\<open>_expand_neighbors\<close>: distance and cap of the plan, then the lookup.\<close>

definition expand_neighbors ::
  "child_item list \<Rightarrow> int \<Rightarrow> int \<Rightarrow> neighbor_lookup option \<Rightarrow> child_item list \<times> nat" where
  "expand_neighbors candidates distance cap lookup =
     (case lookup of None \<Rightarrow> (candidates, 0) | Some look \<Rightarrow>
        if distance \<le> 0 \<or> candidates = [] then (candidates, 0)
        else let want = map (\<lambda>c. (ch_doc c, ch_chunk c)) (filter (\<lambda>c. ch_doc c \<noteq> [] \<and> ch_chunk c \<noteq> []) candidates) in
          case look want distance of None \<Rightarrow> (candidates, 0)
          | Some neighbours \<Rightarrow>
              let added = admit_neighbors cap (map ch_chunk candidates) [] neighbours
              in (candidates @ added, length added))"

section \<open>Searching a lane\<close>

record routing_row =
  rr_score :: "rat option"
  rr_corpus :: "string option"
  rr_doc :: "string option"
  rr_docs :: "string list"
  rr_parent :: "string option"
  rr_chunk :: "string option"
  rr_summary :: "string option"
  rr_source :: "string option"
  rr_text :: "string option"

record search_filter =
  sf_kind :: lane_kind
  sf_corpus :: "string option"
  sf_doc :: "string option"
  sf_parent :: "string option"

record 'v retrieval_env =
  re_embed :: "string \<Rightarrow> 'v"
  re_collection :: "string \<Rightarrow> string"
  re_search :: "string \<Rightarrow> 'v \<Rightarrow> search_filter \<Rightarrow> routing_row list"
  re_rerank :: "(string \<Rightarrow> child_item list \<Rightarrow> child_item list) option"
  re_neighbors :: "neighbor_lookup option"
  re_regions :: "(string list \<Rightarrow> (string, string) dict option) option"

text \<open>\<open>NOISY_ROLES\<close> and \<open>is_noisy\<close> of \<^verbatim>\<open>shared/polymath_shared/document_region.py\<close>.\<close>

definition NOISY_ROLES :: "string list" where
  "NOISY_ROLES = [''front_matter'', ''marketing'', ''toc'', ''noise_ocr'', ''index'', ''bibliography'', ''ocr_noise'']"

definition is_noisy :: "string option \<Rightarrow> bool" where
  "is_noisy role = (case role of None \<Rightarrow> False | Some r \<Rightarrow> r \<in> set NOISY_ROLES)"

definition hits_of_row :: "retrieval_plan \<Rightarrow> lane_kind \<Rightarrow> string option \<Rightarrow> nat \<Rightarrow> routing_row \<Rightarrow> lane_hit list" where
  "hits_of_row plan kind cid i row =
     (let hit = \<lparr>lh_kind = kind, lh_rank = i, lh_similarity = opt_or 0 (rr_score row),
                 lh_corpus = opt_or (opt_or [] cid) (rr_corpus row), lh_doc = opt_or [] (rr_doc row),
                 lh_parent = opt_or [] (rr_parent row), lh_chunk = opt_or [] (rr_chunk row),
                 lh_summary = opt_or [] (rr_summary row), lh_source = opt_or [] (rr_source row),
                 lh_text = opt_or [] (rr_text row)\<rparr> in
      if kind = Entity_Card then
        if rp_card_top_k plan \<le> int i then []
        else let docs = (if rr_docs row = [] \<and> opt_or [] (rr_doc row) \<noteq> [] then [opt_or [] (rr_doc row)] else rr_docs row)
             in map (\<lambda>d. hit\<lparr>lh_doc := d, lh_parent := [], lh_chunk := []\<rparr>) (py_upto (rp_card_max_docs plan) docs)
      else [hit])"

text \<open>One collection: its corpus id (if any) and its name.\<close>

definition search_collection :: "retrieval_plan \<Rightarrow> 'v retrieval_env \<Rightarrow> 'v \<Rightarrow> search_filter \<Rightarrow> int \<Rightarrow>
    string option \<times> string option \<Rightarrow> lane_hit list" where
  "search_collection plan env qvec extra top_k coll =
     (let cid = fst coll;
          filters = (case cid of None \<Rightarrow> extra | Some c \<Rightarrow> if c = [] then extra else extra\<lparr>sf_corpus := Some c\<rparr>);
          rows = py_upto top_k (re_search env (opt_or [] (snd coll)) qvec filters)
      in concat (map2 (hits_of_row plan (sf_kind extra) cid) [0..<length rows] rows))"

definition collections :: "retrieval_plan \<Rightarrow> 'v retrieval_env \<Rightarrow> (string option \<times> string option) list" where
  "collections plan env =
     (if opt_or [] (rp_corpora plan) = [] then [(None, None)]
      else map (\<lambda>cid. (Some cid, Some (re_collection env cid))) (opt_or [] (rp_corpora plan)))"

definition hit_order :: "lane_hit \<Rightarrow> rat \<times> string \<times> string" where
  "hit_order h = (- lh_similarity h, lh_doc h, lh_parent h)"

definition noisy_hit_order :: "(string, string) dict \<Rightarrow> lane_hit \<Rightarrow> nat \<times> rat \<times> string \<times> string" where
  "noisy_hit_order roles h = (if is_noisy (map_of roles (lh_chunk h)) then 1 else 0, hit_order h)"

text \<open>The roles a lookup gives for a list of chunk ids; no lookup, or one that raises, gives none.\<close>

definition region_roles :: "retrieval_plan \<Rightarrow> 'v retrieval_env \<Rightarrow> string list \<Rightarrow> (string, string) dict" where
  "region_roles plan env ids =
     (if rp_demote plan then case re_regions env of None \<Rightarrow> [] | Some look \<Rightarrow> opt_or [] (look ids) else [])"

definition demote_hits :: "retrieval_plan \<Rightarrow> 'v retrieval_env \<Rightarrow> lane_kind \<Rightarrow> lane_hit list \<Rightarrow> lane_hit list" where
  "demote_hits plan env kind hits =
     (if kind = Child_Lane \<and> hits \<noteq> [] then
        let roles = region_roles plan env (filter (\<lambda>c. c \<noteq> []) (map lh_chunk hits)) in
        if roles = [] then hits else sort_key (noisy_hit_order roles) hits
      else hits)"

definition number_hits :: "lane_hit list \<Rightarrow> lane_hit list" where
  "number_hits hits = map2 (\<lambda>i h. h\<lparr>lh_rank := i\<rparr>) [0..<length hits] hits"

definition search_lane :: "retrieval_plan \<Rightarrow> 'v retrieval_env \<Rightarrow> 'v \<Rightarrow> lane_kind \<Rightarrow> int \<Rightarrow>
    string option \<Rightarrow> string option \<Rightarrow> lane_hit list" where
  "search_lane plan env qvec kind top_k doc parent =
     (let extra = \<lparr>sf_kind = kind, sf_corpus = None, sf_doc = doc, sf_parent = parent\<rparr>;
          hits = concat (map (search_collection plan env qvec extra top_k) (collections plan env))
      in py_upto top_k (number_hits (demote_hits plan env kind (sort_key hit_order hits))))"

section \<open>The engine\<close>

definition dict_add :: "'k \<Rightarrow> 'v \<Rightarrow> ('k, 'v) dict \<Rightarrow> ('k, 'v) dict" where
  "dict_add k v d = (if map_of d k = None then d @ [(k, v)] else d)"

definition deepen_section :: "retrieval_plan \<Rightarrow> 'v retrieval_env \<Rightarrow> 'v \<Rightarrow> section_slot \<Rightarrow>
    (string, child_item) dict \<Rightarrow> (string, child_item) dict" where
  "deepen_section plan env qvec s d =
     fold (\<lambda>h d. dict_add (lh_chunk h) (child_of_hit Section_Led h\<lparr>ch_depth_rank := Some (lh_rank h)\<rparr>) d)
       (py_upto (rp_max_children plan)
         (search_lane plan env qvec Child_Lane (rp_max_children plan) (Some (sec_doc s)) (Some (sec_parent s)))) d"

definition rescue_children :: "retrieval_plan \<Rightarrow> (string, child_item) dict \<Rightarrow> lane_hit list \<Rightarrow> (string, child_item) dict" where
  "rescue_children plan deepened child_lane =
     fold (\<lambda>h d. if map_of deepened (lh_chunk h) \<noteq> None then d
                 else dict_add (lh_chunk h) (child_of_hit Global_Child_Rescue h\<lparr>ch_global_rank := Some (lh_rank h)\<rparr>) d)
       (py_upto (rp_rescue_max plan) child_lane) []"

definition depth_order :: "child_item \<Rightarrow> nat" where
  "depth_order c = opt_or (10 ^ 9) (ch_depth_rank c)"

definition global_order :: "child_item \<Rightarrow> nat" where
  "global_order c = opt_or (10 ^ 9) (ch_global_rank c)"

definition document_children :: "child_item list \<Rightarrow> document_candidate \<Rightarrow> child_item list" where
  "document_children deepened doc =
     map (\<lambda>c. let c' = (if cand_best_child doc \<noteq> None \<and> list_ex (\<lambda>h. lh_chunk h = ch_chunk c) (cand_children doc)
                         then c\<lparr>ch_arrival := Multi_Representation\<rparr> else c)
              in c'\<lparr>ch_document_rank := Some (cand_rank doc)\<rparr>)
       (sort_key depth_order (filter (\<lambda>c. ch_doc c = cand_doc doc) deepened))"

fun dedupe_chunks :: "string list \<Rightarrow> child_item list \<Rightarrow> child_item list" where
  "dedupe_chunks seen [] = []"
| "dedupe_chunks seen (c # cs) =
     (if ch_chunk c \<in> set seen then dedupe_chunks seen cs else c # dedupe_chunks (ch_chunk c # seen) cs)"

definition noisy_child :: "child_item \<Rightarrow> nat" where
  "noisy_child c = (if is_noisy (ch_role c) then 1 else 0)"

text \<open>The demotion before the cut, with the two counters of the trace.\<close>

definition demote_children :: "retrieval_plan \<Rightarrow> 'v retrieval_env \<Rightarrow> child_item list \<Rightarrow> child_item list \<times> nat \<times> nat" where
  "demote_children plan env cs =
     (let roles = (if cs = [] then [] else region_roles plan env (map ch_chunk cs)) in
      if roles = [] then (cs, 0, 0)
      else let marked = map (\<lambda>c. c\<lparr>ch_role := map_of roles (ch_chunk c)\<rparr>) cs;
               sunk = sort_key noisy_child marked;
               noisy = length (filter (\<lambda>c. is_noisy (ch_role c)) marked);
               moved = length (filter (\<lambda>(c, b). is_noisy (ch_role c) \<and> b \<noteq> ch_chunk c) (zip sunk (map ch_chunk cs)))
           in (sunk, noisy, if noisy \<noteq> 0 \<and> moved = 0 then noisy else moved))"

datatype retrieval_error = G3_Changed_The_Candidate_Set

text \<open>The reranker may only permute: its order and its scores are taken over, nothing else of it.\<close>

definition rerank_stage :: "retrieval_plan \<Rightarrow> 'v retrieval_env \<Rightarrow> string \<Rightarrow> child_item list \<Rightarrow>
    retrieval_error + (string list \<times> child_item list)" where
  "rerank_stage plan env query cs =
     (case re_rerank env of None \<Rightarrow> Inr (map ch_chunk cs, cs)
      | Some rerank \<Rightarrow>
          if \<not> rp_rerank_enabled plan \<or> cs = [] then Inr (map ch_chunk cs, cs)
          else let reranked = rerank query cs; post = map ch_chunk reranked in
            if set post \<noteq> ch_chunk ` set cs then Inl G3_Changed_The_Candidate_Set
            else Inr (post, map (\<lambda>c. c\<lparr>ch_rerank := opt_or None (map_of (rev (map (\<lambda>r. (ch_chunk r, ch_rerank r)) reranked)) (ch_chunk c))\<rparr>)
              (sort_key (\<lambda>c. index_of (ch_chunk c) post) cs)))"

fun fill_items :: "int \<Rightarrow> child_item list \<Rightarrow> child_item list \<Rightarrow> child_item list" where
  "fill_items cap acc [] = acc"
| "fill_items cap acc (c # cs) = (if cap \<le> int (length acc) then acc else fill_items cap (acc @ [c]) cs)"

fun fill_rest :: "int \<Rightarrow> child_item list \<Rightarrow> child_item list \<Rightarrow> child_item list" where
  "fill_rest cap acc [] = acc"
| "fill_rest cap acc (c # cs) =
     (if cap \<le> int (length acc) then acc
      else if ch_chunk c \<in> ch_chunk ` set acc then fill_rest cap acc cs
      else fill_rest cap (acc @ [c]) cs)"

definition final_evidence :: "int \<Rightarrow> document_candidate list \<Rightarrow> child_item list \<Rightarrow> child_item list" where
  "final_evidence cap docs cs =
     fill_rest cap (fold (\<lambda>d acc. fill_items cap acc (filter (\<lambda>c. ch_doc c = cand_doc d) cs)) docs []) cs"

record pass1_result =
  p1_document_lane :: "lane_hit list"
  p1_section_lane :: "lane_hit list"
  p1_child_lane :: "lane_hit list"
  p1_documents :: "document_candidate list"
  p1_selected :: "document_candidate list"
  p1_sections :: "section_slot list"
  p1_deepened :: "child_item list"
  p1_rescue :: "child_item list"
  p1_evidence :: "child_item list"
  p1_union :: "string list"
  p1_pre_g3 :: "string list"
  p1_post_g3 :: "string list"
  p1_rescue_seated :: nat
  p1_neighbors_added :: nat
  p1_noisy :: "nat \<times> nat"

definition lane_or_nil :: "bool \<Rightarrow> lane_hit list \<Rightarrow> lane_hit list" where
  "lane_or_nil enabled hits = (if enabled then hits else [])"

text \<open>Everything up to the cut: lanes, documents, sections, and the deduplicated candidates.\<close>

definition gather :: "retrieval_plan \<Rightarrow> 'v retrieval_env \<Rightarrow> 'v \<Rightarrow> pass1_result" where
  "gather plan env qvec =
     (let doc_lane = lane_or_nil (rp_document_enabled plan)
            (search_lane plan env qvec Document_Summary (rp_document_top_k plan) None None);
          section_lane = lane_or_nil (rp_section_enabled plan)
            (search_lane plan env qvec Section_Summary (rp_section_top_k plan) None None);
          child_lane = lane_or_nil (rp_child_enabled plan)
            (search_lane plan env qvec Child_Lane (rp_child_top_k plan) None None);
          card_lane = lane_or_nil (rp_card_enabled plan)
            (search_lane plan env qvec Entity_Card (rp_card_top_k plan * rp_card_max_docs plan) None None);
          documents = aggregate_documents_n [(Document_Summary, doc_lane), (Section_Summary, section_lane),
            (Child_Lane, child_lane), (Entity_Card, card_lane)] (rp_rrf_k plan);
          selected = py_upto (rp_max_documents plan) documents;
          sections = resolve_sections selected (rp_max_sections plan);
          deepened = fold (deepen_section plan env qvec) sections [];
          rescue = rescue_children plan deepened child_lane
      in \<lparr>p1_document_lane = doc_lane, p1_section_lane = section_lane, p1_child_lane = child_lane,
          p1_documents = documents, p1_selected = selected, p1_sections = sections,
          p1_deepened = map snd deepened, p1_rescue = map snd rescue,
          p1_evidence = dedupe_chunks [] (concat (map (document_children (map snd deepened)) selected) @
            sort_key global_order (map snd rescue)),
          p1_union = [], p1_pre_g3 = [], p1_post_g3 = [], p1_rescue_seated = 0, p1_neighbors_added = 0,
          p1_noisy = (0, 0)\<rparr>)"

definition pass1_retrieve :: "retrieval_plan \<Rightarrow> 'v retrieval_env \<Rightarrow> string \<Rightarrow> retrieval_error + pass1_result" where
  "pass1_retrieve plan env query =
     (let g = gather plan env (re_embed env query);
          (sunk, noisy) = demote_children plan env (p1_evidence g);
          cut = truncate_reserving_rescue sunk (rp_final_children plan) (rp_reserved plan) [Global_Child_Rescue]
      in res_bind (rerank_stage plan env query cut) (\<lambda>(post, ranked).
           let (expanded, added) = expand_neighbors ranked (rp_neighbors plan) (rp_neighbors_max plan) (re_neighbors env);
               evidence = final_evidence (rp_final_items plan) (p1_selected g) expanded
           in Inr (g\<lparr>p1_evidence := evidence, p1_union := map ch_chunk sunk, p1_pre_g3 := map ch_chunk cut,
                p1_post_g3 := post, p1_noisy := noisy, p1_neighbors_added := added,
                p1_rescue_seated := length (filter (\<lambda>c. ch_arrival c = Global_Child_Rescue) evidence)\<rparr>)))"

end
