(* ===== verification/Pass1_Facts.thy ===== *)
theory Pass1_Facts
  imports Pass1
begin

text \<open>
  What Pass-1 guarantees: the fused document ranking is reciprocal-rank fusion, the cut keeps the
  rescue seats, and the evidence consists of child chunks only, each once, within the budget.
\<close>

section \<open>Fusion\<close>

lemma sum_dict_set:
  fixes x :: rat
  shows "sum_list (map snd (dict_set k (opt_or 0 (map_of d k) + x) d)) = sum_list (map snd d) + x"
  by (induction k x d rule: dict_set.induct) (auto simp: opt_or_def)

definition total :: "(string, document_candidate) dict \<Rightarrow> string \<Rightarrow> rat" where
  "total b d = (case map_of b d of None \<Rightarrow> 0 | Some c \<Rightarrow> sum_list (map snd (cand_rrf c)))"

definition lane_vote :: "int \<Rightarrow> lane_hit list \<Rightarrow> string \<Rightarrow> rat" where
  "lane_vote k hits d = (case find (\<lambda>h. lh_doc h = d) hits of None \<Rightarrow> 0 | Some h \<Rightarrow> rrf_score (lh_rank h) k)"

text \<open>Reciprocal-rank fusion: each lane votes once for a document, by its first hit there.\<close>

definition fusion_score :: "int \<Rightarrow> (lane_kind \<times> lane_hit list) list \<Rightarrow> string \<Rightarrow> rat" where
  "fusion_score k lanes d = (\<Sum>lane \<leftarrow> lanes. lane_vote k (snd lane) d)"

definition named :: "(string, document_candidate) dict \<Rightarrow> bool" where
  "named b \<longleftrightarrow> distinct (map fst b) \<and> (\<forall>(d, c) \<in> set b. cand_doc c = d)"

lemma cand_simps [simp]:
  "cand_rrf (append_hit kind h c) = cand_rrf c" "cand_doc (append_hit kind h c) = cand_doc c"
  "cand_doc (add_rrf kind x c) = cand_doc c" "cand_doc (new_candidate h) = lh_doc h" "cand_rrf (new_candidate h) = []"
  "cand_doc (score_candidate c) = cand_doc c" "cand_rrf (score_candidate c) = cand_rrf c"
  "cand_score (score_candidate c) = sum_list (map snd (cand_rrf c))"
  by (simp_all add: append_hit_def add_rrf_def new_candidate_def score_candidate_def split: lane_kind.splits)

lemma sum_add_rrf [simp]: "sum_list (map snd (cand_rrf (add_rrf kind x c))) = sum_list (map snd (cand_rrf c)) + x"
  by (simp add: add_rrf_def sum_dict_set)

lemma named_dict_set: "named b \<Longrightarrow> cand_doc c = d \<Longrightarrow> named (dict_set d c b)"
  unfolding named_def
proof (elim conjE, intro conjI)
  assume "distinct (map fst b)" then show "distinct (map fst (dict_set d c b))" by simp
next
  assume c: "cand_doc c = d" and b: "\<forall>(d, c) \<in> set b. cand_doc c = d"
  have "set (dict_set d c b) \<subseteq> insert (d, c) (set b)" by (induction d c b rule: dict_set.induct) auto
  then show "\<forall>(d, c) \<in> set (dict_set d c b). cand_doc c = d" using b c by blast
qed

lemma named_lookup: "named b \<Longrightarrow> map_of b d = Some c \<Longrightarrow> cand_doc c = d"
  unfolding named_def by (auto dest: map_of_SomeD)

lemma vote_cases:
  obtains c where "vote k kind h (b, seen) = (dict_set (lh_doc h) c b, if lh_doc h \<in> set seen then seen else lh_doc h # seen)"
    "named b \<Longrightarrow> cand_doc c = lh_doc h"
    "sum_list (map snd (cand_rrf c)) = total b (lh_doc h) + (if lh_doc h \<in> set seen then 0 else rrf_score (lh_rank h) k)"
proof (rule that)
  let ?c = "append_hit kind h (opt_or (new_candidate h) (map_of b (lh_doc h)))"
  let ?c' = "if lh_doc h \<in> set seen then ?c else add_rrf kind (rrf_score (lh_rank h) k) ?c"
  show "vote k kind h (b, seen) = (dict_set (lh_doc h) ?c' b, if lh_doc h \<in> set seen then seen else lh_doc h # seen)"
    by (simp add: vote_def Let_def)
  show "cand_doc ?c' = lh_doc h" if "named b"
    using named_lookup [OF that, of "lh_doc h"] by (auto simp: opt_or_def split: option.splits)
  show "sum_list (map snd (cand_rrf ?c')) = total b (lh_doc h) + (if lh_doc h \<in> set seen then 0 else rrf_score (lh_rank h) k)"
    by (auto simp: opt_or_def total_def split: option.splits)
qed

lemma vote_fold:
  assumes "named b"
  shows "named (fst (fold (vote k kind) hits (b, seen))) \<and>
    fst ` set (fst (fold (vote k kind) hits (b, seen))) = fst ` set b \<union> lh_doc ` set hits \<and>
    (\<forall>d. total (fst (fold (vote k kind) hits (b, seen))) d = total b d + (if d \<in> set seen then 0 else lane_vote k hits d))"
  using assms
proof (induction hits arbitrary: b seen)
  case (Cons h hits)
  obtain c where v: "vote k kind h (b, seen) = (dict_set (lh_doc h) c b, if lh_doc h \<in> set seen then seen else lh_doc h # seen)"
    and c: "cand_doc c = lh_doc h"
    and sum: "sum_list (map snd (cand_rrf c)) = total b (lh_doc h) + (if lh_doc h \<in> set seen then 0 else rrf_score (lh_rank h) k)"
    using vote_cases [of k kind h b seen] Cons.prems by metis
  let ?b = "dict_set (lh_doc h) c b" and ?seen = "if lh_doc h \<in> set seen then seen else lh_doc h # seen"
  note IH = Cons.IH [OF named_dict_set [OF Cons.prems c], of ?seen]
  have total': "total ?b d = (if d = lh_doc h then sum_list (map snd (cand_rrf c)) else total b d)" for d
    by (simp add: total_def)
  have "total (fst (fold (vote k kind) (h # hits) (b, seen))) d = total b d + (if d \<in> set seen then 0 else lane_vote k (h # hits) d)" for d
  proof (cases "d = lh_doc h")
    case True
    then show ?thesis using IH v total' [of d] sum by (simp add: lane_vote_def)
  next
    case False
    then have "lane_vote k (h # hits) d = lane_vote k hits d" "d \<in> set ?seen \<longleftrightarrow> d \<in> set seen" by (auto simp: lane_vote_def)
    then show ?thesis using IH v total' [of d] False by simp
  qed
  then show ?case using IH v by simp
qed (simp add: lane_vote_def)

lemma fuse_fold:
  assumes "named b"
  shows "named (fold (vote_lane k) lanes b) \<and>
    fst ` set (fold (vote_lane k) lanes b) = fst ` set b \<union> lh_doc ` (\<Union>lane \<in> set lanes. set (snd lane)) \<and>
    (\<forall>d. total (fold (vote_lane k) lanes b) d = total b d + fusion_score k lanes d)"
  using assms
proof (induction lanes arbitrary: b)
  case (Cons lane lanes)
  note V = vote_fold [OF Cons.prems, of k "fst lane" "snd lane" "[]", folded vote_lane_def [of k lane b]]
  note IH = Cons.IH [OF conjunct1 [OF V]]
  have "fst ` set (fold (vote_lane k) (lane # lanes) b) = fst ` set b \<union> lh_doc ` (\<Union>lane \<in> set (lane # lanes). set (snd lane))"
    using IH V by (simp add: image_Un Un_assoc)
  moreover have "total (fold (vote_lane k) (lane # lanes) b) d = total b d + fusion_score k (lane # lanes) d" for d
    using IH V by (simp add: fusion_score_def)
  ultimately show ?case using IH by simp
qed (simp add: fusion_score_def)

lemma named_total: "named b \<Longrightarrow> (d, c) \<in> set b \<Longrightarrow> sum_list (map snd (cand_rrf c)) = total b d \<and> cand_doc c = d"
  unfolding named_def total_def by auto

lemma number_ranks_simps [simp]:
  "map cand_doc (number_ranks cs) = map cand_doc cs" "map doc_order (number_ranks cs) = map doc_order cs"
  "map cand_rank (number_ranks cs) = map int [0..<length cs]" "map cand_score (number_ranks cs) = map cand_score cs"
  "length (number_ranks cs) = length cs"
  by (auto simp: number_ranks_def doc_order_def intro: nth_equalityI)

lemma aggregate_facts:
  fixes k lanes
  defines "docs \<equiv> aggregate_documents_n lanes k"
  shows "distinct (map cand_doc docs) \<and>
     set (map cand_doc docs) = lh_doc ` (\<Union>lane \<in> set lanes. set (snd lane)) \<and>
     map cand_score docs = map (fusion_score k lanes) (map cand_doc docs) \<and>
     sorted (map doc_order docs) \<and> map cand_rank docs = map int [0..<length docs]"
proof -
  let ?b = "fold (vote_lane k) lanes []"
  let ?cs = "sort_key doc_order (map score_candidate (map snd ?b))"
  have nb: "named ?b" and keys: "fst ` set ?b = lh_doc ` (\<Union>lane \<in> set lanes. set (snd lane))"
    and tot: "\<And>d. total ?b d = fusion_score k lanes d"
    using fuse_fold [of "[]" k lanes] by (simp_all add: named_def total_def)
  have docs: "map cand_doc (map score_candidate (map snd ?b)) = map fst ?b"
    using named_total [OF nb] by auto
  have "distinct (map fst ?b)" using nb by (simp add: named_def)
  then have "distinct (map cand_doc (map score_candidate (map snd ?b)))" unfolding docs .
  then have dist: "distinct (map cand_doc ?cs)" unfolding distinct_map [of cand_doc] by simp
  have "set (map cand_doc ?cs) = set (map cand_doc (map score_candidate (map snd ?b)))" by (simp add: image_image)
  then have "set (map cand_doc ?cs) = fst ` set ?b" unfolding docs set_map [of fst] .
  then have set: "set (map cand_doc ?cs) = lh_doc ` (\<Union>lane \<in> set lanes. set (snd lane))" unfolding keys .
  have "cand_score c = fusion_score k lanes (cand_doc c)" if "c \<in> set ?cs" for c
  proof -
    have "c \<in> score_candidate ` snd ` set ?b" using that by (simp add: image_image)
    then obtain x where x: "x \<in> set ?b" "c = score_candidate (snd x)" by blast
    then show ?thesis using named_total [OF nb, of "fst x" "snd x"] tot by simp
  qed
  then have "map cand_score ?cs = map (fusion_score k lanes) (map cand_doc ?cs)" by (simp del: set_sort)
  moreover have "sorted (map doc_order ?cs)" by (rule sorted_sort_key)
  ultimately show ?thesis
    unfolding docs_def aggregate_documents_n_def number_ranks_simps
    using dist set by (simp del: set_sort length_sort set_map)
qed

text \<open>
  C18. The fused document list is reciprocal-rank fusion. Whatever the lanes hold, the list has
  each document that some lane hit exactly once and no other; the score of a document is the sum
  over the lanes of \<open>1 / (k + rank + 1)\<close> for the lane's first hit in it, however many more hits the
  lane has there; the list is ordered by descending score and then document id; and the recorded
  ranks are the positions.
\<close>

theorem fusion_is_reciprocal_rank:
  "let docs = aggregate_documents_n lanes k in
     distinct (map cand_doc docs) \<and>
     set (map cand_doc docs) = lh_doc ` (\<Union>lane \<in> set lanes. set (snd lane)) \<and>
     map cand_score docs = map (fusion_score k lanes) (map cand_doc docs) \<and>
     sorted (map doc_order docs) \<and> map cand_rank docs = map int [0..<length docs]"
  unfolding Let_def by (rule aggregate_facts)

section \<open>The cut\<close>

lemma py_upto_nonneg: "0 \<le> n \<Longrightarrow> py_upto n xs = take (nat n) xs"
  by (simp add: py_upto_def)

lemma subseq_take: "subseq (take n xs) xs"
  by (metis append_take_drop_id list_emb_append_mono subseq_order.order_refl list_emb_Nil append_Nil2)

lemma distinct_map_filter_count:
  assumes "distinct (map f xs)" "set ys \<subseteq> set xs"
  shows "filter (\<lambda>c. f c \<in> f ` set ys) xs = filter (\<lambda>c. c \<in> set ys) xs"
proof (rule filter_cong [OF refl])
  fix c assume "c \<in> set xs"
  then show "f c \<in> f ` set ys \<longleftrightarrow> c \<in> set ys" using assms by (auto simp: distinct_map dest: inj_onD)
qed

definition seats_of :: "int \<Rightarrow> int \<Rightarrow> nat \<Rightarrow> nat" where
  "seats_of limit reserved rescued = nat (min (min reserved (int rescued)) limit)"

text \<open>Selecting the candidates whose ids are those of a short enough sublist selects the sublist.\<close>

lemma filter_ids:
  assumes d: "distinct (map ch_chunk cs)" and sub: "set ks \<subseteq> set cs" and len: "length ks \<le> nat limit" and lim: "0 < limit"
  shows "py_upto limit (filter (\<lambda>c. ch_chunk c \<in> set (map ch_chunk ks)) cs) = filter (\<lambda>c. c \<in> set ks) cs"
proof -
  have F: "filter (\<lambda>c. ch_chunk c \<in> set (map ch_chunk ks)) cs = filter (\<lambda>c. c \<in> set ks) cs"
    unfolding set_map by (rule distinct_map_filter_count [OF d sub])
  have dcs: "distinct cs" using d by (simp add: distinct_map)
  have "length (filter (\<lambda>c. c \<in> set ks) cs) = card (set (filter (\<lambda>c. c \<in> set ks) cs))"
    using dcs by (intro distinct_card [symmetric] distinct_filter)
  also have "\<dots> \<le> card (set ks)" by (rule card_mono) auto
  also have "\<dots> \<le> length ks" by (rule card_length)
  finally show ?thesis using len lim unfolding F by (simp add: py_upto_nonneg)
qed

lemma cut_members:
  assumes d: "distinct (map ch_chunk cs)" and lim: "0 < limit" "limit < int (length cs)"
    and res: "0 < reserved" "filter (\<lambda>c. ch_arrival c \<in> set as) cs \<noteq> []"
  defines "r \<equiv> filter (\<lambda>c. ch_arrival c \<in> set as) cs" and "h \<equiv> filter (\<lambda>c. ch_arrival c \<notin> set as) cs"
  defines "s \<equiv> seats_of limit reserved (length r)"
  shows "truncate_reserving_rescue cs limit reserved as =
      filter (\<lambda>c. c \<in> set (take (nat limit - s) h) \<union> set (take s r)) cs"
proof -
  let ?seats = "min (min reserved (int (length r))) limit"
  let ?k = "take (nat limit - s) h @ take s r"
  have nn: "0 \<le> ?seats" "?seats \<le> limit" using lim(1) res(1) by auto
  have s: "nat ?seats = s" by (simp add: s_def seats_of_def)
  have k: "map ch_chunk (py_upto (limit - ?seats) h) @ map ch_chunk (py_upto ?seats r) = map ch_chunk ?k"
    using nn s by (simp add: py_upto_nonneg nat_diff_distrib)
  have sub: "set ?k \<subseteq> set cs" by (auto simp: h_def r_def dest!: in_set_takeD)
  have len: "length ?k \<le> nat limit" using nn s by auto
  have "truncate_reserving_rescue cs limit reserved as =
      py_upto limit (filter (\<lambda>c. ch_chunk c \<in> set (map ch_chunk (py_upto (limit - ?seats) h) @ map ch_chunk (py_upto ?seats r))) cs)"
    using lim res by (simp add: truncate_reserving_rescue_def Let_def h_def r_def not_le del: map_append set_append)
  also have "\<dots> = filter (\<lambda>c. c \<in> set ?k) cs" unfolding k by (rule filter_ids [OF d sub len lim(1)])
  finally show ?thesis by simp
qed

lemma subseq_filter_distinct: "distinct xs \<Longrightarrow> subseq ys xs \<Longrightarrow> filter (\<lambda>c. c \<in> set ys) xs = ys"
proof (induction xs arbitrary: ys)
  case (Cons x xs)
  show ?case
  proof (cases "\<exists>zs. ys = x # zs")
    case True
    then obtain zs where zs: "ys = x # zs" by blast
    then have "subseq zs xs" using Cons.prems(2) by simp
    moreover have "filter (\<lambda>c. c = x \<or> c \<in> set zs) xs = filter (\<lambda>c. c \<in> set zs) xs"
      using Cons.prems(1) by (intro filter_cong) auto
    ultimately show ?thesis using Cons zs by simp
  next
    case False
    then have sub: "subseq ys xs" using Cons.prems(2) by (cases ys) (auto split: if_splits)
    then have "x \<notin> set ys" using Cons.prems(1) list_emb_set [OF sub, of x] by auto
    then show ?thesis using Cons sub by simp
  qed
qed (auto dest!: list_emb_Nil2)

lemma filter_take_prefix: "prefix (filter P (take n xs)) (filter P xs)"
proof -
  have "filter P xs = filter P (take n xs) @ filter P (drop n xs)"
    by (metis append_take_drop_id filter_append)
  then show ?thesis by (auto simp: prefix_def)
qed

text \<open>
  When a list keeps some of the \<open>P\<close>-elements and some of the others, these are its two parts.
\<close>

lemma kept_parts:
  assumes dcs: "distinct cs" and sub: "subseq ps (filter P cs)" "subseq qs (filter (\<lambda>c. \<not> P c) cs)"
  defines "out \<equiv> filter (\<lambda>c. c \<in> set qs \<union> set ps) cs"
  shows "filter P out = ps" "filter (\<lambda>c. \<not> P c) out = qs"
proof -
  have mem: "P c" if "c \<in> set ps" for c using list_emb_set [OF sub(1) that] by auto
  have nmem: "\<not> P c" if "c \<in> set qs" for c using list_emb_set [OF sub(2) that] by auto
  have part: "filter (\<lambda>c. c \<in> set ys) xs = ys" if "distinct xs" "subseq ys xs" for xs ys :: "'a list"
    using that by (intro subseq_filter_distinct)
  have "filter P out = filter (\<lambda>c. c \<in> set ps) (filter P cs)"
    unfolding out_def filter_filter by (rule filter_cong [OF refl]) (use mem nmem in auto)
  then show "filter P out = ps" using part [OF distinct_filter [OF dcs] sub(1)] by simp
  have "filter (\<lambda>c. \<not> P c) out = filter (\<lambda>c. c \<in> set qs) (filter (\<lambda>c. \<not> P c) cs)"
    unfolding out_def filter_filter by (rule filter_cong [OF refl]) (use mem nmem in auto)
  then show "filter (\<lambda>c. \<not> P c) out = qs" using part [OF distinct_filter [OF dcs] sub(2)] by simp
qed

lemma cut_parts:
  assumes d: "distinct (map ch_chunk cs)" and lim: "0 < limit" "limit < int (length cs)"
    and res: "0 < reserved" "filter (\<lambda>c. ch_arrival c \<in> set as) cs \<noteq> []"
  defines "r \<equiv> filter (\<lambda>c. ch_arrival c \<in> set as) cs" and "h \<equiv> filter (\<lambda>c. ch_arrival c \<notin> set as) cs"
  defines "s \<equiv> seats_of limit reserved (length r)"
  defines "out \<equiv> truncate_reserving_rescue cs limit reserved as"
  shows "filter (\<lambda>c. ch_arrival c \<in> set as) out = take s r"
    "filter (\<lambda>c. ch_arrival c \<notin> set as) out = take (nat limit - s) h"
proof -
  have "distinct cs" using d by (simp add: distinct_map)
  note parts = kept_parts [OF this subseq_take subseq_take, where P = "\<lambda>c. ch_arrival c \<in> set as"]
  have out: "out = filter (\<lambda>c. c \<in> set (take (nat limit - s) h) \<union> set (take s r)) cs"
    unfolding out_def s_def r_def h_def by (rule cut_members [OF d lim res])
  show "filter (\<lambda>c. ch_arrival c \<in> set as) out = take s r" unfolding out r_def h_def by (rule parts(1))
  show "filter (\<lambda>c. ch_arrival c \<notin> set as) out = take (nat limit - s) h" unfolding out r_def h_def by (rule parts(2))
qed

lemma cut_facts:
  assumes "distinct (map ch_chunk cs)" "0 < limit"
  shows "let out = truncate_reserving_rescue cs limit reserved as;
      rescued = length (filter (\<lambda>c. ch_arrival c \<in> set as) cs);
      others = length (filter (\<lambda>c. ch_arrival c \<notin> set as) cs);
      seats = seats_of limit reserved rescued
    in subseq out cs \<and>
       prefix (filter (\<lambda>c. ch_arrival c \<in> set as) out) (filter (\<lambda>c. ch_arrival c \<in> set as) cs) \<and>
       prefix (filter (\<lambda>c. ch_arrival c \<notin> set as) out) (filter (\<lambda>c. ch_arrival c \<notin> set as) cs) \<and>
       seats \<le> length (filter (\<lambda>c. ch_arrival c \<in> set as) out) \<and>
       length out = (if int (length cs) \<le> limit then length cs
         else if rescued = 0 \<or> reserved \<le> 0 then nat limit
         else min (nat limit - seats) others + seats)"
proof -
  consider "int (length cs) \<le> limit"
    | "limit < int (length cs)" "filter (\<lambda>c. ch_arrival c \<in> set as) cs = [] \<or> reserved \<le> 0"
    | "limit < int (length cs)" "filter (\<lambda>c. ch_arrival c \<in> set as) cs \<noteq> []" "0 < reserved"
    by linarith
  then show ?thesis
  proof cases
    case 1
    then have "truncate_reserving_rescue cs limit reserved as = cs"
      using assms(2) by (simp add: truncate_reserving_rescue_def py_upto_nonneg)
    then show ?thesis using 1 by (auto simp: Let_def seats_of_def)
  next
    case 2
    then have out: "truncate_reserving_rescue cs limit reserved as = take (nat limit) cs"
      using assms(2) by (auto simp: truncate_reserving_rescue_def py_upto_nonneg Let_def)
    have "seats_of limit reserved (length (filter (\<lambda>c. ch_arrival c \<in> set as) cs)) = 0"
      using 2(2) assms(2) by (auto simp: seats_of_def)
    then show ?thesis using 2 assms(2) filter_take_prefix unfolding out Let_def by (auto simp: subseq_take)
  next
    case 3
    let ?out = "truncate_reserving_rescue cs limit reserved as"
    note parts = cut_parts [OF assms 3(1) 3(3) 3(2)]
    have "length ?out = length (filter (\<lambda>c. ch_arrival c \<in> set as) ?out) + length (filter (\<lambda>c. ch_arrival c \<notin> set as) ?out)"
      by (simp add: sum_length_filter_compl)
    moreover have "subseq ?out cs" unfolding cut_members [OF assms 3(1) 3(3) 3(2)] by (rule subseq_filter_left)
    moreover have "seats_of limit reserved (length (filter (\<lambda>c. ch_arrival c \<in> set as) cs)) \<le> length (filter (\<lambda>c. ch_arrival c \<in> set as) cs)"
      by (auto simp: seats_of_def)
    ultimately show ?thesis using 3 unfolding Let_def parts by (simp add: take_is_prefix min.absorb1 min.commute)
  qed
qed

text \<open>
  C24. The cut keeps the rescue seats and the ranking. For candidates with distinct chunk ids and a
  positive limit, the cut list is a subsequence of the candidates, the surviving rescue candidates
  are the best ones and so are the surviving others, at least the reserved seats (as many as there
  are rescue candidates and as fit the limit) go to rescue candidates, and the number of survivors
  is exactly as stated: all when they fit, the limit when nothing is reserved, and otherwise the
  seats plus as many others as the remaining places and their number allow.
\<close>

theorem cut_keeps_rescue_seats:
  assumes "distinct (map ch_chunk cs)" "0 < limit"
  shows "let out = truncate_reserving_rescue cs limit reserved as;
      rescued = length (filter (\<lambda>c. ch_arrival c \<in> set as) cs);
      others = length (filter (\<lambda>c. ch_arrival c \<notin> set as) cs);
      seats = seats_of limit reserved rescued
    in subseq out cs \<and>
       prefix (filter (\<lambda>c. ch_arrival c \<in> set as) out) (filter (\<lambda>c. ch_arrival c \<in> set as) cs) \<and>
       prefix (filter (\<lambda>c. ch_arrival c \<notin> set as) out) (filter (\<lambda>c. ch_arrival c \<notin> set as) cs) \<and>
       seats \<le> length (filter (\<lambda>c. ch_arrival c \<in> set as) out) \<and>
       length out = (if int (length cs) \<le> limit then length cs
         else if rescued = 0 \<or> reserved \<le> 0 then nat limit
         else min (nat limit - seats) others + seats)"
  by (rule cut_facts [OF assms])

definition demo_child :: "string \<Rightarrow> string \<Rightarrow> arrival \<Rightarrow> child_item" where
  "demo_child cid doc a = \<lparr>ch_chunk = cid, ch_doc = doc, ch_parent = ''p'', ch_text = [], ch_source = [],
     ch_similarity = None, ch_arrival = a, ch_depth_rank = None, ch_global_rank = None, ch_lexical_rank = None, ch_latent_rank = None,
     ch_document_rank = None, ch_role = None, ch_rerank = None\<rparr>"

definition demo_children :: "child_item list" where
  "demo_children = [demo_child ''h1'' ''d'' Section_Led, demo_child ''h2'' ''d'' Section_Led,
     demo_child ''h3'' ''d'' Section_Led, demo_child ''g1'' ''e'' Global_Child_Rescue]"

theorem cut_keeps_rescue_seats_witness:
  "1 \<le> length (filter (\<lambda>c. ch_arrival c \<in> set [Global_Child_Rescue])
     (truncate_reserving_rescue demo_children 3 2 [Global_Child_Rescue]))"
  using cut_keeps_rescue_seats [of demo_children 3 2 "[Global_Child_Rescue]"]
  by (simp add: demo_children_def demo_child_def seats_of_def Let_def)

text \<open>A cut may fall short of its limit while rescue candidates are still left over.\<close>

lemma cut_falls_short:
  "length (truncate_reserving_rescue (map (\<lambda>i. demo_child [char_of (i + 65)] ''d'' (if i = 0 then Section_Led else Global_Child_Rescue)) [0..<5])
     4 2 [Global_Child_Rescue]) = 3"
  by code_simp

section \<open>Where evidence comes from\<close>

text \<open>A chunk id the routing search returned under the child filter.\<close>

definition proven :: "'v retrieval_env \<Rightarrow> 'v \<Rightarrow> string \<Rightarrow> bool" where
  "proven env qvec cid \<longleftrightarrow> (\<exists>coll f. sf_kind f = Child_Lane \<and>
     (\<exists>row \<in> set (re_search env coll qvec f). cid = opt_or [] (rr_chunk row)))"

lemma set_py_upto: "set (py_upto n xs) \<subseteq> set xs"
  by (auto simp: py_upto_def dest: in_set_takeD)

lemma distinct_py_upto: "distinct (map f xs) \<Longrightarrow> distinct (map f (py_upto n xs))"
  by (simp add: py_upto_def take_map [symmetric])

lemma number_hits_chunks: "lh_chunk ` set (number_hits hits) = lh_chunk ` set hits"
proof -
  have "map lh_chunk (number_hits hits) = map lh_chunk hits"
    by (auto simp: number_hits_def intro: nth_equalityI)
  then show ?thesis by (metis set_map)
qed

lemma collection_proven:
  assumes "h \<in> set (search_collection plan env qvec extra n coll)" "sf_kind extra = Child_Lane"
  shows "proven env qvec (lh_chunk h)"
proof -
  let ?cid = "fst coll"
  let ?f = "case ?cid of None \<Rightarrow> extra | Some c \<Rightarrow> if c = [] then extra else extra\<lparr>sf_corpus := Some c\<rparr>"
  let ?rows = "py_upto n (re_search env (opt_or [] (snd coll)) qvec ?f)"
  have "h \<in> set (concat (map2 (hits_of_row plan Child_Lane ?cid) [0..<length ?rows] ?rows))"
    using assms by (simp add: search_collection_def Let_def)
  then obtain j where j: "j < length ?rows" "h \<in> set (hits_of_row plan Child_Lane ?cid j (?rows ! j))"
    by (auto simp: set_zip)
  have "lh_chunk h = opt_or [] (rr_chunk (?rows ! j))" using j(2) by (simp add: hits_of_row_def Let_def)
  moreover have "?rows ! j \<in> set (re_search env (opt_or [] (snd coll)) qvec ?f)"
    by (rule subsetD [OF set_py_upto nth_mem [OF j(1)]])
  moreover have "sf_kind ?f = Child_Lane" using assms(2) by (simp split: option.splits)
  ultimately show ?thesis
    unfolding proven_def by (intro exI [of _ "opt_or [] (snd coll)"] exI [of _ ?f] conjI bexI [of _ "?rows ! j"])
qed

lemma set_demote_hits: "set (demote_hits plan env kind hits) = set hits"
  by (simp add: demote_hits_def Let_def)

lemma search_proven:
  assumes "h \<in> set (search_lane plan env qvec Child_Lane n doc parent)"
  shows "proven env qvec (lh_chunk h)"
proof -
  let ?extra = "\<lparr>sf_kind = Child_Lane, sf_corpus = None, sf_doc = doc, sf_parent = parent\<rparr>"
  let ?hits = "concat (map (search_collection plan env qvec ?extra n) (collections plan env))"
  have "set (demote_hits plan env Child_Lane (sort_key hit_order ?hits)) = set ?hits"
    unfolding set_demote_hits by (rule set_sort)
  moreover have "lh_chunk h \<in> lh_chunk ` set (number_hits (demote_hits plan env Child_Lane (sort_key hit_order ?hits)))"
    using subsetD [OF set_py_upto assms [unfolded search_lane_def Let_def]] by (rule imageI)
  ultimately have "lh_chunk h \<in> lh_chunk ` set ?hits" by (simp only: number_hits_chunks)
  then obtain g coll where g: "lh_chunk h = lh_chunk g" "g \<in> set (search_collection plan env qvec ?extra n coll)" by auto
  show ?thesis unfolding g(1) by (rule collection_proven [OF g(2)]) simp
qed

text \<open>A dict of children whose keys are their chunk ids, all proven.\<close>

definition proven_dict :: "'v retrieval_env \<Rightarrow> 'v \<Rightarrow> (string, child_item) dict \<Rightarrow> bool" where
  "proven_dict env qvec d \<longleftrightarrow> (\<forall>(k, c) \<in> set d. ch_chunk c = k \<and> proven env qvec k)"

lemma proven_dict_add: "proven_dict env qvec d \<Longrightarrow> ch_chunk c = k \<Longrightarrow> proven env qvec k \<Longrightarrow> proven_dict env qvec (dict_add k c d)"
  by (auto simp: proven_dict_def dict_add_def)

lemma fold_invariant_set:
  assumes "P s" "\<And>x s. x \<in> set xs \<Longrightarrow> P s \<Longrightarrow> P (f x s)"
  shows "P (fold f xs s)"
  using assms by (induction xs arbitrary: s) auto

lemma deepened_proven: "proven_dict env qvec (fold (deepen_section plan env qvec) sections [])"
proof (rule fold_invariant_set [where P = "proven_dict env qvec"])
  fix s d assume d: "proven_dict env qvec d"
  show "proven_dict env qvec (deepen_section plan env qvec s d)"
    unfolding deepen_section_def
  proof (rule fold_invariant_set [where P = "proven_dict env qvec", OF d])
    fix h d assume h: "h \<in> set (py_upto (rp_max_children plan)
      (search_lane plan env qvec Child_Lane (rp_max_children plan) (Some (sec_doc s)) (Some (sec_parent s))))"
      and d: "proven_dict env qvec d"
    have "proven env qvec (lh_chunk h)" by (rule search_proven [OF subsetD [OF set_py_upto h]])
    then show "proven_dict env qvec (dict_add (lh_chunk h) (child_of_hit Section_Led h\<lparr>ch_depth_rank := Some (lh_rank h)\<rparr>) d)"
      by (intro proven_dict_add [OF d]) (simp_all add: child_of_hit_def)
  qed
qed (simp add: proven_dict_def)

lemma rescue_proven:
  assumes "\<And>h. h \<in> set child_lane \<Longrightarrow> proven env qvec (lh_chunk h)"
  shows "proven_dict env qvec (rescue_children plan deepened child_lane)"
  unfolding rescue_children_def
proof (rule fold_invariant_set [where P = "proven_dict env qvec"])
  fix h d assume h: "h \<in> set (py_upto (rp_rescue_max plan) child_lane)" and d: "proven_dict env qvec d"
  have p: "proven env qvec (lh_chunk h)" by (rule assms [OF subsetD [OF set_py_upto h]])
  then show "proven_dict env qvec (if map_of deepened (lh_chunk h) \<noteq> None then d
      else dict_add (lh_chunk h) (child_of_hit Global_Child_Rescue h\<lparr>ch_global_rank := Some (lh_rank h)\<rparr>) d)"
  proof (cases "map_of deepened (lh_chunk h) \<noteq> None")
    case False
    have "proven_dict env qvec (dict_add (lh_chunk h) (child_of_hit Global_Child_Rescue h\<lparr>ch_global_rank := Some (lh_rank h)\<rparr>) d)"
      by (rule proven_dict_add [OF d _ p]) (simp add: child_of_hit_def)
    then show ?thesis using False by simp
  qed (simp add: d)
qed (simp add: proven_dict_def)

end
