(* ===== verification/Pass1_Evidence.thy ===== *)
theory Pass1_Evidence
  imports Pass1_Facts
begin

text \<open>
  The evidence Pass-1 returns: child chunks the routing search returned under the child filter or
  neighbours of them, each once, within the budget; and what the stages between the candidates and
  the evidence (demotion, cut, reranking, expansion, budget) keep of the candidate list.
\<close>

section \<open>Candidate lists\<close>

text \<open>Distinct chunk ids, all with \<open>P\<close>.\<close>

definition candidates_ok :: "(string \<Rightarrow> bool) \<Rightarrow> child_item list \<Rightarrow> bool" where
  "candidates_ok P cs \<longleftrightarrow> distinct (map ch_chunk cs) \<and> list_all (\<lambda>c. P (ch_chunk c)) cs"

lemma dedupe_subset: "set (dedupe_chunks seen cs) \<subseteq> set cs"
  by (induction seen cs rule: dedupe_chunks.induct) auto

lemma dedupe_distinct: "distinct (map ch_chunk (dedupe_chunks seen cs)) \<and> ch_chunk ` set (dedupe_chunks seen cs) \<inter> set seen = {}"
proof (induction seen cs rule: dedupe_chunks.induct)
  case (2 seen c cs)
  show ?case
  proof (cases "ch_chunk c \<in> set seen")
    case False
    then have IH: "distinct (map ch_chunk (dedupe_chunks (ch_chunk c # seen) cs))"
      "ch_chunk ` set (dedupe_chunks (ch_chunk c # seen) cs) \<inter> insert (ch_chunk c) (set seen) = {}" using 2 by simp_all
    then have "ch_chunk c \<notin> ch_chunk ` set (dedupe_chunks (ch_chunk c # seen) cs)" by blast
    then show ?thesis using IH False by simp
  qed (use 2 in simp)
qed simp

lemma dedupe_ok: "list_all (\<lambda>c. P (ch_chunk c)) cs \<Longrightarrow> candidates_ok P (dedupe_chunks seen cs)"
  using dedupe_distinct [of seen cs] dedupe_subset [of seen cs]
  by (simp add: candidates_ok_def list_all_iff subset_iff)

lemma candidates_ok_chunks:
  assumes "candidates_ok P cs" "distinct (map ch_chunk ds)" "ch_chunk ` set ds \<subseteq> ch_chunk ` set cs"
  shows "candidates_ok P ds"
proof -
  have "P (ch_chunk c)" if c: "c \<in> set ds" for c
  proof -
    obtain b where "b \<in> set cs" "ch_chunk c = ch_chunk b" using subsetD [OF assms(3) imageI [OF c]] by (elim imageE)
    then show ?thesis using assms(1) by (simp add: candidates_ok_def list_all_iff)
  qed
  then show ?thesis using assms(2) by (simp add: candidates_ok_def list_all_iff)
qed

lemma distinct_map_sort: "distinct (map f (sort_key g xs)) = distinct (map f xs)"
  by (simp add: distinct_map)

lemma demote_ok:
  assumes "candidates_ok P cs"
  shows "candidates_ok P (fst (demote_children plan env cs))"
proof (cases "(if cs = [] then [] else region_roles plan env (map ch_chunk cs)) = []")
  case True
  then show ?thesis using assms by (simp add: demote_children_def Let_def)
next
  case False
  let ?roles = "region_roles plan env (map ch_chunk cs)"
  let ?marked = "map (\<lambda>c. c\<lparr>ch_role := map_of ?roles (ch_chunk c)\<rparr>) cs"
  have eq: "map ch_chunk ?marked = map ch_chunk cs" by simp
  have m: "distinct (map ch_chunk ?marked)" "ch_chunk ` set ?marked = ch_chunk ` set cs"
    using assms unfolding eq candidates_ok_def by (simp_all add: image_image)
  have "candidates_ok P (sort_key noisy_child ?marked)"
    by (rule candidates_ok_chunks [OF assms]) (use m in \<open>simp_all only: distinct_map_sort set_sort order_refl\<close>)
  moreover have "fst (demote_children plan env cs) = sort_key noisy_child ?marked"
    using False by (auto simp: demote_children_def Let_def split: if_splits)
  ultimately show ?thesis by simp
qed

lemma subseq_ok: "candidates_ok P cs \<Longrightarrow> subseq ds cs \<Longrightarrow> candidates_ok P ds"
proof (rule candidates_ok_chunks)
  assume ok: "candidates_ok P cs" and sub: "subseq ds cs"
  obtain N where "map ch_chunk ds = nths (map ch_chunk cs) N"
    using subseq_map [OF sub, of ch_chunk] unfolding subseq_conv_nths by blast
  then show "distinct (map ch_chunk ds)" using ok by (simp add: candidates_ok_def distinct_nthsI)
  show "ch_chunk ` set ds \<subseteq> ch_chunk ` set cs" by (rule image_mono) (use sub in \<open>auto dest: list_emb_set\<close>)
qed

lemma py_upto_subseq: "subseq (py_upto n xs) xs"
  by (simp add: py_upto_def subseq_take)

lemma truncate_subseq: "subseq (truncate_reserving_rescue cs limit reserved as) cs"
proof -
  have "subseq (py_upto limit (filter Q cs)) cs" for Q
    by (rule subseq_order.order_trans [OF py_upto_subseq subseq_filter_left])
  then show ?thesis by (simp add: truncate_reserving_rescue_def Let_def py_upto_subseq)
qed

lemma rerank_ok:
  assumes "candidates_ok P cs" "rerank_stage plan env query cs = Inr (post, ranked)"
  shows "candidates_ok P ranked" "set post = ch_chunk ` set cs" "ch_chunk ` set ranked = ch_chunk ` set cs"
proof -
  have "distinct (map ch_chunk ranked) \<and> set post = ch_chunk ` set cs \<and> ch_chunk ` set ranked = ch_chunk ` set cs"
  proof (cases "re_rerank env = None \<or> \<not> rp_rerank_enabled plan \<or> cs = []")
    case True
    then show ?thesis using assms by (auto simp: rerank_stage_def candidates_ok_def split: option.splits)
  next
    case False
    then obtain rerank where r: "re_rerank env = Some rerank" by auto
    let ?post = "map ch_chunk (rerank query cs)"
    have post: "set ?post = ch_chunk ` set cs" "post = ?post"
      and ranked: "map ch_chunk ranked = map ch_chunk (sort_key (\<lambda>c. index_of (ch_chunk c) ?post) cs)"
      using assms(2) r False by (auto simp: rerank_stage_def Let_def split: if_splits)
    have "ch_chunk ` set ranked = ch_chunk ` set (sort_key (\<lambda>c. index_of (ch_chunk c) ?post) cs)"
      using arg_cong [OF ranked, of set] by (simp only: set_map)
    then show ?thesis
      unfolding ranked distinct_map_sort using post assms(1) by (simp add: candidates_ok_def)
  qed
  then show "candidates_ok P ranked" "set post = ch_chunk ` set cs" "ch_chunk ` set ranked = ch_chunk ` set cs"
    using candidates_ok_chunks [OF assms(1), of ranked] by simp_all
qed

section \<open>Expansion and budget\<close>

lemma admit_neighbors_ok:
  assumes "distinct (map ch_chunk added)" "list_all (\<lambda>c. ch_arrival c = Neighbor_Expansion) added"
    "ch_chunk ` set added \<subseteq> set have_ids" "H \<subseteq> set have_ids" "ch_chunk ` set added \<inter> H = {}"
  shows "distinct (map ch_chunk (admit_neighbors cap have_ids added ns)) \<and>
    list_all (\<lambda>c. ch_arrival c = Neighbor_Expansion) (admit_neighbors cap have_ids added ns) \<and>
    ch_chunk ` set (admit_neighbors cap have_ids added ns) \<inter> H = {}"
  using assms
proof (induction cap have_ids added ns rule: admit_neighbors.induct)
  case (2 cap have_ids added n ns)
  let ?cid = "opt_or [] (nb_chunk n)" and ?added = "added @ [child_of_neighbor (opt_or [] (nb_chunk n)) n]"
  show ?case
  proof (cases "?cid = [] \<or> ?cid \<in> set have_ids")
    case True
    then show ?thesis using "2.IH"(1) [OF refl] "2.prems" by (auto simp: Let_def)
  next
    case False
    have ok: "distinct (map ch_chunk ?added)" "list_all (\<lambda>c. ch_arrival c = Neighbor_Expansion) ?added"
      "ch_chunk ` set ?added \<subseteq> set (?cid # have_ids)" "H \<subseteq> set (?cid # have_ids)" "ch_chunk ` set ?added \<inter> H = {}"
      using "2.prems" False by (auto simp: child_of_neighbor_def)
    show ?thesis
    proof (cases "cap \<le> int (length ?added)")
      case True
      then have "admit_neighbors cap have_ids added (n # ns) = ?added" using False by (simp add: Let_def)
      then show ?thesis using ok by simp
    next
      case more: False
      then have "admit_neighbors cap have_ids added (n # ns) = admit_neighbors cap (?cid # have_ids) ?added ns"
        using False by (simp add: Let_def)
      then show ?thesis using "2.IH"(2) [OF refl False refl more ok] by simp
    qed
  qed
qed simp

lemma expand_ok:
  assumes "distinct (map ch_chunk cs)"
  obtains added where "fst (expand_neighbors cs distance cap lookup) = cs @ added"
    "distinct (map ch_chunk (cs @ added))" "list_all (\<lambda>c. ch_arrival c = Neighbor_Expansion) added"
    "distance \<le> 0 \<or> lookup = None \<longrightarrow> added = []"
proof -
  consider "fst (expand_neighbors cs distance cap lookup) = cs"
    | ns where "fst (expand_neighbors cs distance cap lookup) = cs @ admit_neighbors cap (map ch_chunk cs) [] ns"
        "0 < distance" "lookup \<noteq> None"
  proof (cases lookup)
    case (Some look)
    then show ?thesis
      by (cases "distance \<le> 0 \<or> cs = []"; cases "look (map (\<lambda>c. (ch_doc c, ch_chunk c)) (filter (\<lambda>c. ch_doc c \<noteq> [] \<and> ch_chunk c \<noteq> []) cs)) distance")
        (use that Some in \<open>auto simp: expand_neighbors_def Let_def\<close>)
  qed (use that in \<open>simp add: expand_neighbors_def\<close>)
  then show thesis
  proof cases
    case 1
    then show ?thesis using that [of "[]"] assms by simp
  next
    case 2
    note ok = admit_neighbors_ok [of "[]" "map ch_chunk cs" "ch_chunk ` set cs" cap ns]
    show ?thesis by (rule that [OF 2(1)]) (use ok 2 assms in auto)
  qed
qed

lemma fill_items_take: "fill_items cap acc xs = acc @ take (nat cap - length acc) xs"
proof (induction cap acc xs rule: fill_items.induct)
  case (2 cap acc c cs)
  then show ?case
    by (cases "cap \<le> int (length acc)") (auto simp: take_Cons' nat_le_iff Suc_diff_le)
qed simp

lemma fill_rest_ok:
  assumes "distinct (map ch_chunk acc)" "length acc \<le> nat cap"
  shows "distinct (map ch_chunk (fill_rest cap acc xs)) \<and> length (fill_rest cap acc xs) \<le> nat cap \<and>
    set (fill_rest cap acc xs) \<subseteq> set acc \<union> set xs"
  using assms
proof (induction cap acc xs rule: fill_rest.induct)
  case (2 cap acc c cs)
  show ?case
  proof (cases "cap \<le> int (length acc) \<or> ch_chunk c \<in> ch_chunk ` set acc")
    case True
    then show ?thesis using 2 by auto
  next
    case False
    then have "fill_rest cap acc (c # cs) = fill_rest cap (acc @ [c]) cs" by simp
    moreover have "distinct (map ch_chunk (acc @ [c]))" "length (acc @ [c]) \<le> nat cap" using False "2.prems" by auto
    ultimately show ?thesis using "2.IH"(2) False by auto
  qed
qed auto

lemma disjoint_Un_single: "A \<subseteq> {d} \<Longrightarrow> d \<notin> C \<Longrightarrow> B \<inter> C = {} \<Longrightarrow> (B \<union> A) \<inter> C = {}"
  by blast

lemma grouped_ok:
  assumes cs: "distinct (map ch_chunk cs)" and docs: "distinct (map cand_doc docs)"
    and acc: "distinct acc" "set acc \<subseteq> set cs" "ch_doc ` set acc \<inter> cand_doc ` set docs = {}" "length acc \<le> nat cap"
  defines "out \<equiv> fold (\<lambda>d acc. fill_items cap acc (filter (\<lambda>c. ch_doc c = cand_doc d) cs)) docs acc"
  shows "distinct out \<and> set out \<subseteq> set cs \<and> length out \<le> nat cap"
  using docs acc unfolding out_def
proof (induction docs arbitrary: acc)
  case (Cons d docs)
  let ?new = "take (nat cap - length acc) (filter (\<lambda>c. ch_doc c = cand_doc d) cs)"
  have new: "set ?new \<subseteq> {c \<in> set cs. ch_doc c = cand_doc d}" by (auto dest: in_set_takeD)
  have "distinct cs" using cs by (simp add: distinct_map)
  then have "distinct ?new" by simp
  moreover have "set acc \<inter> set ?new = {}"
  proof (rule equals0I)
    fix x assume x: "x \<in> set acc \<inter> set ?new"
    have "ch_doc x = cand_doc d" using subsetD [OF new IntD2 [OF x]] by simp
    then have "cand_doc d \<in> ch_doc ` set acc" using IntD1 [OF x] by (rule image_eqI [OF sym])
    then show False using Cons.prems(4) by simp
  qed
  ultimately have "distinct (acc @ ?new)" using Cons.prems(2) unfolding distinct_append by (intro conjI)
  moreover have "set (acc @ ?new) \<subseteq> set cs" unfolding set_append by (rule Un_least [OF Cons.prems(3) subset_trans [OF new Collect_restrict]])
  moreover have "ch_doc ` set (acc @ ?new) \<inter> cand_doc ` set docs = {}"
  proof -
    have "ch_doc x \<in> {cand_doc d}" if x: "x \<in> set ?new" for x using subsetD [OF new x] by simp
    then have "ch_doc ` set ?new \<subseteq> {cand_doc d}" by (rule image_subsetI)
    moreover have "cand_doc d \<notin> cand_doc ` set docs" using Cons.prems(1) by simp
    moreover have "ch_doc ` set acc \<inter> cand_doc ` set docs = {}" using Cons.prems(4) by simp
    ultimately show ?thesis unfolding set_append image_Un by (rule disjoint_Un_single)
  qed
  moreover have "length (acc @ ?new) \<le> nat cap" using Cons.prems(5) by auto
  ultimately show ?case using Cons.IH [of "acc @ ?new"] Cons.prems(1) by (simp add: fill_items_take)
qed simp

lemma final_evidence_ok:
  assumes "distinct (map ch_chunk cs)" "distinct (map cand_doc docs)"
  shows "distinct (map ch_chunk (final_evidence cap docs cs)) \<and> length (final_evidence cap docs cs) \<le> nat cap \<and>
    set (final_evidence cap docs cs) \<subseteq> set cs"
proof -
  let ?g = "fold (\<lambda>d acc. fill_items cap acc (filter (\<lambda>c. ch_doc c = cand_doc d) cs)) docs []"
  have g: "distinct ?g \<and> set ?g \<subseteq> set cs \<and> length ?g \<le> nat cap" by (rule grouped_ok [OF assms]) simp_all
  have "inj_on ch_chunk (set ?g)"
    by (rule inj_on_subset [OF conjunct2 [OF assms(1) [unfolded distinct_map]]]) (use g in simp)
  then have "distinct (map ch_chunk ?g)" using g by (simp add: distinct_map)
  note rest = fill_rest_ok [OF this conjunct2 [OF conjunct2 [OF g]], of cs]
  have "set (fill_rest cap ?g cs) \<subseteq> set cs"
    by (rule subset_trans [OF conjunct2 [OF conjunct2 [OF rest]]]) (use g in simp)
  with rest show ?thesis unfolding final_evidence_def by simp
qed

section \<open>The engine\<close>

lemma list_all_conv: "list_all Q xs \<Longrightarrow> x \<in> set xs \<Longrightarrow> Q x"
  by (simp add: list_all_iff)

lemma dict_children_proven: "proven_dict env qvec d \<Longrightarrow> list_all (\<lambda>c. proven env qvec (ch_chunk c)) (map snd d)"
  by (auto simp: proven_dict_def list_all_iff)

lemma document_children_proven:
  "list_all (\<lambda>c. P (ch_chunk c)) ds \<Longrightarrow> list_all (\<lambda>c. P (ch_chunk c)) (document_children ds doc)"
  by (simp add: document_children_def list_all_iff Let_def)

lemma list_all_concat: "\<forall>x \<in> set xs. list_all Q (f x) \<Longrightarrow> list_all Q (concat (map f xs))"
  by (simp add: list_all_iff)

lemma gather_ok:
  "candidates_ok (proven env qvec) (p1_evidence (gather plan env qvec))" (is ?ok)
  "distinct (map cand_doc (p1_selected (gather plan env qvec)))" (is ?docs)
proof -
  let ?child = "lane_or_nil (rp_child_enabled plan) (search_lane plan env qvec Child_Lane (rp_child_top_k plan) None None)"
  have child: "proven env qvec (lh_chunk h)" if "h \<in> set ?child" for h
    using that by (auto simp: lane_or_nil_def intro: search_proven split: if_splits)
  obtain docs sections where g: "p1_evidence (gather plan env qvec) = dedupe_chunks []
      (concat (map (document_children (map snd (fold (deepen_section plan env qvec) sections []))) docs) @
       sort_key global_order (map snd (rescue_children plan (fold (deepen_section plan env qvec) sections []) ?child)))"
    by (simp add: gather_def Let_def)
  let ?d = "fold (deepen_section plan env qvec) sections []"
  have "list_all (\<lambda>c. proven env qvec (ch_chunk c)) (concat (map (document_children (map snd ?d)) docs))"
    by (intro list_all_concat ballI document_children_proven dict_children_proven deepened_proven)
  moreover have "list_all (\<lambda>c. proven env qvec (ch_chunk c)) (map snd (rescue_children plan ?d ?child))"
    by (intro dict_children_proven rescue_proven child)
  then have "list_all (\<lambda>c. proven env qvec (ch_chunk c)) (sort_key global_order (map snd (rescue_children plan ?d ?child)))"
    by (simp add: list_all_iff)
  ultimately show ?ok unfolding g by (intro dedupe_ok) simp
  show ?docs unfolding gather_def Let_def pass1_result.simps
    by (intro distinct_py_upto conjunct1 [OF aggregate_facts])
qed

text \<open>Evidence drawn from checked candidates and admitted neighbours.\<close>

lemma evidence_sources:
  fixes distance :: int
  assumes "set out \<subseteq> set ranked \<union> set added" "candidates_ok P ranked"
    "list_all (\<lambda>c. ch_arrival c = Neighbor_Expansion) added" "distance \<le> 0 \<or> lookup = None \<longrightarrow> added = []"
  shows "list_all (\<lambda>c. P (ch_chunk c) \<or> ch_arrival c = Neighbor_Expansion \<and> 0 < distance \<and> lookup \<noteq> None) out"
proof -
  have "P (ch_chunk c) \<or> ch_arrival c = Neighbor_Expansion \<and> 0 < distance \<and> lookup \<noteq> None"
    if c: "c \<in> set out" for c
  proof (cases "c \<in> set ranked")
    case True
    then show ?thesis using list_all_conv [OF conjunct2 [OF assms(2) [unfolded candidates_ok_def]]] by simp
  next
    case False
    then have "c \<in> set added" using subsetD [OF assms(1) c] by simp
    then show ?thesis using list_all_conv [OF assms(3)] assms(4) by (cases "added = []") auto
  qed
  then show ?thesis unfolding list_all_iff by blast
qed

text \<open>The stages after gathering, as one decomposition of a successful run.\<close>

lemma pass1_stages:
  assumes "pass1_retrieve plan env query = Inr r"
  obtains cut post ranked where
    "cut = truncate_reserving_rescue (fst (demote_children plan env (p1_evidence (gather plan env (re_embed env query)))))
        (rp_final_children plan) (rp_reserved plan) [Global_Child_Rescue]"
    "rerank_stage plan env query cut = Inr (post, ranked)"
    "p1_evidence r = final_evidence (rp_final_items plan) (p1_selected (gather plan env (re_embed env query)))
        (fst (expand_neighbors ranked (rp_neighbors plan) (rp_neighbors_max plan) (re_neighbors env)))"
    "p1_pre_g3 r = map ch_chunk cut" "p1_post_g3 r = post"
proof -
  let ?g = "gather plan env (re_embed env query)"
  let ?cut = "truncate_reserving_rescue (fst (demote_children plan env (p1_evidence ?g)))
        (rp_final_children plan) (rp_reserved plan) [Global_Child_Rescue]"
  obtain sunk noisy where s: "demote_children plan env (p1_evidence ?g) = (sunk, noisy)" by (cases "demote_children plan env (p1_evidence ?g)")
  obtain post ranked where p: "rerank_stage plan env query ?cut = Inr (post, ranked)"
    using assms s by (auto simp: pass1_retrieve_def Let_def)
  obtain ex added where e: "expand_neighbors ranked (rp_neighbors plan) (rp_neighbors_max plan) (re_neighbors env) = (ex, added)"
    by (cases "expand_neighbors ranked (rp_neighbors plan) (rp_neighbors_max plan) (re_neighbors env)")
  show thesis
    by (rule that [OF refl p]) (use assms s p e in \<open>auto simp: pass1_retrieve_def Let_def\<close>)
qed

text \<open>
  C16. Children prove. Whenever the engine answers, the evidence has at most the budgeted number of
  items and no chunk twice; every item is a chunk that the routing search returned under the
  child filter, whatever the summary and entity lanes returned, or, only when the plan asks for
  neighbours and a lookup exists, a chunk admitted as a neighbour; and the reranker has left the
  candidate set as it was.
\<close>

theorem children_prove:
  assumes "pass1_retrieve plan env query = Inr r"
  shows "distinct (map ch_chunk (p1_evidence r)) \<and> length (p1_evidence r) \<le> nat (rp_final_items plan) \<and>
    list_all (\<lambda>c. proven env (re_embed env query) (ch_chunk c) \<or>
      ch_arrival c = Neighbor_Expansion \<and> 0 < rp_neighbors plan \<and> re_neighbors env \<noteq> None) (p1_evidence r) \<and>
    set (p1_post_g3 r) = set (p1_pre_g3 r)"
proof -
  let ?q = "re_embed env query"
  let ?g = "gather plan env ?q"
  obtain cut post ranked where cut: "cut = truncate_reserving_rescue (fst (demote_children plan env (p1_evidence ?g)))
        (rp_final_children plan) (rp_reserved plan) [Global_Child_Rescue]"
    and rr: "rerank_stage plan env query cut = Inr (post, ranked)"
    and ev: "p1_evidence r = final_evidence (rp_final_items plan) (p1_selected ?g)
        (fst (expand_neighbors ranked (rp_neighbors plan) (rp_neighbors_max plan) (re_neighbors env)))"
    and pp: "p1_pre_g3 r = map ch_chunk cut" "p1_post_g3 r = post"
    using pass1_stages [OF assms] .
  have "candidates_ok (proven env ?q) cut"
    unfolding cut by (rule subseq_ok [OF demote_ok [OF gather_ok(1)] truncate_subseq])
  note ranked = rerank_ok [OF this rr]
  have "distinct (map ch_chunk ranked)" using ranked(1) by (simp add: candidates_ok_def)
  from expand_ok [OF this, of "rp_neighbors plan" "rp_neighbors_max plan" "re_neighbors env"]
  obtain added where ex: "fst (expand_neighbors ranked (rp_neighbors plan) (rp_neighbors_max plan) (re_neighbors env)) = ranked @ added"
    and dist: "distinct (map ch_chunk (ranked @ added))" and arr: "list_all (\<lambda>c. ch_arrival c = Neighbor_Expansion) added"
    and off: "rp_neighbors plan \<le> 0 \<or> re_neighbors env = None \<longrightarrow> added = []" .
  note fin = final_evidence_ok [OF dist gather_ok(2), of "rp_final_items plan" plan env ?q, folded ex, folded ev]
  have "set (p1_evidence r) \<subseteq> set ranked \<union> set added" using fin ex by simp
  then have "list_all (\<lambda>c. proven env ?q (ch_chunk c) \<or>
      ch_arrival c = Neighbor_Expansion \<and> 0 < rp_neighbors plan \<and> re_neighbors env \<noteq> None) (p1_evidence r)"
    by (rule evidence_sources [OF _ ranked(1) arr off])
  then show ?thesis using fin pp ranked(2) by simp
qed

subsection \<open>A concrete run\<close>

definition demo_row :: "string \<Rightarrow> string \<Rightarrow> string \<Rightarrow> rat \<Rightarrow> routing_row" where
  "demo_row doc parent chunk score = \<lparr>rr_score = Some score, rr_corpus = None, rr_doc = Some doc, rr_docs = [],
     rr_parent = Some parent, rr_chunk = Some chunk, rr_summary = None, rr_source = None, rr_text = None\<rparr>"

text \<open>One section summary of document \<open>a\<close>, its child \<open>k1\<close>, and a child \<open>k2\<close> of document \<open>b\<close>.\<close>

definition demo_retrieval :: "unit retrieval_env" where
  "demo_retrieval = \<lparr>re_embed = (\<lambda>_. ()), re_collection = (\<lambda>c. c),
     re_search = (\<lambda>coll v f. case sf_kind f of
         Section_Summary \<Rightarrow> [demo_row ''a'' ''p'' [] (1 / 2)]
       | Child_Lane \<Rightarrow> (if sf_doc f = Some ''a'' then [demo_row ''a'' ''p'' ''k1'' (3 / 4)]
                       else if sf_doc f = None then [demo_row ''b'' ''q'' ''k2'' (7 / 8)] else [])
       | _ \<Rightarrow> []),
     re_rerank = None, re_neighbors = None, re_regions = None\<rparr>"

lemma demo_retrieval_run:
  "(case pass1_retrieve PASS1_DEFAULT_PLAN demo_retrieval ''query'' of Inl e \<Rightarrow> None
    | Inr r \<Rightarrow> Some (map ch_chunk (p1_evidence r))) = Some [''k1'', ''k2'']"
  by code_simp

theorem children_prove_witness:
  "proven demo_retrieval () ''k1''"
proof -
  obtain r where r: "pass1_retrieve PASS1_DEFAULT_PLAN demo_retrieval ''query'' = Inr r" "map ch_chunk (p1_evidence r) = [''k1'', ''k2'']"
    using demo_retrieval_run by (auto split: sum.splits)
  then obtain c where c: "c \<in> set (p1_evidence r)" "ch_chunk c = ''k1''" by (cases "p1_evidence r"; cases "tl (p1_evidence r)") auto
  have "list_all (\<lambda>c. proven demo_retrieval (re_embed demo_retrieval ''query'') (ch_chunk c) \<or>
      ch_arrival c = Neighbor_Expansion \<and> 0 < rp_neighbors PASS1_DEFAULT_PLAN \<and> re_neighbors demo_retrieval \<noteq> None) (p1_evidence r)"
    using children_prove [OF r(1)] by simp
  from list_all_conv [OF this c(1)] show ?thesis using c(2) by (simp add: demo_retrieval_def)
qed

text \<open>
  A neighbour of an earlier document takes the place of a ranked candidate of a later one when the
  budget is short: the neighbours are appended, but the budget is filled document by document.
\<close>

definition demo_document :: "string \<Rightarrow> document_candidate" where
  "demo_document d = new_candidate \<lparr>lh_kind = Child_Lane, lh_rank = 0, lh_similarity = 0, lh_corpus = [], lh_doc = d,
     lh_parent = [], lh_chunk = [], lh_summary = [], lh_source = [], lh_text = []\<rparr>"

lemma neighbour_displaces_candidate:
  "let ranked = [demo_child ''a1'' ''a'' Section_Led, demo_child ''b1'' ''b'' Section_Led];
       look = (\<lambda>want n. Some [\<lparr>nb_chunk = Some ''a2'', nb_doc = Some ''a'', nb_parent = None, nb_text = None, nb_source = None\<rparr>])
   in map ch_chunk (final_evidence 2 [demo_document ''a'', demo_document ''b''] ranked) = [''a1'', ''b1''] \<and>
      map ch_chunk (final_evidence 2 [demo_document ''a'', demo_document ''b''] (fst (expand_neighbors ranked 1 8 (Some look)))) =
        [''a1'', ''a2'']"
  by code_simp

text \<open>The positions in the sorted lane are the ranks, so two documents of one card get two ranks.\<close>

lemma card_votes_get_different_ranks:
  "map (\<lambda>h. (lh_doc h, lh_rank h)) (search_lane PASS1_DEFAULT_PLAN
     (demo_retrieval\<lparr>re_search := \<lambda>coll v f. [demo_row ''a'' [] [] 1\<lparr>rr_docs := [''a'', ''b'']\<rparr>]\<rparr>) () Entity_Card 32 None None) =
   [(''a'', 0), (''b'', 1)]"
  by code_simp

end
