(* ===== verification/Evidence_Utility.thy ===== *)
theory Evidence_Utility
  imports Pass1_Evidence
begin

text \<open>
  The composition of an evidence set by marginal utility
  (\<^verbatim>\<open>shared/polymath_shared/evidence_utility.py\<close>): the pre-rerank cut that fills the unreserved
  seats by a greedy choice within a lookahead window, and the competition of the latent survivors
  against the reranker's scores. The token set of a candidate is that of its text; the source
  caches it on the candidate during the cut and removes it again. The requirement sets of a query
  (\<open>derive_requirements\<close>) are an argument.
\<close>

section \<open>Tokens\<close>

definition EU_STOPWORDS :: "string list" where
  "EU_STOPWORDS =
     [''a'', ''an'', ''and'', ''are'', ''as'', ''at'', ''be'', ''but'', ''by'', ''for'', ''from'', ''has'', ''have'',
      ''how'', ''in'', ''is'', ''it'', ''of'', ''on'', ''or'', ''that'', ''the'', ''this'', ''to'', ''was'', ''what'',
      ''when'', ''where'', ''which'', ''why'', ''will'', ''with'', ''should'', ''i'', ''do'', ''does'', ''can'',
      ''could'', ''would'', ''you'', ''your'', ''my'', ''we'']"

definition eu_start :: "char \<Rightarrow> bool" where
  "eu_start c \<longleftrightarrow> 97 \<le> (of_char c :: nat) \<and> (of_char c :: nat) \<le> 122 \<or> py_isdigit c"

definition content_tokens :: "string \<Rightarrow> string set" where
  "content_tokens text = set (filter (\<lambda>t. t \<notin> set EU_STOPWORDS \<and> 2 < length t)
     (regex_words eu_start (\<lambda>c. eu_start c \<or> c \<in> set ''_-'') 1 (py_lower text)))"

definition token_jaccard :: "'a set \<Rightarrow> 'a set \<Rightarrow> rat" where
  "token_jaccard a b = (if a = {} \<or> b = {} then 0 else of_nat (card (a \<inter> b)) / of_nat (card (a \<union> b)))"

definition child_tokens :: "child_item \<Rightarrow> string set" where
  "child_tokens c = content_tokens (ch_text c)"

section \<open>The cut\<close>

record eu_config =
  eu_requirements :: "string set list"
  eu_saturation :: int
  eu_veto :: rat
  eu_lookahead :: int

record eu_state =
  eu_pool :: "child_item list"
  eu_selected :: "child_item list"
  eu_covered :: "bool list"
  eu_promotions :: nat
  eu_parent_deferrals :: nat
  eu_redundancy_deferrals :: nat

text \<open>
  \<open>per_parent\<close> and \<open>selected_tokens\<close> of the source are the counts and the token sets of the
  selected list.
\<close>

definition parent_count :: "child_item list \<Rightarrow> string \<Rightarrow> int" where
  "parent_count selected pid = int (length (filter (\<lambda>c. ch_parent c = pid) selected))"

definition eu_covers :: "eu_config \<Rightarrow> bool list \<Rightarrow> child_item \<Rightarrow> bool" where
  "eu_covers cfg covered c =
     list_ex (\<lambda>(done, req). \<not> done \<and> 12 / 100 < token_jaccard (child_tokens c) req) (zip covered (eu_requirements cfg))"

definition eu_redundant :: "eu_config \<Rightarrow> child_item list \<Rightarrow> child_item \<Rightarrow> bool" where
  "eu_redundant cfg selected c = list_ex (\<lambda>s. eu_veto cfg \<le> token_jaccard (child_tokens c) (child_tokens s)) selected"

definition eu_key :: "eu_config \<Rightarrow> eu_state \<Rightarrow> child_item list \<Rightarrow> nat \<Rightarrow> bool \<times> bool \<times> bool \<times> nat" where
  "eu_key cfg st window i =
     (\<not> eu_covers cfg (eu_covered st) (window ! i),
      \<not> parent_count (eu_selected st) (ch_parent (window ! i)) < eu_saturation cfg,
      eu_redundant cfg (eu_selected st) (window ! i), i)"

definition best_index :: "eu_config \<Rightarrow> eu_state \<Rightarrow> nat" where
  "best_index cfg st =
     (let window = py_upto (eu_lookahead cfg) (eu_pool st) in
      if window = [] then 0 else py_min (eu_key cfg st window) 0 [1..<length window])"

definition eu_choose :: "eu_config \<Rightarrow> eu_state \<Rightarrow> eu_state" where
  "eu_choose cfg st =
     (let i = best_index cfg st;
          chosen = eu_pool st ! i;
          skipped = hd (eu_pool st);
          full = eu_saturation cfg \<le> parent_count (eu_selected st) (ch_parent skipped);
          dup = eu_redundant cfg (eu_selected st) skipped
      in st\<lparr>eu_pool := take i (eu_pool st) @ drop (Suc i) (eu_pool st),
            eu_selected := eu_selected st @ [chosen],
            eu_covered := map (\<lambda>(done, req). done \<or> 12 / 100 < token_jaccard (child_tokens chosen) req)
              (zip (eu_covered st) (eu_requirements cfg)),
            eu_promotions := eu_promotions st + (if 0 < i then 1 else 0),
            eu_parent_deferrals := eu_parent_deferrals st + (if 0 < i \<and> full then 1 else 0),
            eu_redundancy_deferrals := eu_redundancy_deferrals st + (if 0 < i \<and> \<not> full \<and> dup then 1 else 0)\<rparr>)"

lemma best_index_less: "eu_pool st \<noteq> [] \<Longrightarrow> best_index cfg st < length (eu_pool st)"
proof -
  assume ne: "eu_pool st \<noteq> []"
  let ?w = "py_upto (eu_lookahead cfg) (eu_pool st)"
  have "length ?w \<le> length (eu_pool st)" by (simp add: py_upto_def)
  moreover have "py_min (eu_key cfg st ?w) 0 [1..<length ?w] < length ?w" if "?w \<noteq> []"
    using py_min_in [of "eu_key cfg st ?w" 0 "[1..<length ?w]"] that by auto
  ultimately show ?thesis using ne by (auto simp: best_index_def Let_def)
qed

function eu_fill :: "eu_config \<Rightarrow> int \<Rightarrow> eu_state \<Rightarrow> eu_state" where
  "eu_fill cfg body_limit st =
     (if eu_pool st = [] \<or> body_limit \<le> int (length (eu_selected st)) then st
      else eu_fill cfg body_limit (eu_choose cfg st))"
  by pat_completeness auto
termination
proof (relation "measure (\<lambda>(cfg, n, st). length (eu_pool st))", goal_cases)
  case (2 cfg n st)
  then show ?case using best_index_less [of st cfg] by (simp add: eu_choose_def Let_def)
qed simp

declare eu_fill.simps [simp del]

definition utility_cut :: "eu_config \<Rightarrow> child_item list \<Rightarrow> int \<Rightarrow> int \<Rightarrow> arrival list \<Rightarrow> child_item list \<times> eu_state" where
  "utility_cut cfg candidates limit reserved rescue_arrivals =
     (let start = \<lparr>eu_pool = [], eu_selected = [], eu_covered = map (\<lambda>_. False) (eu_requirements cfg), eu_promotions = 0,
        eu_parent_deferrals = 0, eu_redundancy_deferrals = 0\<rparr> in
      if limit \<le> 0 \<or> int (length candidates) \<le> limit
      then (if 0 \<le> limit then py_upto limit candidates else candidates, start)
      else let rescue = filter (\<lambda>c. ch_arrival c \<in> set rescue_arrivals) candidates;
               hierarchy = filter (\<lambda>c. ch_arrival c \<notin> set rescue_arrivals) candidates;
               seats = (if rescue = [] then 0 else min (min reserved (int (length rescue))) limit);
               st = eu_fill cfg (limit - seats) (start\<lparr>eu_pool := hierarchy\<rparr>);
               kept_ids = map ch_chunk (eu_selected st) @ map ch_chunk (py_upto seats rescue)
           in (py_upto limit (filter (\<lambda>c. ch_chunk c \<in> set kept_ids) candidates), st))"

section \<open>The latent competition\<close>

definition latent_floor :: "rat \<Rightarrow> child_item list \<Rightarrow> rat option" where
  "latent_floor margin non_latent =
     (case List.map_filter ch_rerank non_latent of [] \<Rightarrow> None | s # ss \<Rightarrow> Some (py_min (\<lambda>x. x) s ss - margin))"

definition latent_keeps :: "rat option \<Rightarrow> child_item list \<Rightarrow> child_item \<Rightarrow> bool" where
  "latent_keeps bar non_latent c \<longleftrightarrow>
     (case bar of None \<Rightarrow> True | Some f \<Rightarrow> (case ch_rerank c of None \<Rightarrow> True | Some s \<Rightarrow> f \<le> s)) \<or>
     ch_parent c \<notin> ch_parent ` set non_latent"

definition latent_competition :: "child_item list \<Rightarrow> arrival \<Rightarrow> rat \<Rightarrow> child_item list" where
  "latent_competition candidates latent_arrival margin =
     (let non_latent = filter (\<lambda>c. ch_arrival c \<noteq> latent_arrival) candidates;
          latent = filter (\<lambda>c. ch_arrival c = latent_arrival) candidates;
          dropped = map ch_chunk (filter (\<lambda>c. \<not> latent_keeps (latent_floor margin non_latent) non_latent c) latent)
      in if latent = [] \<or> dropped = [] then candidates
         else filter (\<lambda>c. ch_chunk c \<notin> set dropped) candidates)"

section \<open>What the cut keeps\<close>

lemma eu_choose_simps [simp]:
  "eu_pool (eu_choose cfg st) = take (best_index cfg st) (eu_pool st) @ drop (Suc (best_index cfg st)) (eu_pool st)"
  "eu_selected (eu_choose cfg st) = eu_selected st @ [eu_pool st ! best_index cfg st]"
  by (simp_all add: eu_choose_def Let_def)

lemma set_pick: "i < length xs \<Longrightarrow> set xs = insert (xs ! i) (set (take i xs @ drop (Suc i) xs))"
proof -
  assume "i < length xs"
  then have "xs = take i xs @ xs ! i # drop (Suc i) xs" by (rule id_take_nth_drop)
  then show ?thesis by (metis Un_insert_right list.simps(15) set_append)
qed

lemma distinct_pick: "i < length xs \<Longrightarrow> distinct xs \<Longrightarrow>
    xs ! i \<notin> set (take i xs @ drop (Suc i) xs) \<and> distinct (take i xs @ drop (Suc i) xs)"
proof -
  assume i: "i < length xs" and d: "distinct xs"
  have "distinct (take i xs @ xs ! i # drop (Suc i) xs)" using d id_take_nth_drop [OF i] by metis
  then show ?thesis by simp
qed

lemma eu_body_length: "l < n \<Longrightarrow> max (Suc l) (min n (Suc l + k)) = max l (min n (l + Suc k))" for l n k :: nat
  by (auto simp: max_def min_def)

text \<open>The greedy choice moves elements from the pool to the selection until the body is full.\<close>

lemma eu_fill_moves:
  assumes "distinct (eu_selected st @ eu_pool st)"
  shows "set (eu_selected (eu_fill cfg n st)) \<subseteq> set (eu_selected st) \<union> set (eu_pool st) \<and>
    distinct (eu_selected (eu_fill cfg n st)) \<and>
    length (eu_selected (eu_fill cfg n st)) =
      max (length (eu_selected st)) (min (nat n) (length (eu_selected st) + length (eu_pool st)))"
  using assms
proof (induction cfg n st rule: eu_fill.induct)
  case (1 cfg n st)
  show ?case
  proof (cases "eu_pool st = [] \<or> n \<le> int (length (eu_selected st))")
    case True
    then have "eu_fill cfg n st = st" by (simp add: eu_fill.simps [of cfg n st])
    then show ?thesis using True "1.prems" by auto
  next
    case False
    then have eq: "eu_fill cfg n st = eu_fill cfg n (eu_choose cfg st)" by (simp add: eu_fill.simps [of cfg n st])
    have i: "best_index cfg st < length (eu_pool st)" using False by (intro best_index_less) simp
    let ?c = "eu_pool st ! best_index cfg st" and ?rest = "eu_pool (eu_choose cfg st)"
    have pick: "set (eu_pool st) = insert ?c (set ?rest)" "?c \<notin> set ?rest \<and> distinct ?rest"
      using set_pick [OF i] distinct_pick [OF i] "1.prems" by simp_all
    have len: "Suc (length ?rest) = length (eu_pool st)" using i by simp
    have "distinct (eu_selected (eu_choose cfg st) @ ?rest)" using "1.prems" pick by (simp del: eu_choose_simps(1))
    note IH = "1.IH" [OF False this]
    have sel: "length (eu_selected (eu_choose cfg st)) = Suc (length (eu_selected st))" by simp
    have "length (eu_selected st) < nat n" using False by (simp add: not_le zless_nat_eq_int_zless)
    then have "length (eu_selected (eu_fill cfg n st)) =
        max (length (eu_selected st)) (min (nat n) (length (eu_selected st) + length (eu_pool st)))"
      using conjunct2 [OF conjunct2 [OF IH]] unfolding eq sel len [symmetric] by (simp only: eu_body_length)
    moreover have "set (eu_selected (eu_choose cfg st)) \<union> set ?rest = set (eu_selected st) \<union> set (eu_pool st)"
      using pick(1) by (simp del: eu_choose_simps(1))
    ultimately show ?thesis using IH unfolding eq by simp
  qed
qed

definition eu_start_state :: "eu_config \<Rightarrow> child_item list \<Rightarrow> eu_state" where
  "eu_start_state cfg pool = \<lparr>eu_pool = pool, eu_selected = [], eu_covered = map (\<lambda>_. False) (eu_requirements cfg),
     eu_promotions = 0, eu_parent_deferrals = 0, eu_redundancy_deferrals = 0\<rparr>"

lemma utility_cut_members:
  fixes cfg
  assumes d: "distinct (map ch_chunk cs)" and lim: "0 < limit" "limit < int (length cs)"
    and res: "0 < reserved \<or> filter (\<lambda>c. ch_arrival c \<in> set as) cs = []"
  defines "r \<equiv> filter (\<lambda>c. ch_arrival c \<in> set as) cs" and "h \<equiv> filter (\<lambda>c. ch_arrival c \<notin> set as) cs"
  defines "s \<equiv> seats_of limit reserved (length r)"
  defines "sel \<equiv> eu_selected (eu_fill cfg (limit - int s) (eu_start_state cfg h))"
  shows "fst (utility_cut cfg cs limit reserved as) = filter (\<lambda>c. c \<in> set sel \<union> set (take s r)) cs"
    "set sel \<subseteq> set h" "distinct sel" "length sel = min (nat limit - s) (length h)"
proof -
  let ?seats = "if r = [] then 0 else min (min reserved (int (length r))) limit"
  have s: "?seats = int s" and sl: "int s \<le> limit" using lim(1) res by (auto simp: s_def seats_of_def r_def)
  have dh: "distinct h" using d by (simp add: h_def distinct_map)
  have sel: "set sel \<subseteq> set h \<and> distinct sel \<and> length sel = min (nat limit - s) (length h)"
    using eu_fill_moves [of "eu_start_state cfg h" cfg "limit - int s"] dh
    by (simp add: sel_def eu_start_state_def nat_diff_distrib)
  then show "set sel \<subseteq> set h" "distinct sel" "length sel = min (nat limit - s) (length h)" by simp_all
  have k: "map ch_chunk sel @ map ch_chunk (py_upto ?seats r) = map ch_chunk (sel @ take s r)"
    unfolding s by (simp add: py_upto_nonneg)
  have "fst (utility_cut cfg cs limit reserved as) =
      py_upto limit (filter (\<lambda>c. ch_chunk c \<in> set (map ch_chunk sel @ map ch_chunk (py_upto ?seats r))) cs)"
    unfolding utility_cut_def Let_def
    using lim by (cases "r = []") (simp_all add: s [unfolded r_def, symmetric] sel_def eu_start_state_def h_def r_def not_le
        del: map_append set_append)
  also have "\<dots> = filter (\<lambda>c. c \<in> set (sel @ take s r)) cs"
    unfolding k
  proof (rule filter_ids [OF d _ _ lim(1)])
    show "set (sel @ take s r) \<subseteq> set cs" using sel by (auto simp: h_def r_def dest!: in_set_takeD)
    show "length (sel @ take s r) \<le> nat limit" using sel sl by auto
  qed
  finally show "fst (utility_cut cfg cs limit reserved as) = filter (\<lambda>c. c \<in> set sel \<union> set (take s r)) cs" by simp
qed

text \<open>With nothing to prefer, the first of the pool is the best of the window.\<close>

lemma py_min_first: "list_all (\<lambda>x. \<not> f x < f b) xs \<Longrightarrow> py_min f b xs = b"
  by (induction xs) auto

lemma quiet_best_index:
  assumes "eu_requirements cfg = []" "1 \<le> eu_lookahead cfg" "eu_pool st \<noteq> []"
    "parent_count (eu_selected st) (ch_parent (hd (eu_pool st))) < eu_saturation cfg"
    "\<not> eu_redundant cfg (eu_selected st) (hd (eu_pool st))"
  shows "best_index cfg st = 0"
proof -
  let ?w = "py_upto (eu_lookahead cfg) (eu_pool st)"
  have w0: "?w ! 0 = hd (eu_pool st)" using assms(2,3) by (simp add: py_upto_nonneg hd_conv_nth)
  have "eu_key cfg st ?w 0 = (True, False, False, 0)"
    unfolding eu_key_def w0 using assms by (simp add: eu_covers_def)
  moreover have "fst (eu_key cfg st ?w i)" for i using assms(1) by (simp add: eu_key_def eu_covers_def)
  ultimately have "\<not> eu_key cfg st ?w i < eu_key cfg st ?w 0" for i
  proof -
    assume k: "eu_key cfg st ?w 0 = (True, False, False, 0)" and f: "\<And>i. fst (eu_key cfg st ?w i)"
    show ?thesis unfolding k using f [of i]
      by (cases "eu_key cfg st ?w i") (auto simp: less_prod_def less_eq_prod_def)
  qed
  then show ?thesis by (simp add: best_index_def Let_def py_min_first list_all_iff)
qed

lemma eu_fill_quiet:
  assumes "eu_requirements cfg = []" "1 \<le> eu_lookahead cfg"
    and quiet: "\<And>i. i < length h \<Longrightarrow> parent_count (take i h) (ch_parent (h ! i)) < eu_saturation cfg \<and>
      \<not> eu_redundant cfg (take i h) (h ! i)"
    and "eu_selected st = take n h" "eu_pool st = drop n h" "n \<le> length h"
  shows "eu_selected (eu_fill cfg m st) = take (max n (nat m)) h"
  using assms(4-6)
proof (induction "length h - n" arbitrary: n st)
  case 0
  then show ?case by (simp add: eu_fill.simps [of cfg m st])
next
  case (Suc k)
  show ?case
  proof (cases "m \<le> int n")
    case True
    then have "max n (nat m) = n" by simp
    then show ?thesis using True Suc.prems by (simp add: eu_fill.simps [of cfg m st])
  next
    case False
    have n: "n < length h" using Suc.hyps(2) by simp
    have "best_index cfg st = 0"
      using quiet [OF n] Suc.prems n by (intro quiet_best_index assms) (simp_all add: hd_drop_conv_nth)
    then have "eu_selected (eu_choose cfg st) = take (Suc n) h" "eu_pool (eu_choose cfg st) = drop (Suc n) h"
      using Suc.prems n by (simp_all add: take_Suc_conv_app_nth drop_Suc tl_drop)
    then have "eu_selected (eu_fill cfg m (eu_choose cfg st)) = take (max (Suc n) (nat m)) h"
      using Suc.hyps(2) n by (intro Suc.hyps(1)) simp_all
    moreover have "eu_fill cfg m st = eu_fill cfg m (eu_choose cfg st)"
      using False Suc.prems n by (simp add: eu_fill.simps [of cfg m st])
    moreover have "max (Suc n) (nat m) = max n (nat m)" using False by simp
    ultimately show ?thesis by simp
  qed
qed



text \<open>
  With nothing to prefer, the utility cut is the plain cut. If the query has no requirements,
  the lookahead is at least one, and along the original order no unreserved candidate meets a
  saturated parent or a redundant text, then the utility cut returns the list the reserving cut
  returns, provided something is reserved or there is nothing to rescue.
\<close>

theorem utility_cut_degenerates:
  assumes "distinct (map ch_chunk cs)" "0 < limit" "limit < int (length cs)"
    "0 < reserved \<or> filter (\<lambda>c. ch_arrival c \<in> set as) cs = []"
    "eu_requirements cfg = []" "1 \<le> eu_lookahead cfg"
    "\<forall>i < length (filter (\<lambda>c. ch_arrival c \<notin> set as) cs). let h = filter (\<lambda>c. ch_arrival c \<notin> set as) cs in
      parent_count (take i h) (ch_parent (h ! i)) < eu_saturation cfg \<and> \<not> eu_redundant cfg (take i h) (h ! i)"
  shows "fst (utility_cut cfg cs limit reserved as) = truncate_reserving_rescue cs limit reserved as"
proof -
  let ?r = "filter (\<lambda>c. ch_arrival c \<in> set as) cs" and ?h = "filter (\<lambda>c. ch_arrival c \<notin> set as) cs"
  let ?s = "seats_of limit reserved (length ?r)"
  have diff: "nat (l - int s) = nat l - s" for l s by arith
  have sel: "eu_selected (eu_fill cfg (limit - int ?s) (eu_start_state cfg ?h)) = take (nat limit - ?s) ?h"
    using eu_fill_quiet [of cfg ?h "eu_start_state cfg ?h" 0 "limit - int ?s"] assms(5-7)
    by (simp add: eu_start_state_def Let_def diff)
  have out: "fst (utility_cut cfg cs limit reserved as) = filter (\<lambda>c. c \<in> set (take (nat limit - ?s) ?h) \<union> set (take ?s ?r)) cs"
    using utility_cut_members(1) [OF assms(1-4), of cfg] unfolding sel .
  show ?thesis
  proof (cases "?r = []")
    case False
    then show ?thesis unfolding out using assms(4) by (intro cut_members [OF assms(1-3), symmetric]) simp_all
  next
    case True
    then have h: "?h = cs" by (metis filter_True filter_empty_conv)
    have "seats_of limit reserved (length ?r) = 0" using True assms(2) by (simp add: seats_of_def)
    then have "fst (utility_cut cfg cs limit reserved as) = filter (\<lambda>c. c \<in> set (take (nat limit) cs)) cs"
      unfolding out h True by simp
    also have "\<dots> = take (nat limit) cs"
      using assms(1) by (intro subseq_filter_distinct subseq_take) (simp add: distinct_map)
    also have "\<dots> = truncate_reserving_rescue cs limit reserved as"
      using True assms(2,3) by (simp add: truncate_reserving_rescue_def py_upto_nonneg Let_def)
    finally show ?thesis .
  qed
qed

theorem utility_cut_degenerates_witness:
  "fst (utility_cut \<lparr>eu_requirements = [], eu_saturation = 4, eu_veto = 6 / 10, eu_lookahead = 12\<rparr> demo_children 3 2 [Global_Child_Rescue]) =
   truncate_reserving_rescue demo_children 3 2 [Global_Child_Rescue]"
proof (rule utility_cut_degenerates)
  let ?h = "filter (\<lambda>c. ch_arrival c \<notin> set [Global_Child_Rescue]) demo_children"
  have h: "?h = [demo_child ''h1'' ''d'' Section_Led, demo_child ''h2'' ''d'' Section_Led, demo_child ''h3'' ''d'' Section_Led]"
    by (simp add: demo_children_def demo_child_def)
  show "\<forall>i < length ?h. let h = ?h in parent_count (take i h) (ch_parent (h ! i)) <
      eu_saturation \<lparr>eu_requirements = [], eu_saturation = 4, eu_veto = 6 / 10, eu_lookahead = 12\<rparr> \<and>
      \<not> eu_redundant \<lparr>eu_requirements = [], eu_saturation = 4, eu_veto = 6 / 10, eu_lookahead = 12\<rparr> (take i h) (h ! i)"
    unfolding h Let_def
    by (auto simp: demo_child_def parent_count_def eu_redundant_def child_tokens_def content_tokens_def py_lower_def
        token_jaccard_def less_Suc_eq nth_Cons')
qed (simp_all add: demo_children_def demo_child_def)

text \<open>
  C37. The latent competition is fair and fails open. For candidates with distinct chunk ids it
  returns a subsequence, keeps every candidate that is not latent, and drops a latent one exactly
  when it has a reranker score below the bar (the weakest score of the others less the margin) and
  its parent is already covered by a candidate that is not latent; so without scores nothing is
  dropped.
\<close>

theorem latent_competition_is_fair:
  assumes "distinct (map ch_chunk cs)"
  shows "let out = latent_competition cs a margin; others = filter (\<lambda>c. ch_arrival c \<noteq> a) cs;
      bar = latent_floor margin others
    in out = filter (\<lambda>c. ch_arrival c \<noteq> a \<or> bar = None \<or> ch_rerank c = None \<or> the bar \<le> the (ch_rerank c) \<or>
         ch_parent c \<notin> ch_parent ` set others) cs"
proof -
  let ?n = "filter (\<lambda>c. ch_arrival c \<noteq> a) cs" and ?l = "filter (\<lambda>c. ch_arrival c = a) cs"
  let ?drop = "filter (\<lambda>c. \<not> latent_keeps (latent_floor margin ?n) ?n c) ?l"
  have keeps: "latent_keeps (latent_floor margin ?n) ?n c \<longleftrightarrow> latent_floor margin ?n = None \<or> ch_rerank c = None \<or>
      the (latent_floor margin ?n) \<le> the (ch_rerank c) \<or> ch_parent c \<notin> ch_parent ` set ?n" for c
    by (auto simp: latent_keeps_def split: option.splits)
  have "latent_competition cs a margin = filter (\<lambda>c. ch_chunk c \<notin> ch_chunk ` set ?drop) cs"
  proof (cases "?l = [] \<or> ?drop = []")
    case True
    then have drop: "?drop = []" by (elim disjE) (simp_all del: filter_filter)
    have "latent_competition cs a margin = cs" using True by (auto simp: latent_competition_def Let_def)
    then show ?thesis unfolding drop by simp
  next
    case False
    then show ?thesis by (simp add: latent_competition_def Let_def del: filter_filter)
  qed
  also have "\<dots> = filter (\<lambda>c. c \<notin> set ?drop) cs"
  proof (rule filter_cong [OF refl])
    fix c assume "c \<in> set cs"
    then show "ch_chunk c \<notin> ch_chunk ` set ?drop \<longleftrightarrow> c \<notin> set ?drop"
      using assms by (auto simp: distinct_map dest: inj_onD)
  qed
  also have "\<dots> = filter (\<lambda>c. ch_arrival c \<noteq> a \<or> latent_keeps (latent_floor margin ?n) ?n c) cs"
    by (rule filter_cong) auto
  finally show ?thesis by (simp add: keeps Let_def)
qed

theorem latent_competition_is_fair_witness:
  "latent_competition [demo_child ''h1'' ''d'' Section_Led\<lparr>ch_rerank := Some 1\<rparr>, demo_child ''l'' ''e'' Latent_Rescue\<lparr>ch_rerank := Some 0\<rparr>]
     Latent_Rescue (1 / 20) = [demo_child ''h1'' ''d'' Section_Led\<lparr>ch_rerank := Some 1\<rparr>]"
  using latent_competition_is_fair [of "[demo_child ''h1'' ''d'' Section_Led\<lparr>ch_rerank := Some 1\<rparr>,
      demo_child ''l'' ''e'' Latent_Rescue\<lparr>ch_rerank := Some 0\<rparr>]" Latent_Rescue "1 / 20"]
  by (simp add: demo_child_def latent_floor_def map_filter_simps Let_def)

text \<open>With nothing reserved the two cuts differ: the plain cut ranks, the utility cut drops every rescue candidate.\<close>

lemma cuts_differ_without_reservation:
  "map ch_chunk (truncate_reserving_rescue (rev demo_children) 3 0 [Global_Child_Rescue]) = [''g1'', ''h3'', ''h2''] \<and>
   map ch_chunk (fst (utility_cut \<lparr>eu_requirements = [], eu_saturation = 4, eu_veto = 6 / 10, eu_lookahead = 12\<rparr>
     (rev demo_children) 3 0 [Global_Child_Rescue])) = [''h3'', ''h2'', ''h1'']"
  by code_simp

end
