(* ===== verification/Hybrid.thy ===== *)
theory Hybrid
  imports Evidence_Utility
begin

text \<open>
  The HYBRID retrieval engine (\<^verbatim>\<open>shared/polymath_shared/hybrid.py\<close>) and its latent rescue lane
  (\<^verbatim>\<open>shared/polymath_shared/latent/rescue.py\<close>): the FAST engine with reranking and neighbours
  switched off, a lexical lane, four-lane fusion, the optional document-level MMR choice, lexical
  and latent rescue, the demotion, cut, reranking and expansion of Pass-1, and the same budget.
  All scores are exact rationals; the square root in the cosine (\<open>** 0.5\<close> on floats) is an argument.
\<close>

section \<open>Document-level MMR\<close>

definition cosine :: "(rat \<Rightarrow> rat) \<Rightarrow> rat list \<Rightarrow> rat list \<Rightarrow> rat" where
  "cosine sq a b =
     (let dot = sum_list (map2 (*) a b);
          na = sq (sum_list (map (\<lambda>x. x * x) a));
          nb = sq (sum_list (map (\<lambda>y. y * y) b))
      in if na \<noteq> 0 \<and> nb \<noteq> 0 then dot / (na * nb) else 0)"

definition rel_of :: "(string, rat) dict \<Rightarrow> document_candidate \<Rightarrow> rat" where
  "rel_of relevance c = opt_or 0 (map_of relevance (cand_doc c))"

definition redundancy :: "(rat \<Rightarrow> rat) \<Rightarrow> (string, rat list) dict \<Rightarrow> document_candidate list \<Rightarrow> document_candidate \<Rightarrow> rat" where
  "redundancy sq vectors selected c =
     (case map (\<lambda>s. cosine sq (opt_or [] (map_of vectors (cand_doc c))) (opt_or [] (map_of vectors (cand_doc s)))) selected of
        [] \<Rightarrow> 0 | x # xs \<Rightarrow> py_max (\<lambda>y. y) x xs)"

definition mmr_score :: "(rat \<Rightarrow> rat) \<Rightarrow> (string, rat) dict \<Rightarrow> (string, rat list) dict \<Rightarrow> rat \<Rightarrow> document_candidate list \<Rightarrow>
    document_candidate \<Rightarrow> rat" where
  "mmr_score sq relevance vectors lam selected c = lam * rel_of relevance c - (1 - lam) * redundancy sq vectors selected c"

text \<open>The scan of the remaining candidates: a higher score wins, then a smaller document id.\<close>

fun mmr_best :: "(document_candidate \<Rightarrow> rat) \<Rightarrow> document_candidate option \<Rightarrow> document_candidate list \<Rightarrow>
    document_candidate option" where
  "mmr_best f b [] = b"
| "mmr_best f b (c # cs) = mmr_best f (case b of None \<Rightarrow> Some c
     | Some x \<Rightarrow> if f x < f c \<or> f c = f x \<and> cand_doc c < cand_doc x then Some c else b) cs"

lemma mmr_best_in: "mmr_best f b cs = Some x \<Longrightarrow> b = Some x \<or> x \<in> set cs"
  by (induction f b cs rule: mmr_best.induct) (fastforce split: option.splits if_splits)+

function mmr_loop :: "(document_candidate list \<Rightarrow> document_candidate \<Rightarrow> rat) \<Rightarrow> int \<Rightarrow> document_candidate list \<Rightarrow>
    document_candidate list \<Rightarrow> document_candidate list" where
  "mmr_loop score cap selected remaining =
     (if remaining = [] \<or> cap \<le> int (length selected) then selected
      else case mmr_best (score selected) None remaining of
          None \<Rightarrow> selected
        | Some best \<Rightarrow> mmr_loop score cap (selected @ [best]) (remove1 best remaining))"
  by pat_completeness auto
termination
  by (relation "measure (\<lambda>(score, cap, selected, remaining). length remaining)")
    (auto dest!: mmr_best_in simp: length_remove1 length_pos_if_in_set)

declare mmr_loop.simps [simp del]

definition rel_order :: "(string, rat) dict \<Rightarrow> document_candidate \<Rightarrow> rat \<times> string" where
  "rel_order relevance c = (- opt_or 0 (map_of relevance (cand_doc c)), cand_doc c)"

definition mmr_select :: "(rat \<Rightarrow> rat) \<Rightarrow> document_candidate list \<Rightarrow> (string, rat) dict \<Rightarrow> (string, rat list) dict \<Rightarrow> rat \<Rightarrow> int \<Rightarrow>
    document_candidate list" where
  "mmr_select sq candidates relevance vectors lam max_documents =
     mmr_loop (mmr_score sq relevance vectors lam) max_documents [] (sort_key (rel_order relevance) candidates)"

section \<open>Latent rescue\<close>

datatype latent_kind = Latent_Abstraction | Latent_Transfer
datatype latent_degraded = Budget_Exceeded | Search_Raised

record latent_parent =
  lp_parent :: string
  lp_doc :: string
  lp_source :: string
  lp_score :: rat
  lp_channels :: "(latent_kind, nat) dict"

record latent_result =
  lr_parents :: "latent_parent list"
  lr_degraded :: "latent_degraded option"

definition latent_vote :: "latent_kind \<Rightarrow> string list \<Rightarrow> nat \<times> routing_row \<Rightarrow>
    (string, latent_parent) dict \<Rightarrow> (string, latent_parent) dict" where
  "latent_vote kind skip ranked d =
     (let rank = fst ranked; row = snd ranked; pid = opt_or [] (rr_parent row); score = opt_or 0 (rr_score row) in
      if pid = [] \<or> pid \<in> set skip then d
      else let lp = opt_or \<lparr>lp_parent = pid, lp_doc = opt_or [] (rr_doc row), lp_source = opt_or [] (rr_source row),
                 lp_score = score, lp_channels = []\<rparr> (map_of d pid)
           in dict_set pid (lp\<lparr>lp_score := max (lp_score lp) score,
                lp_channels := dict_set kind (min (opt_or rank (map_of (lp_channels lp) kind)) rank) (lp_channels lp)\<rparr>) d)"

text \<open>
  \<open>late i\<close>: the clock is past the budget before the \<open>i\<close>-th search; a search that raises is \<open>None\<close>.
\<close>

fun latent_gather :: "(nat \<Rightarrow> bool) \<Rightarrow> (latent_kind \<Rightarrow> routing_row list option) \<Rightarrow> string list \<Rightarrow> nat \<Rightarrow>
    (latent_kind \<times> int) list \<Rightarrow> (string, latent_parent) dict \<Rightarrow> latent_degraded + (string, latent_parent) dict" where
  "latent_gather late search skip i [] d = Inr d"
| "latent_gather late search skip i ((kind, top_k) # ks) d =
     (if late i then Inl Budget_Exceeded
      else case search kind of None \<Rightarrow> Inl Search_Raised
        | Some rows \<Rightarrow> latent_gather late search skip (Suc i) ks
            (fold (latent_vote kind skip) (zip [0..<length (py_upto top_k rows)] (py_upto top_k rows)) d))"

definition latent_order :: "latent_parent \<Rightarrow> rat \<times> string" where
  "latent_order p = (- lp_score p, lp_parent p)"

definition latent_rescue_parents :: "(nat \<Rightarrow> bool) \<Rightarrow> (latent_kind \<Rightarrow> routing_row list option) \<Rightarrow> string list \<Rightarrow>
    int \<Rightarrow> int \<Rightarrow> int \<Rightarrow> latent_result" where
  "latent_rescue_parents late search skip abstraction_top_k transfer_top_k max_parents =
     (case latent_gather late search skip 0 [(Latent_Abstraction, abstraction_top_k), (Latent_Transfer, transfer_top_k)] [] of
        Inl e \<Rightarrow> \<lparr>lr_parents = [], lr_degraded = Some e\<rparr>
      | Inr d \<Rightarrow> \<lparr>lr_parents = py_upto max_parents (sort_key latent_order (map snd d)), lr_degraded = None\<rparr>)"

section \<open>The engine\<close>

record hybrid_plan =
  hp_corpora :: "string list option"
  hp_document_enabled :: bool
  hp_document_top_k :: int
  hp_section_enabled :: bool
  hp_section_top_k :: int
  hp_child_enabled :: bool
  hp_child_top_k :: int
  hp_lexical_enabled :: bool
  hp_lexical_top_k :: int
  hp_rrf_k :: int
  hp_mmr_enabled :: bool
  hp_mmr_lambda :: rat
  hp_max_documents :: int
  hp_max_sections :: int
  hp_max_children :: int
  hp_rescue_max :: int
  hp_lexical_rescue_max :: int
  hp_rerank_enabled :: bool
  hp_final_children :: int
  hp_final_items :: int
  hp_latent_enabled :: bool
  hp_latent_reserved :: int
  hp_reserved :: int
  hp_utility_enabled :: bool
  hp_eu_saturation :: int
  hp_eu_veto :: rat
  hp_eu_lookahead :: int
  hp_eu_latent_margin :: rat
  hp_neighbors :: int
  hp_neighbors_max :: int
  hp_demote :: bool

definition HYBRID_DEFAULT_PLAN :: hybrid_plan where
  "HYBRID_DEFAULT_PLAN =
     \<lparr>hp_corpora = None, hp_document_enabled = True, hp_document_top_k = 10, hp_section_enabled = True,
      hp_section_top_k = 10, hp_child_enabled = True, hp_child_top_k = 20, hp_lexical_enabled = True,
      hp_lexical_top_k = 20, hp_rrf_k = 60, hp_mmr_enabled = False, hp_mmr_lambda = 1, hp_max_documents = 5,
      hp_max_sections = 2, hp_max_children = 3, hp_rescue_max = 3, hp_lexical_rescue_max = 3,
      hp_rerank_enabled = True, hp_final_children = 10, hp_final_items = 12, hp_latent_enabled = False,
      hp_latent_reserved = 2, hp_reserved = 2, hp_utility_enabled = False, hp_eu_saturation = 2,
      hp_eu_veto = 6 / 10, hp_eu_lookahead = 12, hp_eu_latent_margin = 5 / 100, hp_neighbors = 0,
      hp_neighbors_max = 8, hp_demote = True\<rparr>"

record 'v hybrid_env =
  he_base :: "'v retrieval_env"
  he_lexical :: "(string \<Rightarrow> int \<Rightarrow> lane_hit list) option"
  he_vectors :: "(string \<Rightarrow> string list \<Rightarrow> (string, rat list) dict) option"
  he_latent :: "('v \<Rightarrow> string list \<Rightarrow> latent_result) option"
  he_root :: "rat \<Rightarrow> rat"
  he_requirements :: "string \<Rightarrow> string set list"

definition fast_plan :: "hybrid_plan \<Rightarrow> retrieval_plan" where
  "fast_plan plan = PASS1_DEFAULT_PLAN\<lparr>
     rp_corpora := hp_corpora plan, rp_document_enabled := hp_document_enabled plan,
     rp_document_top_k := hp_document_top_k plan, rp_section_enabled := hp_section_enabled plan,
     rp_section_top_k := hp_section_top_k plan, rp_child_enabled := hp_child_enabled plan,
     rp_child_top_k := hp_child_top_k plan, rp_rrf_k := hp_rrf_k plan, rp_max_documents := hp_max_documents plan,
     rp_max_sections := hp_max_sections plan, rp_max_children := hp_max_children plan,
     rp_rescue_max := hp_rescue_max plan, rp_rerank_enabled := False, rp_demote := hp_demote plan,
     rp_final_children := hp_final_children plan, rp_final_items := hp_final_items plan\<rparr>"

definition lexical_hits :: "hybrid_plan \<Rightarrow> 'v hybrid_env \<Rightarrow> string \<Rightarrow> lane_hit list" where
  "lexical_hits plan env query =
     (case he_lexical env of None \<Rightarrow> []
      | Some look \<Rightarrow> if hp_lexical_enabled plan then number_hits (look query (hp_lexical_top_k plan)) else [])"

definition choose_documents :: "hybrid_plan \<Rightarrow> 'v hybrid_env \<Rightarrow> string \<Rightarrow> document_candidate list \<Rightarrow> document_candidate list" where
  "choose_documents plan env query documents =
     (let pool = py_upto (hp_max_documents plan * 3) documents in
      case he_vectors env of
        Some vectors \<Rightarrow> if hp_mmr_enabled plan \<and> documents \<noteq> []
          then mmr_select (he_root env) pool (map (\<lambda>d. (cand_doc d, cand_score d)) documents) (vectors query (map cand_doc pool))
            (hp_mmr_lambda plan) (hp_max_documents plan)
          else py_upto (hp_max_documents plan) documents
      | None \<Rightarrow> py_upto (hp_max_documents plan) documents)"

definition add_lexical_section :: "string \<times> lane_hit \<Rightarrow> section_slot list \<Rightarrow> section_slot list" where
  "add_lexical_section ph sections =
     (if list_ex (\<lambda>s. sec_parent s = fst ph) sections then sections
      else sections @ [\<lparr>sec_doc = lh_doc (snd ph), sec_parent = fst ph, sec_summary = [], sec_source = lh_source (snd ph),
        sec_rank = lh_rank (snd ph), sec_similarity = lh_similarity (snd ph), sec_from = [From_Lexical_Rescue]\<rparr>])"

definition hybrid_sections :: "hybrid_plan \<Rightarrow> document_candidate list \<Rightarrow> lane_hit list \<Rightarrow> section_slot list" where
  "hybrid_sections plan selected lexical =
     (let parents = fold (\<lambda>h d. dict_set (lh_parent h) h d)
            (filter (\<lambda>h. list_ex (\<lambda>d. cand_doc d = lh_doc h) selected) lexical) []
      in py_upto (hp_max_sections plan * int (length selected))
           (sort_key section_order (fold add_lexical_section parents (resolve_sections selected (hp_max_sections plan)))))"

definition lexical_rescue :: "hybrid_plan \<Rightarrow> child_item list \<Rightarrow> child_item list \<Rightarrow> lane_hit list \<Rightarrow> child_item list" where
  "lexical_rescue plan deepened neural lexical =
     map snd (fold (\<lambda>h d. if lh_chunk h \<in> ch_chunk ` set deepened \<or> lh_chunk h \<in> ch_chunk ` set neural then d
         else dict_add (lh_chunk h) (child_of_hit Lexical_Rescue h\<lparr>ch_lexical_rank := Some (lh_rank h)\<rparr>) d)
       (py_upto (hp_lexical_rescue_max plan) lexical) [])"

definition latent_child :: "latent_parent \<Rightarrow> string \<Rightarrow> nat \<Rightarrow> routing_row \<Rightarrow> child_item" where
  "latent_child p cid rank row =
     \<lparr>ch_chunk = cid, ch_doc = (if opt_or [] (rr_doc row) = [] then lp_doc p else opt_or [] (rr_doc row)),
      ch_parent = lp_parent p, ch_text = opt_or [] (rr_text row),
      ch_source = (if opt_or [] (rr_source row) = [] then lp_source p else opt_or [] (rr_source row)),
      ch_similarity = Some (opt_or 0 (rr_score row)), ch_arrival = Latent_Rescue, ch_depth_rank = None,
      ch_global_rank = None, ch_lexical_rank = None, ch_latent_rank = Some rank, ch_document_rank = None,
      ch_role = None, ch_rerank = None\<rparr>"

text \<open>The children of one latent parent, as the search returns them under the child filter.\<close>

definition latent_rows :: "hybrid_plan \<Rightarrow> 'v retrieval_env \<Rightarrow> 'v \<Rightarrow> latent_parent \<Rightarrow> routing_row list" where
  "latent_rows plan env qvec p =
     (let corpus = (case opt_or [] (hp_corpora plan) of [] \<Rightarrow> None | c # _ \<Rightarrow> Some c);
          coll = (case corpus of None \<Rightarrow> [] | Some c \<Rightarrow> if c = [] then [] else re_collection env c)
      in py_upto (hp_max_children plan) (re_search env coll qvec
           \<lparr>sf_kind = Child_Lane, sf_corpus = corpus, sf_doc = None, sf_parent = Some (lp_parent p)\<rparr>))"

definition admit_latent :: "string list \<Rightarrow> latent_parent \<Rightarrow> nat \<times> routing_row \<Rightarrow>
    (string, child_item) dict \<Rightarrow> (string, child_item) dict" where
  "admit_latent taken p ranked d =
     (let cid = opt_or [] (rr_chunk (snd ranked)) in
      if cid = [] \<or> cid \<in> set taken then d else dict_add cid (latent_child p cid (fst ranked) (snd ranked)) d)"

definition latent_children :: "hybrid_plan \<Rightarrow> 'v retrieval_env \<Rightarrow> 'v \<Rightarrow> string list \<Rightarrow> latent_parent list \<Rightarrow> child_item list" where
  "latent_children plan env qvec taken parents =
     map snd (fold (\<lambda>p. let rows = latent_rows plan env qvec p in fold (admit_latent taken p) (zip [0..<length rows] rows)) parents [])"

definition hybrid_document_children :: "child_item list \<Rightarrow> document_candidate \<Rightarrow> child_item list" where
  "hybrid_document_children deepened doc =
     map (\<lambda>c. let c' = (if list_ex (\<lambda>h. lh_chunk h = ch_chunk c) (cand_children doc)
                         then c\<lparr>ch_arrival := Multi_Representation\<rparr> else c)
              in c'\<lparr>ch_document_rank := Some (cand_rank doc)\<rparr>)
       (sort_key depth_order (filter (\<lambda>c. ch_doc c = cand_doc doc) deepened))"

definition lexical_order :: "child_item \<Rightarrow> nat" where
  "lexical_order c = opt_or (10 ^ 9) (ch_lexical_rank c)"

definition latent_rank_order :: "child_item \<Rightarrow> nat" where
  "latent_rank_order c = opt_or (10 ^ 9) (ch_latent_rank c)"

definition hybrid_cut :: "hybrid_plan \<Rightarrow> 'v hybrid_env \<Rightarrow> string \<Rightarrow> bool \<Rightarrow> child_item list \<Rightarrow> child_item list" where
  "hybrid_cut plan env query has_latent cs =
     (let arrivals = (if has_latent then [Global_Child_Rescue, Latent_Rescue] else [Global_Child_Rescue]);
          reserved = hp_reserved plan + (if has_latent then hp_latent_reserved plan else 0)
      in if hp_utility_enabled plan
         then fst (utility_cut \<lparr>eu_requirements = he_requirements env query, eu_saturation = hp_eu_saturation plan,
           eu_veto = hp_eu_veto plan, eu_lookahead = hp_eu_lookahead plan\<rparr> cs (hp_final_children plan) reserved arrivals)
         else truncate_reserving_rescue cs (hp_final_children plan) reserved arrivals)"

record hybrid_result =
  hr_fast :: pass1_result
  hr_documents :: "document_candidate list"
  hr_lexical :: "lane_hit list"
  hr_selected :: "document_candidate list"
  hr_sections :: "section_slot list"
  hr_evidence :: "child_item list"
  hr_union :: "string list"
  hr_pre_g3 :: "string list"
  hr_post_g3 :: "string list"
  hr_rescue_seated :: nat
  hr_neighbors_added :: nat

text \<open>The candidates of the union, from the FAST result, the lexical lane and the latent parents.\<close>

definition hybrid_candidates :: "hybrid_plan \<Rightarrow> 'v hybrid_env \<Rightarrow> 'v \<Rightarrow> pass1_result \<Rightarrow> lane_hit list \<Rightarrow>
    document_candidate list \<Rightarrow> bool \<times> child_item list" where
  "hybrid_candidates plan env qvec fast lexical selected =
     (let deepened = p1_deepened fast; neural = p1_rescue fast;
          lex = lexical_rescue plan deepened neural lexical;
          latent = (case he_latent env of None \<Rightarrow> []
            | Some look \<Rightarrow> if hp_latent_enabled plan
                then latent_children plan (he_base env) qvec (map ch_chunk (deepened @ neural @ lex))
                  (lr_parents (look qvec (map sec_parent (p1_sections fast))))
                else [])
      in (latent \<noteq> [], dedupe_chunks [] (concat (map (hybrid_document_children deepened) selected) @
            sort_key global_order neural @ sort_key lexical_order lex @ sort_key latent_rank_order latent)))"

definition hybrid_retrieve :: "hybrid_plan \<Rightarrow> 'v hybrid_env \<Rightarrow> string \<Rightarrow> retrieval_error + hybrid_result" where
  "hybrid_retrieve plan env query =
     (let base = he_base env; fplan = fast_plan plan; qvec = re_embed base query in
      res_bind (pass1_retrieve fplan (base\<lparr>re_rerank := None, re_neighbors := None\<rparr>) query) (\<lambda>fast.
        let lexical = lexical_hits plan env query;
            documents = aggregate_documents_n [(Document_Summary, p1_document_lane fast), (Section_Summary, p1_section_lane fast),
              (Child_Lane, p1_child_lane fast), (Child_Lexical, lexical)] (hp_rrf_k plan);
            selected = choose_documents plan env query documents;
            (has_latent, union) = hybrid_candidates plan env qvec fast lexical selected;
            sunk = fst (demote_children fplan base union);
            cut = hybrid_cut plan env query has_latent sunk
        in res_bind (rerank_stage (fplan\<lparr>rp_rerank_enabled := hp_rerank_enabled plan\<rparr>) base query cut) (\<lambda>(post, ranked).
             let kept = (if hp_utility_enabled plan \<and> has_latent \<and> ranked \<noteq> []
                   then latent_competition ranked Latent_Rescue (hp_eu_latent_margin plan) else ranked);
                 (expanded, added) = expand_neighbors kept (hp_neighbors plan) (hp_neighbors_max plan) (re_neighbors base);
                 evidence = final_evidence (hp_final_items plan) selected expanded
             in Inr \<lparr>hr_fast = fast, hr_documents = documents, hr_lexical = lexical, hr_selected = selected,
                  hr_sections = hybrid_sections plan selected lexical, hr_evidence = evidence,
                  hr_union = map ch_chunk union, hr_pre_g3 = map ch_chunk cut, hr_post_g3 = post,
                  hr_rescue_seated = length (filter (\<lambda>c. ch_arrival c \<in> {Global_Child_Rescue, Lexical_Rescue}) evidence),
                  hr_neighbors_added = added\<rparr>)))"

end
