(* ===== verification/Hybrid_Facts.thy ===== *)
theory Hybrid_Facts
  imports Hybrid
begin

text \<open>
  What HYBRID adds and keeps: the document choice is greedy and falls back to the relevance order,
  the latent lane fails open, and the evidence still consists of child chunks only.
\<close>

section \<open>The document choice\<close>

lemma mmr_best_bound:
  "mmr_best f b cs = Some x \<Longrightarrow> (\<forall>c \<in> set cs. f c \<le> f x) \<and> (\<forall>y. b = Some y \<longrightarrow> f y \<le> f x)"
proof (induction f b cs arbitrary: x rule: mmr_best.induct)
  case (2 f b c cs)
  show ?case
  proof (cases b)
    case None
    then show ?thesis using 2 by auto
  next
    case (Some y)
    then show ?thesis using 2 by (cases "f y < f c \<or> f c = f y \<and> cand_doc c < cand_doc y") (auto intro: order_trans)
  qed
qed simp

lemma mmr_best_first: "list_all (\<lambda>x. \<not> (f c < f x \<or> f x = f c \<and> cand_doc x < cand_doc c)) cs \<Longrightarrow> mmr_best f (Some c) cs = Some c"
  by (induction cs) auto

lemma mmr_best_None: "mmr_best f None cs = None \<longleftrightarrow> cs = []"
proof (cases cs)
  case (Cons c cs')
  have "mmr_best f (Some x) ys \<noteq> None" for x ys by (induction ys arbitrary: x) auto
  then show ?thesis using Cons by simp
qed simp

lemma mmr_loop_relevance:
  assumes "sorted_wrt (\<lambda>x y. rel_order relevance x \<le> rel_order relevance y) remaining"
  shows "mmr_loop (mmr_score sq relevance vectors 1) cap selected remaining =
    selected @ take (nat cap - length selected) remaining"
  using assms
proof (induction remaining arbitrary: selected)
  case (Cons c cs)
  show ?case
  proof (cases "cap \<le> int (length selected)")
    case False
    let ?f = "mmr_score sq relevance vectors 1 selected"
    have f: "?f x = rel_of relevance x" for x by (simp add: mmr_score_def)
    have "\<not> (?f c < ?f x \<or> ?f x = ?f c \<and> cand_doc x < cand_doc c)" if "x \<in> set cs" for x
    proof -
      have "rel_order relevance c \<le> rel_order relevance x" using Cons.prems that by simp
      then show ?thesis unfolding f by (auto simp: rel_order_def less_eq_prod_def rel_of_def)
    qed
    then have "mmr_best ?f None (c # cs) = Some c" by (simp add: mmr_best_first list_all_iff)
    then have "mmr_loop (mmr_score sq relevance vectors 1) cap selected (c # cs) =
        mmr_loop (mmr_score sq relevance vectors 1) cap (selected @ [c]) cs"
      using False by (simp add: mmr_loop.simps [of _ _ selected])
    also have "\<dots> = (selected @ [c]) @ take (nat cap - length (selected @ [c])) cs"
      using Cons by simp
    also have "\<dots> = selected @ take (nat cap - length selected) (c # cs)"
    proof -
      have "nat cap - length selected = Suc (nat cap - length (selected @ [c]))" using False by simp
      then show ?thesis by simp
    qed
    finally show ?thesis .
  qed (simp add: mmr_loop.simps [of _ _ selected])
qed (simp add: mmr_loop.simps [of _ _ _ "[]"])

lemma sorted_key_wrt: "sorted_wrt (\<lambda>x y. f x \<le> f y) (sort_key f xs)"
  using sorted_sort_key [of f xs] by (simp add: sorted_map)

text \<open>
  At \<open>\<lambda> = 1\<close> the document choice is the relevance-only baseline: whatever the vectors are, it
  returns the first documents in the order of descending relevance and then document id, as many
  as the plan allows.
\<close>

theorem mmr_at_one_is_relevance:
  "mmr_select sq candidates relevance vectors 1 max_documents =
   take (nat max_documents) (sort_key (rel_order relevance) candidates)"
  by (simp add: mmr_select_def mmr_loop_relevance sorted_key_wrt)

text \<open>The state of the loop after some choices: what was chosen, what remains, and that each choice was best.\<close>

definition greedy :: "(document_candidate list \<Rightarrow> document_candidate \<Rightarrow> rat) \<Rightarrow> document_candidate set \<Rightarrow>
    document_candidate list \<Rightarrow> bool" where
  "greedy score pool out \<longleftrightarrow> distinct out \<and> set out \<subseteq> pool \<and>
     (\<forall>i < length out. \<forall>c \<in> pool - set (take i out). score (take i out) c \<le> score (take i out) (out ! i))"

lemma greedy_snoc:
  assumes "greedy score pool out" "b \<in> pool - set out" "\<And>c. c \<in> pool - set out \<Longrightarrow> score out c \<le> score out b"
  shows "greedy score pool (out @ [b])"
  using assms by (auto simp: greedy_def nth_append less_Suc_eq)

lemma mmr_loop_greedy:
  assumes "greedy score pool selected" "distinct remaining" "set remaining = pool - set selected"
  shows "greedy score pool (mmr_loop score cap selected remaining) \<and>
    length (mmr_loop score cap selected remaining) = max (length selected) (min (nat cap) (length selected + length remaining))"
  using assms
proof (induction score cap selected remaining rule: mmr_loop.induct)
  case (1 score cap selected remaining)
  show ?case
  proof (cases "remaining = [] \<or> cap \<le> int (length selected)")
    case True
    then show ?thesis using 1 by (auto simp: mmr_loop.simps [of score cap selected remaining])
  next
    case False
    obtain b where b: "mmr_best (score selected) None remaining = Some b"
      using False mmr_best_None [of "score selected" remaining] by fastforce
    have bin: "b \<in> set remaining" using mmr_best_in [OF b] by simp
    have max: "score selected c \<le> score selected b" if "c \<in> pool - set selected" for c
      using mmr_best_bound [OF b] "1.prems"(3) that by simp
    have g: "greedy score pool (selected @ [b])"
      by (rule greedy_snoc [OF "1.prems"(1) _ max]) (use bin "1.prems"(3) in simp)
    have rest: "distinct (remove1 b remaining)" "set (remove1 b remaining) = pool - set (selected @ [b])"
      using "1.prems"(2,3) by auto
    have eq: "mmr_loop score cap selected remaining = mmr_loop score cap (selected @ [b]) (remove1 b remaining)"
      using False b by (simp add: mmr_loop.simps [of score cap selected remaining])
    have len: "length remaining = Suc (length (remove1 b remaining))"
      using bin length_pos_if_in_set [OF bin] by (simp add: length_remove1)
    have "length selected < nat cap" using False by (simp add: not_le zless_nat_eq_int_zless)
    then show ?thesis
      using "1.IH" [OF False b g rest] unfolding eq len by (simp add: eu_body_length)
  qed
qed

text \<open>
  C38. The document choice is greedy. From distinct candidates it returns distinct ones among them,
  as many as the plan allows and there are, and each one chosen has the highest marginal score
  (relevance against redundancy with the documents chosen before it) among those not yet chosen.
\<close>

theorem mmr_is_greedy:
  assumes "distinct candidates"
  shows "greedy (mmr_score sq relevance vectors lam) (set candidates) (mmr_select sq candidates relevance vectors lam n) \<and>
    length (mmr_select sq candidates relevance vectors lam n) = min (nat n) (length candidates)"
  using mmr_loop_greedy [of "mmr_score sq relevance vectors lam" "set candidates" "[]" "sort_key (rel_order relevance) candidates" n] assms
  by (simp add: mmr_select_def greedy_def)

theorem mmr_is_greedy_witness:
  "length (mmr_select id [demo_document ''a'', demo_document ''b''] [] [] (1 / 2) 1) = 1"
  using mmr_is_greedy [of "[demo_document ''a'', demo_document ''b'']" id "[]" "[]" "1 / 2" 1]
  by (simp add: demo_document_def new_candidate_def)

section \<open>The latent lane\<close>

definition latent_dict :: "string list \<Rightarrow> (string, latent_parent) dict \<Rightarrow> bool" where
  "latent_dict skip d \<longleftrightarrow> distinct (map fst d) \<and> list_all (\<lambda>(k, p). lp_parent p = k \<and> k \<noteq> [] \<and> k \<notin> set skip) d"

lemma set_dict_set: "set (dict_set k v d) \<subseteq> insert (k, v) (set d)"
  by (induction k v d rule: dict_set.induct) auto

lemma latent_vote_dict:
  assumes "latent_dict skip d"
  shows "latent_dict skip (latent_vote kind skip ranked d)"
proof -
  let ?pid = "opt_or [] (rr_parent (snd ranked))"
  show ?thesis
  proof (cases "?pid = [] \<or> ?pid \<in> set skip")
    case False
    obtain lp where v: "latent_vote kind skip ranked d = dict_set ?pid lp d" and lp: "lp_parent lp = ?pid"
    proof (rule that)
      let ?old = "opt_or \<lparr>lp_parent = ?pid, lp_doc = opt_or [] (rr_doc (snd ranked)),
        lp_source = opt_or [] (rr_source (snd ranked)), lp_score = opt_or 0 (rr_score (snd ranked)), lp_channels = []\<rparr> (map_of d ?pid)"
      let ?lp = "?old\<lparr>lp_score := max (lp_score ?old) (opt_or 0 (rr_score (snd ranked))),
        lp_channels := dict_set kind (min (opt_or (fst ranked) (map_of (lp_channels ?old) kind)) (fst ranked)) (lp_channels ?old)\<rparr>"
      show "latent_vote kind skip ranked d = dict_set ?pid ?lp d" using False by (simp add: latent_vote_def Let_def)
      show "lp_parent ?lp = ?pid"
        using assms by (auto simp: opt_or_def latent_dict_def list_all_iff split: option.splits dest!: map_of_SomeD)
    qed
    have "list_all (\<lambda>(k, p). lp_parent p = k \<and> k \<noteq> [] \<and> k \<notin> set skip) (dict_set ?pid lp d)"
      using assms lp False set_dict_set [of ?pid lp d] by (fastforce simp: latent_dict_def list_all_iff)
    then show ?thesis using assms unfolding v latent_dict_def by simp
  qed (use assms in \<open>simp add: latent_vote_def Let_def\<close>)
qed

lemma latent_gather_dict:
  "latent_dict skip d \<Longrightarrow> latent_gather late search skip i ks d = Inr d' \<Longrightarrow> latent_dict skip d'"
proof (induction ks arbitrary: i d)
  case (Cons kt ks)
  obtain kind k where kt: "kt = (kind, k)" by (cases kt)
  obtain rows where rows: "search kind = Some rows" and rest: "latent_gather late search skip (Suc i) ks
      (fold (latent_vote kind skip) (zip [0..<length (py_upto k rows)] (py_upto k rows)) d) = Inr d'"
    using Cons.prems(2) kt by (auto split: if_splits option.splits)
  have "latent_dict skip (fold (latent_vote kind skip) (zip [0..<length (py_upto k rows)] (py_upto k rows)) d)"
    by (rule fold_invariant_set [where P = "latent_dict skip", OF Cons.prems(1)]) (rule latent_vote_dict)
  then show ?case using Cons.IH rest by blast
qed simp



section \<open>Evidence\<close>

lemma proven_update [simp]:
  "proven (env\<lparr>re_rerank := r\<rparr>) = proven env" "proven (env\<lparr>re_neighbors := n\<rparr>) = proven env"
  by (simp_all add: proven_def fun_eq_iff)

lemma gather_pools:
  "list_all (\<lambda>c. proven env qvec (ch_chunk c)) (p1_deepened (gather plan env qvec))" (is ?d)
  "list_all (\<lambda>c. proven env qvec (ch_chunk c)) (p1_rescue (gather plan env qvec))" (is ?r)
proof -
  let ?child = "lane_or_nil (rp_child_enabled plan) (search_lane plan env qvec Child_Lane (rp_child_top_k plan) None None)"
  have child: "proven env qvec (lh_chunk h)" if "h \<in> set ?child" for h
    using that by (auto simp: lane_or_nil_def intro: search_proven split: if_splits)
  show ?d unfolding gather_def Let_def pass1_result.simps by (intro dict_children_proven deepened_proven)
  show ?r unfolding gather_def Let_def pass1_result.simps by (intro dict_children_proven rescue_proven child)
qed

lemma pass1_pools:
  assumes "pass1_retrieve plan env query = Inr r"
  shows "p1_deepened r = p1_deepened (gather plan env (re_embed env query))"
    "p1_rescue r = p1_rescue (gather plan env (re_embed env query))"
  using assms by (auto simp: pass1_retrieve_def Let_def case_prod_beta)

text \<open>What may be cited: a proven chunk, or one the lexical lane returned.\<close>

definition citable :: "hybrid_plan \<Rightarrow> 'v hybrid_env \<Rightarrow> string \<Rightarrow> string \<Rightarrow> bool" where
  "citable plan env query cid \<longleftrightarrow> proven (he_base env) (re_embed (he_base env) query) cid \<or>
     cid \<in> lh_chunk ` set (lexical_hits plan env query)"

lemma list_all_weaken: "list_all P xs \<Longrightarrow> (\<And>x. P x \<Longrightarrow> Q x) \<Longrightarrow> list_all Q xs"
  by (simp add: list_all_iff)

lemma hybrid_children_all: "list_all (\<lambda>c. P (ch_chunk c)) ds \<Longrightarrow> list_all (\<lambda>c. P (ch_chunk c)) (hybrid_document_children ds doc)"
  by (simp add: hybrid_document_children_def list_all_iff Let_def)

lemma list_all_sort: "list_all P xs \<Longrightarrow> list_all P (sort_key f xs)"
  by (simp add: list_all_iff)

definition keyed :: "(string \<Rightarrow> bool) \<Rightarrow> (string, child_item) dict \<Rightarrow> bool" where
  "keyed P d \<longleftrightarrow> list_all (\<lambda>(k, c). ch_chunk c = k \<and> P k) d"

lemma keyed_add: "keyed P d \<Longrightarrow> ch_chunk c = k \<Longrightarrow> P k \<Longrightarrow> keyed P (dict_add k c d)"
  by (simp add: keyed_def dict_add_def)

lemma keyed_children: "keyed P d \<Longrightarrow> list_all (\<lambda>c. P (ch_chunk c)) (map snd d)"
  by (auto simp: keyed_def list_all_iff)

lemma if_both: "P y \<Longrightarrow> P x \<Longrightarrow> P (if b then x else y)"
  by simp

lemma lexical_rescue_ok:
  "list_all (\<lambda>c. ch_chunk c \<in> lh_chunk ` set lexical) (lexical_rescue plan deepened neural lexical)"
  unfolding lexical_rescue_def
proof (rule keyed_children [where P = "\<lambda>k. k \<in> lh_chunk ` set lexical"],
    rule fold_invariant_set [where P = "keyed (\<lambda>k. k \<in> lh_chunk ` set lexical)"])
  fix h d assume h: "h \<in> set (py_upto (hp_lexical_rescue_max plan) lexical)" and d: "keyed (\<lambda>k. k \<in> lh_chunk ` set lexical) d"
  have k: "lh_chunk h \<in> lh_chunk ` set lexical" by (rule imageI [OF subsetD [OF set_py_upto h]])
  have "keyed (\<lambda>k. k \<in> lh_chunk ` set lexical) (dict_add (lh_chunk h) (child_of_hit Lexical_Rescue h\<lparr>ch_lexical_rank := Some (lh_rank h)\<rparr>) d)"
    by (rule keyed_add [OF d _ k]) (simp add: child_of_hit_def)
  then show "keyed (\<lambda>k. k \<in> lh_chunk ` set lexical)
      (if lh_chunk h \<in> ch_chunk ` set deepened \<or> lh_chunk h \<in> ch_chunk ` set neural then d
       else dict_add (lh_chunk h) (child_of_hit Lexical_Rescue h\<lparr>ch_lexical_rank := Some (lh_rank h)\<rparr>) d)"
    using d by (rule if_both)
qed (simp add: keyed_def)

lemma latent_children_ok: "list_all (\<lambda>c. proven env qvec (ch_chunk c)) (latent_children plan env qvec taken parents)"
  unfolding latent_children_def Let_def
proof (rule keyed_children, rule fold_invariant_set [where P = "keyed (proven env qvec)"])
  fix p d assume d: "keyed (proven env qvec) d"
  let ?rows = "latent_rows plan env qvec p"
  show "keyed (proven env qvec) (fold (admit_latent taken p) (zip [0..<length ?rows] ?rows) d)"
  proof (rule fold_invariant_set [where P = "keyed (proven env qvec)", OF d])
    fix ranked d assume r: "ranked \<in> set (zip [0..<length ?rows] ?rows)" and d: "keyed (proven env qvec) d"
    have row: "snd ranked \<in> set ?rows" using r by (metis prod.collapse set_zip_rightD)
    have "proven env qvec (opt_or [] (rr_chunk (snd ranked)))"
      using subsetD [OF set_py_upto row [unfolded latent_rows_def Let_def]]
      unfolding proven_def by (intro exI conjI bexI [of _ "snd ranked"]) (rule search_filter.simps(1), rule refl, assumption)
    then have "keyed (proven env qvec) (dict_add (opt_or [] (rr_chunk (snd ranked)))
        (latent_child p (opt_or [] (rr_chunk (snd ranked))) (fst ranked) (snd ranked)) d)"
      by (intro keyed_add [OF d]) (simp_all add: latent_child_def)
    then show "keyed (proven env qvec) (admit_latent taken p ranked d)"
      unfolding admit_latent_def Let_def using d by (rule if_both)
  qed
qed (simp add: keyed_def)

lemma latent_branch_ok:
  "list_all (\<lambda>c. proven base qvec (ch_chunk c))
     (case x of None \<Rightarrow> [] | Some look \<Rightarrow> if b then latent_children plan base qvec taken (f look) else [])"
  by (simp add: latent_children_ok split: option.split)

lemma hybrid_candidates_ok:
  assumes "list_all (\<lambda>c. proven (he_base env) (re_embed (he_base env) query) (ch_chunk c)) (p1_deepened fast)"
    "list_all (\<lambda>c. proven (he_base env) (re_embed (he_base env) query) (ch_chunk c)) (p1_rescue fast)"
  shows "candidates_ok (citable plan env query)
    (snd (hybrid_candidates plan env (re_embed (he_base env) query) fast (lexical_hits plan env query) selected))"
proof -
  let ?P = "citable plan env query"
  have proven: "list_all (\<lambda>c. ?P (ch_chunk c)) cs"
    if "list_all (\<lambda>c. proven (he_base env) (re_embed (he_base env) query) (ch_chunk c)) cs" for cs
    using that by (rule list_all_weaken) (simp add: citable_def)
  have lex: "list_all (\<lambda>c. ?P (ch_chunk c)) (lexical_rescue plan d n (lexical_hits plan env query))" for d n
    by (rule list_all_weaken [OF lexical_rescue_ok]) (simp add: citable_def)
  show ?thesis
    unfolding hybrid_candidates_def Let_def snd_conv
    by (intro dedupe_ok list_all_append [THEN iffD2] conjI list_all_concat ballI hybrid_children_all list_all_sort
        proven [OF assms(1)] proven [OF assms(2)] lex proven [OF latent_branch_ok])
qed

lemma hybrid_cut_subseq: "subseq (hybrid_cut plan env query l cs) cs"
proof -
  have "subseq (fst (utility_cut cfg cs limit reserved as)) cs" for cfg limit reserved as
  proof -
    have "subseq (py_upto limit (filter Q cs)) cs" for Q
      by (rule subseq_order.order_trans [OF py_upto_subseq subseq_filter_left])
    then show ?thesis by (simp add: utility_cut_def Let_def py_upto_subseq)
  qed
  then show ?thesis by (simp add: hybrid_cut_def Let_def truncate_subseq)
qed

lemma latent_competition_subseq: "subseq (latent_competition cs a m) cs"
  by (simp add: latent_competition_def Let_def subseq_filter_left)

lemma choose_distinct:
  assumes "distinct (map cand_doc documents)"
  shows "distinct (map cand_doc (choose_documents plan env query documents))"
proof -
  have pool: "distinct (map cand_doc (py_upto n documents))" for n by (rule distinct_py_upto [OF assms])
  have "distinct (map cand_doc (mmr_select sq (py_upto n documents) relevance vectors lam m))" for sq n relevance vectors lam m
  proof -
    let ?p = "py_upto n documents"
    have "distinct ?p" using pool by (simp add: distinct_map)
    then have "greedy (mmr_score sq relevance vectors lam) (set ?p) (mmr_select sq ?p relevance vectors lam m)"
      using mmr_loop_greedy [of "mmr_score sq relevance vectors lam" "set ?p" "[]" "sort_key (rel_order relevance) ?p" m]
      by (simp add: mmr_select_def greedy_def)
    then have g: "distinct (mmr_select sq ?p relevance vectors lam m)" "set (mmr_select sq ?p relevance vectors lam m) \<subseteq> set ?p"
      by (simp_all add: greedy_def)
    have "inj_on cand_doc (set ?p)" using pool [of n] by (simp add: distinct_map)
    then show ?thesis using g by (simp add: distinct_map inj_on_subset)
  qed
  then show ?thesis using pool by (simp add: choose_documents_def Let_def split: option.split)
qed

lemma hybrid_stages:
  assumes "hybrid_retrieve plan env query = Inr r"
  obtains fast documents has_latent cut post ranked kept where
    "pass1_retrieve (fast_plan plan) ((he_base env)\<lparr>re_rerank := None, re_neighbors := None\<rparr>) query = Inr fast"
    "distinct (map cand_doc documents)"
    "cut = hybrid_cut plan env query has_latent (fst (demote_children (fast_plan plan) (he_base env)
        (snd (hybrid_candidates plan env (re_embed (he_base env) query) fast (lexical_hits plan env query)
          (choose_documents plan env query documents)))))"
    "rerank_stage ((fast_plan plan)\<lparr>rp_rerank_enabled := hp_rerank_enabled plan\<rparr>) (he_base env) query cut = Inr (post, ranked)"
    "subseq kept ranked"
    "hr_evidence r = final_evidence (hp_final_items plan) (choose_documents plan env query documents)
        (fst (expand_neighbors kept (hp_neighbors plan) (hp_neighbors_max plan) (re_neighbors (he_base env))))"
    "hr_pre_g3 r = map ch_chunk cut" "hr_post_g3 r = post"
proof -
  let ?base = "he_base env" and ?fp = "fast_plan plan"
  let ?q = "re_embed ?base query" and ?lex = "lexical_hits plan env query"
  obtain fast where fast: "pass1_retrieve ?fp (?base\<lparr>re_rerank := None, re_neighbors := None\<rparr>) query = Inr fast"
    using assms by (auto simp: hybrid_retrieve_def Let_def)
  let ?docs = "aggregate_documents_n [(Document_Summary, p1_document_lane fast), (Section_Summary, p1_section_lane fast),
      (Child_Lane, p1_child_lane fast), (Child_Lexical, ?lex)] (hp_rrf_k plan)"
  let ?cands = "hybrid_candidates plan env ?q fast ?lex (choose_documents plan env query ?docs)"
  let ?cut = "hybrid_cut plan env query (fst ?cands) (fst (demote_children ?fp ?base (snd ?cands)))"
  obtain post ranked where rr: "rerank_stage (?fp\<lparr>rp_rerank_enabled := hp_rerank_enabled plan\<rparr>) ?base query ?cut = Inr (post, ranked)"
    using assms fast by (auto simp: hybrid_retrieve_def Let_def case_prod_beta)
  let ?kept = "if hp_utility_enabled plan \<and> fst ?cands \<and> ranked \<noteq> []
      then latent_competition ranked Latent_Rescue (hp_eu_latent_margin plan) else ranked"
  show thesis
  proof (rule that [OF fast _ refl rr])
    show "distinct (map cand_doc ?docs)" by (rule conjunct1 [OF aggregate_facts])
    show "subseq ?kept ranked" by (simp add: latent_competition_subseq)
  qed (use assms fast rr in \<open>auto simp: hybrid_retrieve_def Let_def case_prod_beta\<close>)
qed

text \<open>
  C17. Children prove in HYBRID too. Whenever the engine answers, whatever the lexical lane, the
  diversity choice, the latent lane and the utility cut did, the evidence has at most the budgeted
  number of items and no chunk twice, every item is a chunk the routing search returned under the
  child filter, or one the lexical lane returned, or, only when the plan asks for neighbours and a
  lookup exists, a neighbour; and the reranker has left the candidate set as it was.
\<close>

theorem hybrid_children_prove:
  assumes "hybrid_retrieve plan env query = Inr r"
  shows "distinct (map ch_chunk (hr_evidence r)) \<and> length (hr_evidence r) \<le> nat (hp_final_items plan) \<and>
    list_all (\<lambda>c. citable plan env query (ch_chunk c) \<or>
      ch_arrival c = Neighbor_Expansion \<and> 0 < hp_neighbors plan \<and> re_neighbors (he_base env) \<noteq> None) (hr_evidence r) \<and>
    set (hr_post_g3 r) = set (hr_pre_g3 r)"
proof -
  let ?base = "he_base env" and ?P = "citable plan env query"
  obtain fast documents has_latent cut post ranked kept where
    fast: "pass1_retrieve (fast_plan plan) (?base\<lparr>re_rerank := None, re_neighbors := None\<rparr>) query = Inr fast"
    and docs: "distinct (map cand_doc documents)"
    and cut: "cut = hybrid_cut plan env query has_latent (fst (demote_children (fast_plan plan) ?base
        (snd (hybrid_candidates plan env (re_embed ?base query) fast (lexical_hits plan env query)
          (choose_documents plan env query documents)))))"
    and rr: "rerank_stage ((fast_plan plan)\<lparr>rp_rerank_enabled := hp_rerank_enabled plan\<rparr>) ?base query cut = Inr (post, ranked)"
    and kept: "subseq kept ranked"
    and ev: "hr_evidence r = final_evidence (hp_final_items plan) (choose_documents plan env query documents)
        (fst (expand_neighbors kept (hp_neighbors plan) (hp_neighbors_max plan) (re_neighbors ?base)))"
    and pp: "hr_pre_g3 r = map ch_chunk cut" "hr_post_g3 r = post"
    using hybrid_stages [OF assms] .
  have pools: "list_all (\<lambda>c. proven ?base (re_embed ?base query) (ch_chunk c)) (p1_deepened fast)"
    "list_all (\<lambda>c. proven ?base (re_embed ?base query) (ch_chunk c)) (p1_rescue fast)"
    using gather_pools [of "?base\<lparr>re_rerank := None, re_neighbors := None\<rparr>" "re_embed ?base query" "fast_plan plan"]
    unfolding pass1_pools [OF fast] by simp_all
  have "candidates_ok ?P cut"
    unfolding cut by (rule subseq_ok [OF demote_ok [OF hybrid_candidates_ok [OF pools]] hybrid_cut_subseq])
  note ranked = rerank_ok [OF this rr]
  have k: "candidates_ok ?P kept" by (rule subseq_ok [OF ranked(1) kept])
  have "distinct (map ch_chunk kept)" using k by (simp add: candidates_ok_def)
  from expand_ok [OF this, of "hp_neighbors plan" "hp_neighbors_max plan" "re_neighbors ?base"]
  obtain added where ex: "fst (expand_neighbors kept (hp_neighbors plan) (hp_neighbors_max plan) (re_neighbors ?base)) = kept @ added"
    and dist: "distinct (map ch_chunk (kept @ added))" and arr: "list_all (\<lambda>c. ch_arrival c = Neighbor_Expansion) added"
    and off: "hp_neighbors plan \<le> 0 \<or> re_neighbors ?base = None \<longrightarrow> added = []" .
  note fin = final_evidence_ok [OF dist choose_distinct [OF docs], of "hp_final_items plan" plan env query, folded ex, folded ev]
  have "set (hr_evidence r) \<subseteq> set kept \<union> set added" using fin ex by simp
  then have "list_all (\<lambda>c. ?P (ch_chunk c) \<or>
      ch_arrival c = Neighbor_Expansion \<and> 0 < hp_neighbors plan \<and> re_neighbors ?base \<noteq> None) (hr_evidence r)"
    by (rule evidence_sources [OF _ k arr off])
  then show ?thesis using fin pp ranked(2) by simp
qed

definition demo_hybrid :: "unit hybrid_env" where
  "demo_hybrid = \<lparr>he_base = demo_retrieval, he_lexical = None, he_vectors = None, he_latent = None, he_root = id, he_requirements = (\<lambda>_. [])\<rparr>"

lemma demo_hybrid_run:
  "(case hybrid_retrieve HYBRID_DEFAULT_PLAN demo_hybrid ''query'' of Inl e \<Rightarrow> None
    | Inr r \<Rightarrow> Some (map ch_chunk (hr_evidence r))) = Some [''k1'', ''k2'']"
  by code_simp

theorem hybrid_children_prove_witness:
  "citable HYBRID_DEFAULT_PLAN demo_hybrid ''query'' ''k1''"
proof -
  obtain r where r: "hybrid_retrieve HYBRID_DEFAULT_PLAN demo_hybrid ''query'' = Inr r" "map ch_chunk (hr_evidence r) = [''k1'', ''k2'']"
    using demo_hybrid_run by (auto split: sum.splits)
  then obtain c where c: "c \<in> set (hr_evidence r)" "ch_chunk c = ''k1''" by (cases "hr_evidence r") auto
  have "list_all (\<lambda>c. citable HYBRID_DEFAULT_PLAN demo_hybrid ''query'' (ch_chunk c) \<or> ch_arrival c = Neighbor_Expansion \<and>
      0 < hp_neighbors HYBRID_DEFAULT_PLAN \<and> re_neighbors (he_base demo_hybrid) \<noteq> None) (hr_evidence r)"
    using hybrid_children_prove [OF r(1)] by simp
  from list_all_conv [OF this c(1)] show ?thesis using c(2) by (simp add: HYBRID_DEFAULT_PLAN_def)
qed

end
