(* ===== verification/Liveness.thy ===== *)
theory Liveness
  imports Hybrid_Facts
begin

text \<open>
  The conditional liveness of the promoted retrieval lanes
  (\<^verbatim>\<open>shared/polymath_shared/lane_liveness.py\<close>), evaluated on the traces that the two engines emit.
  A trace is a record of the keys the lanes read; a missing number reads as 0, a missing list as
  empty, and a missing \<open>rerank_enabled\<close> as true, as in the source.
\<close>

section \<open>Traces and lanes\<close>

record lane_trace =
  tr_lane_sizes :: "(string, int) dict"
  tr_reserved :: int
  tr_rescue_candidates :: int
  tr_rescue_seated :: int
  tr_rerank_enabled :: "bool option"
  tr_pre_g3 :: "string list"
  tr_post_g3 :: "string list"
  tr_g3_scores :: "string list"
  tr_neighbor_expansion :: int
  tr_neighbors_added :: int
  tr_demote :: bool
  tr_noisy_candidates :: int
  tr_noisy_demoted :: int
  tr_mode :: "string option"
  tr_graph_seeds :: "string list"
  tr_graph_facts :: int

datatype lane_status = LIVE | SUSPECT | NO_OPPORTUNITY | DISABLED | LIVE_BUT_CAPPED | UNOBSERVABLE

record liveness_lane =
  ll_name :: string
  ll_enabled :: "lane_trace \<Rightarrow> bool"
  ll_opportunity :: "lane_trace \<Rightarrow> bool"
  ll_contributed :: "lane_trace \<Rightarrow> bool"

definition lane_size :: "lane_trace \<Rightarrow> string \<Rightarrow> int" where
  "lane_size t key = opt_or 0 (map_of (tr_lane_sizes t) key)"

definition LANES :: "liveness_lane list" where
  "LANES =
     [\<lparr>ll_name = ''document_summary_routing'', ll_enabled = (\<lambda>t. True), ll_opportunity = (\<lambda>t. True),
       ll_contributed = (\<lambda>t. 0 < lane_size t ''document_summary'')\<rparr>,
      \<lparr>ll_name = ''section_summary_routing'', ll_enabled = (\<lambda>t. True), ll_opportunity = (\<lambda>t. True),
       ll_contributed = (\<lambda>t. 0 < lane_size t ''section_summary'')\<rparr>,
      \<lparr>ll_name = ''global_child'', ll_enabled = (\<lambda>t. True), ll_opportunity = (\<lambda>t. True),
       ll_contributed = (\<lambda>t. 0 < lane_size t ''global_child'')\<rparr>,
      \<lparr>ll_name = ''global_child_rescue'', ll_enabled = (\<lambda>t. 0 < tr_reserved t),
       ll_opportunity = (\<lambda>t. 0 < lane_size t ''global_child'' \<and> 0 < tr_rescue_candidates t),
       ll_contributed = (\<lambda>t. 0 < tr_rescue_seated t)\<rparr>,
      \<lparr>ll_name = ''lexical'', ll_enabled = (\<lambda>t. map_of (tr_lane_sizes t) ''child_lexical'' \<noteq> None),
       ll_opportunity = (\<lambda>t. map_of (tr_lane_sizes t) ''child_lexical'' \<noteq> None),
       ll_contributed = (\<lambda>t. 0 < lane_size t ''child_lexical'')\<rparr>,
      \<lparr>ll_name = ''reranker'', ll_enabled = (\<lambda>t. opt_or True (tr_rerank_enabled t)),
       ll_opportunity = (\<lambda>t. 1 < length (tr_pre_g3 t)), ll_contributed = (\<lambda>t. tr_g3_scores t \<noteq> [])\<rparr>,
      \<lparr>ll_name = ''neighbor_expansion'', ll_enabled = (\<lambda>t. 0 < tr_neighbor_expansion t),
       ll_opportunity = (\<lambda>t. 0 < tr_neighbor_expansion t \<and> 0 < length (tr_post_g3 t)),
       ll_contributed = (\<lambda>t. 0 < tr_neighbors_added t)\<rparr>,
      \<lparr>ll_name = ''region_demotion'', ll_enabled = tr_demote, ll_opportunity = (\<lambda>t. 0 < tr_noisy_candidates t),
       ll_contributed = (\<lambda>t. 0 < tr_noisy_demoted t)\<rparr>,
      \<lparr>ll_name = ''graph_hop1'', ll_enabled = (\<lambda>t. tr_mode t = Some ''GRAPH''),
       ll_opportunity = (\<lambda>t. 0 < length (tr_graph_seeds t)), ll_contributed = (\<lambda>t. 0 < tr_graph_facts t)\<rparr>]"

definition evaluate_lane :: "liveness_lane \<Rightarrow> lane_trace \<Rightarrow> lane_status" where
  "evaluate_lane lane t =
     (if \<not> ll_enabled lane t then DISABLED
      else if \<not> ll_opportunity lane t then NO_OPPORTUNITY
      else if ll_contributed lane t then LIVE else SUSPECT)"

definition evaluate :: "lane_trace \<Rightarrow> (string \<times> lane_status) list" where
  "evaluate t = map (\<lambda>l. (ll_name l, evaluate_lane l t)) LANES"

definition suspects :: "lane_trace \<Rightarrow> string list" where
  "suspects t = map fst (filter (\<lambda>(n, s). s = SUSPECT) (evaluate t))"

definition semantic_lane_status :: "int option \<Rightarrow> int \<Rightarrow> int \<Rightarrow> int \<Rightarrow> lane_status" where
  "semantic_lane_status opportunities accepted capped_documents documents =
     (case opportunities of None \<Rightarrow> UNOBSERVABLE
      | Some n \<Rightarrow>
          if n \<le> 0 then NO_OPPORTUNITY
          else if accepted \<le> 0 then SUSPECT
          else if documents \<noteq> 0 \<and> documents \<le> capped_documents then LIVE_BUT_CAPPED
          else LIVE)"

section \<open>The traces of the engines\<close>

text \<open>The scores of a trace are there exactly when the reranker ran.\<close>

definition pass1_trace :: "retrieval_plan \<Rightarrow> 'v retrieval_env \<Rightarrow> pass1_result \<Rightarrow> lane_trace" where
  "pass1_trace plan env r =
     \<lparr>tr_lane_sizes = [(''document_summary'', int (length (p1_document_lane r))),
        (''section_summary'', int (length (p1_section_lane r))), (''global_child'', int (length (p1_child_lane r)))],
      tr_reserved = rp_reserved plan, tr_rescue_candidates = int (length (p1_rescue r)),
      tr_rescue_seated = int (p1_rescue_seated r), tr_rerank_enabled = Some (rp_rerank_enabled plan),
      tr_pre_g3 = p1_pre_g3 r, tr_post_g3 = p1_post_g3 r,
      tr_g3_scores = (if rp_rerank_enabled plan \<and> re_rerank env \<noteq> None then p1_post_g3 r else []),
      tr_neighbor_expansion = rp_neighbors plan, tr_neighbors_added = int (p1_neighbors_added r),
      tr_demote = rp_demote plan, tr_noisy_candidates = int (fst (p1_noisy r)),
      tr_noisy_demoted = int (snd (p1_noisy r)), tr_mode = None, tr_graph_seeds = [], tr_graph_facts = 0\<rparr>"

text \<open>HYBRID emits no reservation, reranker, expansion or demotion key.\<close>

definition hybrid_trace :: "hybrid_plan \<Rightarrow> 'v hybrid_env \<Rightarrow> hybrid_result \<Rightarrow> lane_trace" where
  "hybrid_trace plan env r =
     \<lparr>tr_lane_sizes = [(''document_summary'', int (length (p1_document_lane (hr_fast r)))),
        (''section_summary'', int (length (p1_section_lane (hr_fast r)))),
        (''global_child'', int (length (p1_child_lane (hr_fast r)))), (''child_lexical'', int (length (hr_lexical r)))],
      tr_reserved = 0, tr_rescue_candidates = 0, tr_rescue_seated = int (hr_rescue_seated r), tr_rerank_enabled = None,
      tr_pre_g3 = hr_pre_g3 r, tr_post_g3 = hr_post_g3 r,
      tr_g3_scores = (if hp_rerank_enabled plan \<and> re_rerank (he_base env) \<noteq> None then hr_post_g3 r else []),
      tr_neighbor_expansion = 0, tr_neighbors_added = int (hr_neighbors_added r), tr_demote = False,
      tr_noisy_candidates = 0, tr_noisy_demoted = 0, tr_mode = None, tr_graph_seeds = [], tr_graph_facts = 0\<rparr>"

section \<open>The rescue lane cannot die again\<close>

text \<open>What the stages keep of a candidate: its chunk id and how it arrived.\<close>

definition tag :: "child_item \<Rightarrow> string \<times> arrival" where
  "tag c = (ch_chunk c, ch_arrival c)"

lemma demote_tags: "tag ` set (fst (demote_children plan env cs)) = tag ` set cs"
proof (cases "(if cs = [] then [] else region_roles plan env (map ch_chunk cs)) = []")
  case False
  let ?marked = "map (\<lambda>c. c\<lparr>ch_role := map_of (region_roles plan env (map ch_chunk cs)) (ch_chunk c)\<rparr>) cs"
  have "fst (demote_children plan env cs) = sort_key noisy_child ?marked"
    using False by (auto simp: demote_children_def Let_def split: if_splits)
  then show ?thesis by (simp add: image_image tag_def)
qed (simp add: demote_children_def Let_def)

lemma rerank_tags:
  assumes "rerank_stage plan env query cs = Inr (post, ranked)"
  shows "tag ` set ranked = tag ` set cs \<and> length ranked = length cs"
  using assms by (auto simp: rerank_stage_def Let_def image_image tag_def split: option.splits if_splits)

lemma dedupe_covers: "c \<in> set cs \<Longrightarrow> ch_chunk c \<notin> set seen \<Longrightarrow> \<exists>y \<in> set (dedupe_chunks seen cs). ch_chunk y = ch_chunk c"
proof (induction seen cs rule: dedupe_chunks.induct)
  case (2 seen d cs)
  show ?case
  proof (cases "ch_chunk d \<in> set seen")
    case True
    then show ?thesis using 2 by auto
  next
    case False
    show ?thesis
    proof (cases "ch_chunk c = ch_chunk d")
      case True
      then show ?thesis using False by auto
    next
      case other: False
      then have "c \<in> set cs" "ch_chunk c \<notin> set (ch_chunk d # seen)" using "2.prems" by auto
      then show ?thesis using "2.IH"(2) [OF False] False by auto
    qed
  qed
qed simp

lemma rescue_dict:
  "list_all (\<lambda>(k, c). ch_chunk c = k \<and> ch_arrival c = Global_Child_Rescue \<and> map_of deepened k = None)
     (rescue_children plan deepened lane)"
  unfolding rescue_children_def
proof (rule fold_invariant_set [where P = "list_all (\<lambda>(k, c). ch_chunk c = k \<and> ch_arrival c = Global_Child_Rescue \<and> map_of deepened k = None)"])
  fix h and d :: "(string, child_item) dict"
  assume d: "list_all (\<lambda>(k, c). ch_chunk c = k \<and> ch_arrival c = Global_Child_Rescue \<and> map_of deepened k = None) d"
  show "list_all (\<lambda>(k, c). ch_chunk c = k \<and> ch_arrival c = Global_Child_Rescue \<and> map_of deepened k = None)
     (if map_of deepened (lh_chunk h) \<noteq> None then d
      else dict_add (lh_chunk h) (child_of_hit Global_Child_Rescue h\<lparr>ch_global_rank := Some (lh_rank h)\<rparr>) d)"
    using d by (simp add: dict_add_def child_of_hit_def)
qed simp

lemma document_children_chunks: "ch_chunk ` set (document_children ds doc) \<subseteq> ch_chunk ` set ds"
proof
  fix k assume "k \<in> ch_chunk ` set (document_children ds doc)"
  then obtain c where "c \<in> set ds" "k = ch_chunk c" by (auto simp: document_children_def Let_def split: if_splits)
  then show "k \<in> ch_chunk ` set ds" by simp
qed

lemma gather_rescue:
  assumes "p1_rescue (gather plan env qvec) \<noteq> []"
  obtains c where "c \<in> set (p1_evidence (gather plan env qvec))" "ch_arrival c = Global_Child_Rescue"
proof -
  let ?child = "lane_or_nil (rp_child_enabled plan) (search_lane plan env qvec Child_Lane (rp_child_top_k plan) None None)"
  obtain docs sections where g: "p1_evidence (gather plan env qvec) = dedupe_chunks []
      (concat (map (document_children (map snd (fold (deepen_section plan env qvec) sections []))) docs) @
       sort_key global_order (map snd (rescue_children plan (fold (deepen_section plan env qvec) sections []) ?child)))"
    and res: "p1_rescue (gather plan env qvec) = map snd (rescue_children plan (fold (deepen_section plan env qvec) sections []) ?child)"
    by (simp add: gather_def Let_def)
  let ?d = "fold (deepen_section plan env qvec) sections []"
  let ?r = "rescue_children plan ?d ?child"
  let ?a = "concat (map (document_children (map snd ?d)) docs)" and ?b = "sort_key global_order (map snd ?r)"
  obtain c where c: "c \<in> set (map snd ?r)" using assms res by (cases "map snd ?r") auto
  have r: "ch_arrival x = Global_Child_Rescue \<and> map_of ?d (ch_chunk x) = None" if "x \<in> set (map snd ?r)" for x
    using that rescue_dict [of ?d plan ?child] by (auto simp: list_all_iff)
  have keys: "ch_chunk ` set (map snd ?d) = fst ` set ?d"
    using deepened_proven [of env qvec plan sections] by (force simp: proven_dict_def)
  have a: "ch_chunk ` set ?a \<subseteq> fst ` set ?d"
    unfolding keys [symmetric] using document_children_chunks [of "map snd ?d"] by (simp add: image_UN UN_subset_iff)
  have "c \<in> set (?a @ ?b)" using c by simp
  then obtain y where y: "y \<in> set (dedupe_chunks [] (?a @ ?b))" "ch_chunk y = ch_chunk c"
    using dedupe_covers [of c "?a @ ?b" "[]"] by auto
  have "ch_chunk c \<notin> fst ` set ?d" using r [OF c] by (simp add: map_of_eq_None_iff)
  then have "y \<notin> set ?a" using subsetD [OF a imageI] y(2) by metis
  then have "y \<in> set (map snd ?r)" using subsetD [OF dedupe_subset y(1)] by simp
  then show thesis using that r y(1) unfolding g by blast
qed

lemma full_subset:
  assumes "distinct acc" "set acc \<subseteq> set cs" "distinct cs" "length cs \<le> length acc"
  shows "set acc = set cs"
proof (rule card_subset_eq [OF _ assms(2)])
  have "card (set acc) \<le> card (set cs)" using assms(2) by (intro card_mono) simp_all
  then show "card (set acc) = card (set cs)"
    using assms(4) distinct_card [OF assms(1)] distinct_card [OF assms(3)] by linarith
qed simp

lemma fill_rest_covers:
  assumes cs: "distinct (map ch_chunk cs)" "int (length cs) \<le> cap"
    and "distinct acc" "set acc \<subseteq> set cs" "set xs \<subseteq> set cs"
  shows "set acc \<union> set xs \<subseteq> set (fill_rest cap acc xs)"
  using assms(3-)
proof (induction xs arbitrary: acc)
  case (Cons c xs)
  have inj: "inj_on ch_chunk (set cs)" and dcs: "distinct cs" using cs(1) by (simp_all add: distinct_map)
  have c: "c \<in> set cs" "set xs \<subseteq> set cs" using Cons.prems(3) by simp_all
  consider "cap \<le> int (length acc)" | "\<not> cap \<le> int (length acc)" "ch_chunk c \<in> ch_chunk ` set acc"
    | "\<not> cap \<le> int (length acc)" "ch_chunk c \<notin> ch_chunk ` set acc" by blast
  then show ?case
  proof cases
    case 1
    then have "set acc = set cs" using cs(2) by (intro full_subset Cons.prems dcs) simp
    then show ?thesis using 1 Cons.prems(3) by simp
  next
    case 2
    then obtain b where b: "b \<in> set acc" "ch_chunk c = ch_chunk b" by (elim imageE)
    have "c = b" by (rule inj_onD [OF inj b(2) c(1) subsetD [OF Cons.prems(2) b(1)]])
    then have "set acc \<union> set (c # xs) = set acc \<union> set xs" using b(1) by (simp add: insert_absorb)
    then show ?thesis using Cons.IH [OF Cons.prems(1,2) c(2)] 2 by simp
  next
    case 3
    have "distinct (acc @ [c])" using 3(2) Cons.prems(1) imageI [of c "set acc" ch_chunk] by (cases "c \<in> set acc") simp_all
    moreover have "set (acc @ [c]) \<subseteq> set cs" using Cons.prems(2) c(1) by simp
    ultimately show ?thesis using Cons.IH [of "acc @ [c]", OF _ _ c(2)] 3 by simp
  qed
qed simp

lemma final_evidence_all:
  assumes "distinct (map ch_chunk cs)" "distinct (map cand_doc docs)" "int (length cs) \<le> cap"
  shows "set cs \<subseteq> set (final_evidence cap docs cs)"
proof -
  let ?g = "fold (\<lambda>d acc. fill_items cap acc (filter (\<lambda>c. ch_doc c = cand_doc d) cs)) docs []"
  have "distinct ?g \<and> set ?g \<subseteq> set cs \<and> length ?g \<le> nat cap" by (rule grouped_ok [OF assms(1,2)]) simp_all
  then have "set ?g \<union> set cs \<subseteq> set (fill_rest cap ?g cs)"
    using fill_rest_covers [OF assms(1,3), of ?g cs] by simp
  then show ?thesis unfolding final_evidence_def by simp
qed

text \<open>A cut with something reserved keeps a rescue candidate, if there is one.\<close>

lemma cut_keeps_one:
  assumes "distinct (map ch_chunk cs)" "0 < limit" "0 < reserved" "c \<in> set cs" "ch_arrival c = a"
  shows "\<exists>x \<in> set (truncate_reserving_rescue cs limit reserved [a]). ch_arrival x = a"
    "int (length (truncate_reserving_rescue cs limit reserved [a])) \<le> limit"
proof -
  let ?r = "filter (\<lambda>c. ch_arrival c \<in> set [a]) cs"
  note facts = cut_facts [OF assms(1,2), of reserved "[a]", unfolded Let_def]
  have "c \<in> set ?r" using assms(4,5) by simp
  then have "0 < length ?r" by (rule length_pos_if_in_set)
  then have one: "1 \<le> seats_of limit reserved (length ?r)" using assms(2,3) by (simp add: seats_of_def Suc_le_eq zless_nat_eq_int_zless del: length_greater_0_conv)
  then have "filter (\<lambda>c. ch_arrival c \<in> set [a]) (truncate_reserving_rescue cs limit reserved [a]) \<noteq> []"
    using facts by (metis One_nat_def le_trans list.size(3) not_one_le_zero)
  then show "\<exists>x \<in> set (truncate_reserving_rescue cs limit reserved [a]). ch_arrival x = a"
    by (simp add: filter_empty_conv)
  have "seats_of limit reserved (length ?r) \<le> nat limit" by (simp add: seats_of_def)
  then have "length (truncate_reserving_rescue cs limit reserved [a]) \<le> nat limit"
    using facts by (auto split: if_splits)
  then show "int (length (truncate_reserving_rescue cs limit reserved [a])) \<le> limit" using assms(2) by linarith
qed

lemma pass1_seated:
  assumes "pass1_retrieve plan env query = Inr r"
  shows "p1_rescue_seated r = length (filter (\<lambda>c. ch_arrival c = Global_Child_Rescue) (p1_evidence r))"
  using assms by (auto simp: pass1_retrieve_def Let_def case_prod_beta)



text \<open>
  On a HYBRID trace the signal is weaker: a lexical lane or a reranker that the plan switched off
  reads as suspect, because the trace always has the lexical lane's size and never the reranker's
  switch.
\<close>

lemma hybrid_off_reads_suspect:
  "evaluate_lane (LANES ! 4) (hybrid_trace (plan\<lparr>hp_lexical_enabled := False\<rparr>) env (r\<lparr>hr_lexical := []\<rparr>)) = SUSPECT"
  "1 < length (hr_pre_g3 r) \<Longrightarrow> evaluate_lane (LANES ! 5) (hybrid_trace (plan\<lparr>hp_rerank_enabled := False\<rparr>) env r) = SUSPECT"
  by (simp_all add: LANES_def evaluate_lane_def hybrid_trace_def lane_size_def opt_or_def)

end
