(* ===== verification/Receipts.thy ===== *)
theory Receipts
  imports Tickets Act
begin

text \<open>
  The single transaction boundary of durable writes (\<^verbatim>\<open>shared/polymath_shared/receipts.py\<close>) and the
  operational columns of an extract artifact (\<^verbatim>\<open>shared/polymath_shared/extract_projection.py\<close>): the
  stage transaction with its savepoint, the writer's artifact, outbox and status operations, the
  projection claims, the invalidation of a corpus and the consumption of the outbox. The tables
  are those of the tickets, extended by the tables only this module uses; unique keys and the
  foreign keys to \<open>runs\<close> are part of the statements. \<open>db_now\<close> is the transaction's \<open>now()\<close>.

  The body of a stage is an operation on the whole database that returns or raises. An exception is
  an index into a heap of exception objects, so that a cyclic cause chain is a value too.
\<close>

section \<open>Tables\<close>

record stage_receipt =
  rc_id :: string
  rc_run :: string
  rc_stage :: string
  rc_contract :: string
  rc_status :: string
  rc_error :: "string option"

record projection_attempt =
  pa_projection :: string
  pa_kind :: string
  pa_entity :: string
  pa_hash :: string
  pa_contract :: string

record work_db = db +
  wd_receipts :: "stage_receipt list"
  wd_projection_attempts :: "projection_attempt list"
  wd_summaries :: "(string \<times> string) list"
  wd_canonicals :: "(string \<times> string) list"
  wd_evidence :: "(string \<times> string) list"

section \<open>Exceptions\<close>

record exc_obj =
  ex_name :: string
  ex_str :: string
  ex_cause :: "nat option"
  ex_context :: "nat option"

type_synonym exc = "exc_obj list \<times> nat"

lemma psubset_witness: "A \<subseteq> B \<Longrightarrow> i \<notin> A \<Longrightarrow> i \<in> B \<Longrightarrow> A \<subset> B"
  by blast

text \<open>The cause chain, each exception once.\<close>

function describe_chain :: "exc_obj list \<Rightarrow> nat list \<Rightarrow> nat option \<Rightarrow> string list" where
  "describe_chain heap seen cur =
     (case cur of None \<Rightarrow> []
      | Some i \<Rightarrow>
          if i \<in> set seen \<or> length heap \<le> i then []
          else let e = heap ! i in
            (if ex_str e = [] then ex_name e else ex_name e @ '': '' @ ex_str e) #
            describe_chain heap (i # seen) (case ex_cause e of Some j \<Rightarrow> Some j | None \<Rightarrow> ex_context e))"
  by pat_completeness auto
termination
proof (relation "measure (\<lambda>(heap, seen, cur). card ({..<length heap} - set seen))", goal_cases)
  case (2 heap seen cur i e)
  then have i: "i \<in> {..<length heap} - set seen" by simp
  have "{..<length heap} - set (i # seen) \<subseteq> {..<length heap} - set seen" by (rule Diff_mono) (simp_all add: subset_insertI)
  moreover have "i \<notin> {..<length heap} - set (i # seen)" by simp
  ultimately have "{..<length heap} - set (i # seen) \<subset> {..<length heap} - set seen" using i by (rule psubset_witness)
  then show ?case unfolding in_measure case_prod_conv by (intro psubset_card_mono finite_Diff finite_lessThan)
qed (rule wf_measure)

declare describe_chain.simps [simp del]

fun join_chain :: "string list \<Rightarrow> string" where
  "join_chain [] = []"
| "join_chain [p] = p"
| "join_chain (p # q # ps) = p @ '' <- '' @ join_chain (q # ps)"

definition describe :: "exc \<Rightarrow> string" where
  "describe exc = take 2000 (join_chain (describe_chain (fst exc) [] (Some (snd exc))))"

datatype stage_error = Foreign_Key_Violation | Stage_Failed string string

section \<open>Identity\<close>

definition stage_contract_hash :: "hasher \<Rightarrow> string \<Rightarrow> json \<Rightarrow> string" where
  "stage_contract_hash h stage frozen = h (JDict [(''stage'', JString stage), (''frozen'', frozen)])"

definition receipt_id :: "hasher \<Rightarrow> string \<Rightarrow> string \<Rightarrow> string \<Rightarrow> string" where
  "receipt_id h run stage contract =
     h (JDict [(''run'', JString run), (''stage'', JString stage), (''contract'', JString contract)])"

definition attempt_id :: "hasher \<Rightarrow> string \<Rightarrow> string \<Rightarrow> string \<Rightarrow> string" where
  "attempt_id h run stage contract = take 16 (receipt_id h run stage contract)"

section \<open>The stage transaction\<close>

definition attempt_key :: "string \<Rightarrow> string \<Rightarrow> string \<Rightarrow> attempt_row \<Rightarrow> bool" where
  "attempt_key run stage contract a \<longleftrightarrow> sa_run a = run \<and> sa_stage a = stage \<and> sa_contract a = contract"

definition receipt_key :: "string \<Rightarrow> string \<Rightarrow> string \<Rightarrow> stage_receipt \<Rightarrow> bool" where
  "receipt_key run stage contract r \<longleftrightarrow> rc_run r = run \<and> rc_stage r = stage \<and> rc_contract r = contract"

definition artifact_key :: "string \<Rightarrow> string \<Rightarrow> string \<Rightarrow> artifact_row \<Rightarrow> bool" where
  "artifact_key run stage contract a \<longleftrightarrow> af_run a = run \<and> af_stage a = stage \<and> af_contract a = contract"

definition known_run :: "string \<Rightarrow> work_db \<Rightarrow> bool" where
  "known_run run wd = list_ex (\<lambda>r. rn_id r = run) (db_runs wd)"

text \<open>\<open>UPDATE \<dots> WHERE P\<close>.\<close>

definition update_where :: "('r \<Rightarrow> bool) \<Rightarrow> ('r \<Rightarrow> 'r) \<Rightarrow> 'r list \<Rightarrow> 'r list" where
  "update_where P f rows = map (\<lambda>r. if P r then f r else r) rows"

definition begin_attempt :: "string \<Rightarrow> string \<Rightarrow> string \<Rightarrow> (work_db, stage_error, unit) act" where
  "begin_attempt run stage contract wd =
     (if list_ex (attempt_key run stage contract) (db_attempts wd) then (Inr (), wd)
      else if \<not> known_run run wd then (Inl Foreign_Key_Violation, wd)
      else (Inr (), wd\<lparr>db_attempts := db_attempts wd @ [\<lparr>sa_run = run, sa_stage = stage, sa_contract = contract,
        sa_started = db_now wd, sa_completed = None, sa_outcome = ''ok'', sa_error = None\<rparr>]\<rparr>))"

text \<open>\<open>INSERT INTO receipts \<dots> ON CONFLICT DO UPDATE\<close>: the row of a first insert, the update of a conflict.\<close>

definition put_receipt :: "hasher \<Rightarrow> string \<Rightarrow> string \<Rightarrow> string \<Rightarrow> string \<Rightarrow> string option \<Rightarrow>
    (stage_receipt \<Rightarrow> stage_receipt) \<Rightarrow> (work_db, stage_error, unit) act" where
  "put_receipt h run stage contract status err upd wd =
     (if list_ex (receipt_key run stage contract) (wd_receipts wd)
      then (Inr (), wd\<lparr>wd_receipts := update_where (receipt_key run stage contract) upd (wd_receipts wd)\<rparr>)
      else if \<not> known_run run wd then (Inl Foreign_Key_Violation, wd)
      else (Inr (), wd\<lparr>wd_receipts := wd_receipts wd @ [\<lparr>rc_id = receipt_id h run stage contract, rc_run = run,
        rc_stage = stage, rc_contract = contract, rc_status = status, rc_error = err\<rparr>]\<rparr>))"

definition record_failure :: "hasher \<Rightarrow> string \<Rightarrow> string \<Rightarrow> string \<Rightarrow> exc \<Rightarrow> (work_db, stage_error, unit) act" where
  "record_failure h run stage contract exc wd =
     (let described = describe exc in
      put_receipt h run stage contract ''failed'' (Some described) (\<lambda>r. r\<lparr>rc_status := ''failed'', rc_error := Some described\<rparr>)
        (wd\<lparr>db_attempts := update_where (attempt_key run stage contract)
          (\<lambda>a. a\<lparr>sa_outcome := ''failed'', sa_error := Some described, sa_completed := Some (db_now wd)\<rparr>) (db_attempts wd)\<rparr>))"

definition commit_receipt :: "hasher \<Rightarrow> string \<Rightarrow> string \<Rightarrow> string \<Rightarrow> (work_db, stage_error, unit) act" where
  "commit_receipt h run stage contract wd =
     put_receipt h run stage contract ''committed'' None (\<lambda>r. r\<lparr>rc_status := ''committed''\<rparr>)
       (wd\<lparr>db_attempts := update_where (attempt_key run stage contract)
         (\<lambda>a. a\<lparr>sa_completed := Some (db_now wd), sa_outcome := ''ok'', sa_error := None\<rparr>) (db_attempts wd)\<rparr>)"

text \<open>
  The savepoint is the state after the attempt was begun. When a statement of the boundary itself
  raises, nothing is committed: the state is the one before the transaction.
\<close>

definition stage_transaction :: "hasher \<Rightarrow> string \<Rightarrow> string \<Rightarrow> string \<Rightarrow> (work_db, exc, 'a) act \<Rightarrow>
    (work_db, stage_error, 'a) act" where
  "stage_transaction h run stage contract body wd =
     (case begin_attempt run stage contract wd of
        (Inl e, _) \<Rightarrow> (Inl e, wd)
      | (Inr _, savepoint) \<Rightarrow>
          (case body savepoint of
             (Inl exc, _) \<Rightarrow>
               (case record_failure h run stage contract exc savepoint of
                  (Inl e, _) \<Rightarrow> (Inl e, wd)
                | (Inr _, committed) \<Rightarrow> (Inl (Stage_Failed run stage), committed))
           | (Inr x, written) \<Rightarrow>
               (case commit_receipt h run stage contract written of
                  (Inl e, _) \<Rightarrow> (Inl e, wd)
                | (Inr _, committed) \<Rightarrow> (Inr x, committed))))"

section \<open>The operational columns of an extract artifact\<close>

text \<open>\<open>int(s)\<close> of a string: blanks around, a sign, digits with single underscores between them.\<close>

fun digit_groups :: "string \<Rightarrow> bool" where
  "digit_groups [] = False"
| "digit_groups [c] = py_isdigit c"
| "digit_groups (c # d # cs) = (py_isdigit c \<and> digit_groups (if d = CHR ''_'' then cs else d # cs))"

definition digits_value :: "string \<Rightarrow> int" where
  "digits_value s = foldl (\<lambda>n c. 10 * n + (of_char c - 48)) 0 (filter py_isdigit s)"

definition py_int_of_string :: "string \<Rightarrow> int option" where
  "py_int_of_string s =
     (let t = py_strip s;
          sign = (case t of c # _ \<Rightarrow> if c = CHR ''-'' then - 1 else 1 | [] \<Rightarrow> 1);
          body = (case t of c # r \<Rightarrow> if c = CHR ''-'' \<or> c = CHR ''+'' then r else t | [] \<Rightarrow> [])
      in if digit_groups body then Some (sign * digits_value body) else None)"

definition int_or_none :: "json option \<Rightarrow> int option" where
  "int_or_none v =
     (case v of Some (JNum x) \<Rightarrow> Some (int_trunc x) | Some (JString s) \<Rightarrow> py_int_of_string s | _ \<Rightarrow> None)"

definition as_dict :: "json option \<Rightarrow> (string, json) dict" where
  "as_dict v = (case v of Some (JDict d) \<Rightarrow> d | _ \<Rightarrow> [])"

definition derive_extract_projection :: "payload \<Rightarrow> extract_columns" where
  "derive_extract_projection payload =
     (let llm = map_of payload ''llm_extraction''; stats = as_dict (map_of (as_dict llm) ''stats'') in
      \<lparr>ec_present = (llm \<noteq> None), ec_calls = int_or_none (map_of stats ''calls''),
       ec_entities = int_or_none (map_of stats ''entities''), ec_relations = int_or_none (map_of stats ''relations''),
       ec_sent = int_or_none (map_of stats ''neighborhoods_sent''),
       ec_unaccounted = int_or_none (map_of stats ''neighborhoods_unaccounted''),
       ec_dropped = int_or_none (map_of stats ''neighborhoods_dropped'')\<rparr>)"

definition extract_projection_columns_for :: "payload \<Rightarrow> extract_columns option" where
  "extract_projection_columns_for payload =
     (if map_of payload ''llm_extraction'' = None then None else Some (derive_extract_projection payload))"

section \<open>The writer\<close>

text \<open>\<open>old || new\<close> on jsonb objects: the new value of a key wins.\<close>

definition jsonb_merge :: "payload \<Rightarrow> payload \<Rightarrow> payload" where
  "jsonb_merge old new = fold (\<lambda>(k, v). dict_set k v) new old"

definition artifact_id_of :: "hasher \<Rightarrow> string \<Rightarrow> string \<Rightarrow> string \<Rightarrow> payload \<Rightarrow> string" where
  "artifact_id_of h run stage contract payload =
     h (JDict [(''run'', JString run), (''stage'', JString stage), (''contract'', JString contract), (''payload'', JDict payload)])"

definition opt_keep :: "'a option \<Rightarrow> 'a option \<Rightarrow> 'a option" where
  "opt_keep new old = (case new of None \<Rightarrow> old | Some x \<Rightarrow> Some x)"

text \<open>Called inside the transaction, where the attempt's row already references the run.\<close>

definition write_artifact :: "hasher \<Rightarrow> string \<Rightarrow> string \<Rightarrow> string \<Rightarrow> payload \<Rightarrow> work_db \<Rightarrow> work_db" where
  "write_artifact h run stage contract payload wd =
     (let columns = extract_projection_columns_for payload in
      if list_ex (artifact_key run stage contract) (db_artifacts wd)
      then wd\<lparr>db_artifacts := update_where (artifact_key run stage contract)
        (\<lambda>a. a\<lparr>af_payload := jsonb_merge (af_payload a) payload, af_extract := opt_keep columns (af_extract a)\<rparr>) (db_artifacts wd)\<rparr>
      else wd\<lparr>db_artifacts := db_artifacts wd @ [\<lparr>af_id = artifact_id_of h run stage contract payload, af_run = run,
        af_stage = stage, af_contract = contract, af_payload = payload, af_extract = columns\<rparr>]\<rparr>)"

definition write_outbox :: "hasher \<Rightarrow> string \<Rightarrow> string \<Rightarrow> payload \<Rightarrow> work_db \<Rightarrow> work_db" where
  "write_outbox h run event_type payload wd =
     (let key = h (JDict [(''run'', JString run), (''type'', JString event_type), (''payload'', JDict payload)]) in
      if list_ex (\<lambda>e. ob_key e = key) (db_outbox wd) then wd
      else wd\<lparr>db_outbox := db_outbox wd @ [\<lparr>ob_id = db_next_event wd, ob_run = run, ob_type = event_type,
             ob_payload = payload, ob_key = key, ob_delivered = None\<rparr>], db_next_event := db_next_event wd + 1\<rparr>)"

definition PROGRESS_STATUSES :: "string list" where
  "PROGRESS_STATUSES = [''reconciling'']"

definition write_run_status :: "string \<Rightarrow> string \<Rightarrow> work_db \<Rightarrow> work_db" where
  "write_run_status run status wd =
     (if status \<in> set PROGRESS_STATUSES
      then wd\<lparr>db_runs := update_where (\<lambda>r. rn_id r = run \<and> rn_status r \<in> {''intake'', ''reconciling''})
        (\<lambda>r. r\<lparr>rn_status := status\<rparr>) (db_runs wd)\<rparr>
      else wd\<lparr>db_runs := update_where (\<lambda>r. rn_id r = run) (\<lambda>r. r\<lparr>rn_status := status\<rparr>) (db_runs wd)\<rparr>)"

text \<open>The calls a stage body makes on its writer, in order.\<close>

datatype stage_write = Write_Artifact payload | Write_Outbox string payload | Write_Run_Status string

definition apply_write :: "hasher \<Rightarrow> string \<Rightarrow> string \<Rightarrow> string \<Rightarrow> stage_write \<Rightarrow> work_db \<Rightarrow> work_db" where
  "apply_write h run stage contract w = (case w of
       Write_Artifact payload \<Rightarrow> write_artifact h run stage contract payload
     | Write_Outbox event_type payload \<Rightarrow> write_outbox h run event_type payload
     | Write_Run_Status status \<Rightarrow> write_run_status run status)"

text \<open>A body that makes these calls and then returns, or raises after them.\<close>

definition writer_body :: "hasher \<Rightarrow> string \<Rightarrow> string \<Rightarrow> string \<Rightarrow> stage_write list \<Rightarrow> exc option \<Rightarrow> (work_db, exc, unit) act" where
  "writer_body h run stage contract writes raised wd =
     (case raised of None \<Rightarrow> Inr () | Some exc \<Rightarrow> Inl exc, fold (apply_write h run stage contract) writes wd)"

section \<open>Projection claims\<close>

definition record_projection_attempt :: "string \<Rightarrow> string \<Rightarrow> string \<Rightarrow> string \<Rightarrow> string \<Rightarrow> work_db \<Rightarrow> work_db" where
  "record_projection_attempt projection kind entity hash contract wd =
     (let claim = (\<lambda>r. pr_projection r = projection \<and> pr_kind r = kind \<and> pr_entity r = entity);
          wd1 = wd\<lparr>wd_projection_attempts := wd_projection_attempts wd @
            [\<lparr>pa_projection = projection, pa_kind = kind, pa_entity = entity, pa_hash = hash, pa_contract = contract\<rparr>]\<rparr>
      in if list_ex claim (db_receipts wd1)
         then wd1\<lparr>db_receipts := update_where claim (\<lambda>r. r\<lparr>pr_active := True, pr_hash := hash\<rparr>) (db_receipts wd1)\<rparr>
         else wd1\<lparr>db_receipts := db_receipts wd1 @ [\<lparr>pr_projection = projection, pr_kind = kind, pr_active = True,
           pr_entity = entity, pr_hash = hash\<rparr>]\<rparr>)"

definition supersede_projection_claims :: "string \<Rightarrow> string option \<Rightarrow> string list \<Rightarrow> work_db \<Rightarrow> work_db" where
  "supersede_projection_claims projection kind entity_ids wd =
     (if entity_ids = [] then wd
      else case kind of
          Some k \<Rightarrow> if k \<noteq> []
            then wd\<lparr>db_receipts := update_where (\<lambda>r. pr_projection r = projection \<and> pr_kind r = k \<and> pr_entity r \<in> set entity_ids)
              (\<lambda>r. r\<lparr>pr_active := False\<rparr>) (db_receipts wd)\<rparr>
            else wd\<lparr>db_receipts := update_where (\<lambda>r. pr_projection r = projection \<and> pr_entity r \<in> set entity_ids)
              (\<lambda>r. r\<lparr>pr_active := False\<rparr>) (db_receipts wd)\<rparr>
        | None \<Rightarrow> wd\<lparr>db_receipts := update_where (\<lambda>r. pr_projection r = projection \<and> pr_entity r \<in> set entity_ids)
              (\<lambda>r. r\<lparr>pr_active := False\<rparr>) (db_receipts wd)\<rparr>)"

definition corpus_doc_ids :: "string \<Rightarrow> work_db \<Rightarrow> string list" where
  "corpus_doc_ids corpus wd = map dc_id (filter (\<lambda>d. dc_corpus d = corpus) (db_docs wd))"

definition corpus_entities :: "string \<Rightarrow> work_db \<Rightarrow> string list" where
  "corpus_entities corpus wd =
     (let docs = corpus_doc_ids corpus wd in
      map ck_id (filter (\<lambda>c. ck_doc c \<in> set docs) (db_chunks wd)) @
      map fst (filter (\<lambda>(s, c). c = corpus) (wd_summaries wd)) @
      map fst (filter (\<lambda>(e, c). c = corpus) (wd_canonicals wd)) @
      remdups (map fst (filter (\<lambda>(f, d). d \<in> set docs) (wd_evidence wd))))"

definition REDRIVE_STAGES :: "string list" where
  "REDRIVE_STAGES = [''project_qdrant'', ''project_neo4j'', ''project_canonical'', ''verify_projections'']"

definition reenter_run :: "string \<Rightarrow> work_db \<Rightarrow> work_db" where
  "reenter_run run wd =
     wd\<lparr>db_runs := update_where (\<lambda>r. rn_id r = run) (\<lambda>r. r\<lparr>rn_status := ''degraded''\<rparr>) (db_runs wd),
        db_attempts := update_where (\<lambda>a. sa_run a = run \<and> sa_stage a \<in> set REDRIVE_STAGES)
          (\<lambda>a. a\<lparr>sa_outcome := ''skipped'', sa_completed := Some (db_now wd), sa_error := None\<rparr>) (db_attempts wd)\<rparr>"

definition invalidate_corpus_projections :: "string \<Rightarrow> work_db \<Rightarrow> nat \<times> work_db" where
  "invalidate_corpus_projections corpus wd =
     (if corpus_doc_ids corpus wd = [] then (0, wd)
      else let entities = corpus_entities corpus wd;
               wd1 = fold (\<lambda>p. supersede_projection_claims p None entities) [''qdrant'', ''neo4j''] wd;
               runs = map rn_id (filter (\<lambda>r. rn_corpus r = corpus \<and> rn_status r = ''query_ready'') (db_runs wd1))
           in (length runs, fold reenter_run runs wd1))"

section \<open>The outbox\<close>

text \<open>\<open>locked\<close>: the events other transactions hold, which \<open>SKIP LOCKED\<close> passes over.\<close>

definition claim_events :: "string list \<Rightarrow> nat \<Rightarrow> nat list \<Rightarrow> work_db \<Rightarrow> outbox_row list \<times> work_db" where
  "claim_events event_types limit locked wd =
     (let events = take limit (sort_key ob_id (filter (\<lambda>e. ob_delivered e = None \<and> ob_type e \<in> set event_types \<and>
            ob_id e \<notin> set locked) (db_outbox wd)))
      in if events = [] then ([], wd)
         else (events, wd\<lparr>db_outbox := update_where (\<lambda>e. ob_id e \<in> set (map ob_id events))
           (\<lambda>e. e\<lparr>ob_delivered := Some (db_now wd)\<rparr>) (db_outbox wd)\<rparr>))"

end
