(* ===== verification/Claims_Facts.thy ===== *)
theory Claims_Facts
  imports Receipts_Facts
begin

text \<open>
  The outbox and the projection claims: an event is claimed once along any sequence of claims, and
  invalidating a corpus leaves no active claim of its chunks, re-enters its ready runs and erases
  no history.
\<close>

section \<open>Consuming the outbox\<close>

text \<open>A claim: the event types asked for, the batch size, and the rows others hold locked.\<close>

type_synonym claim = "string list \<times> nat \<times> nat list"

fun claim_all :: "claim list \<Rightarrow> work_db \<Rightarrow> outbox_row list \<times> work_db" where
  "claim_all [] wd = ([], wd)"
| "claim_all ((types, limit, locked) # cs) wd =
     (let (es, wd1) = claim_events types limit locked wd; (rest, wd2) = claim_all cs wd1 in (es @ rest, wd2))"

definition undelivered :: "work_db \<Rightarrow> nat set" where
  "undelivered wd = ob_id ` {e \<in> set (db_outbox wd). ob_delivered e = None}"

lemma distinct_map_sort_key: "distinct (map f xs) \<Longrightarrow> distinct (map f (sort_key g xs))"
  by (simp add: distinct_map)

lemma claim_events_facts:
  fixes wd :: work_db and types :: "string list" and limit :: nat and locked :: "nat list"
  assumes "distinct (map ob_id (db_outbox wd))"
  defines "es \<equiv> fst (claim_events types limit locked wd)" and "wd' \<equiv> snd (claim_events types limit locked wd)"
  shows "distinct (map ob_id es)" "set es \<subseteq> {e \<in> set (db_outbox wd). ob_delivered e = None \<and> ob_type e \<in> set types \<and> ob_id e \<notin> set locked}"
    "length es \<le> limit" "map ob_id (db_outbox wd') = map ob_id (db_outbox wd)"
    "undelivered wd' = undelivered wd - ob_id ` set es"
proof -
  let ?open = "filter (\<lambda>e. ob_delivered e = None \<and> ob_type e \<in> set types \<and> ob_id e \<notin> set locked) (db_outbox wd)"
  have es: "es = take limit (sort_key ob_id ?open)"
    by (simp add: es_def claim_events_def Let_def)
  have "distinct (map ob_id ?open)" by (rule distinct_map_filter [OF assms(1)])
  then have "distinct (map ob_id (sort_key ob_id ?open))" by (rule distinct_map_sort_key)
  then show "distinct (map ob_id es)" unfolding es take_map [symmetric] by (rule distinct_take)
  show "set es \<subseteq> {e \<in> set (db_outbox wd). ob_delivered e = None \<and> ob_type e \<in> set types \<and> ob_id e \<notin> set locked}"
    unfolding es by (auto dest!: in_set_takeD)
  show "length es \<le> limit" unfolding es by simp
  have wd': "db_outbox wd' = update_where (\<lambda>e. ob_id e \<in> set (map ob_id es)) (\<lambda>e. e\<lparr>ob_delivered := Some (db_now wd)\<rparr>) (db_outbox wd)"
    unfolding wd'_def claim_events_def Let_def es by (simp add: update_where_def)
  show "map ob_id (db_outbox wd') = map ob_id (db_outbox wd)" unfolding wd' by (simp add: update_where_def)
  show "undelivered wd' = undelivered wd - ob_id ` set es"
    unfolding undelivered_def wd' update_where_def by (auto split: if_splits)
qed

lemma claim_all_facts:
  assumes "distinct (map ob_id (db_outbox wd))"
  shows "distinct (map ob_id (fst (claim_all cs wd))) \<and> ob_id ` set (fst (claim_all cs wd)) \<subseteq> undelivered wd \<and>
    undelivered (snd (claim_all cs wd)) = undelivered wd - ob_id ` set (fst (claim_all cs wd))"
  using assms
proof (induction cs arbitrary: wd)
  case (Cons c cs)
  obtain types limit locked where c: "c = (types, limit, locked)" by (cases c)
  obtain es wd1 where e: "claim_events types limit locked wd = (es, wd1)" by (cases "claim_events types limit locked wd")
  obtain rest wd2 where r: "claim_all cs wd1 = (rest, wd2)" by (cases "claim_all cs wd1")
  note facts = claim_events_facts [OF Cons.prems, of types limit locked, unfolded e fst_conv snd_conv]
  have "distinct (map ob_id (db_outbox wd1))" unfolding facts(4) by (rule Cons.prems)
  from Cons.IH [OF this] have IH: "distinct (map ob_id rest)" "ob_id ` set rest \<subseteq> undelivered wd1"
    "undelivered wd2 = undelivered wd1 - ob_id ` set rest" by (simp_all add: r)
  have sub: "ob_id ` set es \<subseteq> undelivered wd" using facts(2) by (auto simp: undelivered_def)
  have all: "claim_all (c # cs) wd = (es @ rest, wd2)" by (simp add: c e r)
  show ?case
    unfolding all fst_conv snd_conv map_append set_append image_Un distinct_append
    using facts(1) IH sub unfolding facts(5) by auto
qed simp

text \<open>
  C21. An event is claimed at most once. Along any sequence of claims, by whatever consumers, for
  whatever event types, batch sizes and rows locked elsewhere, the claimed events are distinct,
  each was undelivered at the start, and exactly the claimed ones are no longer undelivered at the
  end (event ids being a serial key).
\<close>

theorem event_is_claimed_once:
  assumes "distinct (map ob_id (db_outbox wd))"
  shows "distinct (map ob_id (fst (claim_all cs wd))) \<and> ob_id ` set (fst (claim_all cs wd)) \<subseteq> undelivered wd \<and>
    undelivered (snd (claim_all cs wd)) = undelivered wd - ob_id ` set (fst (claim_all cs wd))"
  by (rule claim_all_facts [OF assms])

definition demo_outbox :: work_db where
  "demo_outbox = write_outbox (\<lambda>j. case j of JDict [_, (_, JString s), _] \<Rightarrow> s | _ \<Rightarrow> ''e'') ''r'' ''project_qdrant.v1'' []
     (write_outbox (\<lambda>j. case j of JDict [_, (_, JString s), _] \<Rightarrow> s | _ \<Rightarrow> ''e'') ''r'' ''chunked.v1'' [] demo_work)"

theorem event_is_claimed_once_witness:
  "distinct (map ob_id (fst (claim_all [([''chunked.v1''], 1, []), ([''chunked.v1'', ''project_qdrant.v1''], 5, [])] demo_outbox)))"
  using event_is_claimed_once [of demo_outbox "[([''chunked.v1''], 1, []), ([''chunked.v1'', ''project_qdrant.v1''], 5, [])]"]
  by (simp add: demo_outbox_def demo_work_def write_outbox_def Let_def)

section \<open>Projection claims\<close>

definition active_claim :: "string \<Rightarrow> string \<Rightarrow> receipt_row \<Rightarrow> bool" where
  "active_claim projection entity r \<longleftrightarrow> pr_projection r = projection \<and> pr_entity r = entity \<and> pr_active r"

text \<open>Everything a supersession keeps: all but the active flags.\<close>

definition claim_row :: "receipt_row \<Rightarrow> string \<times> string \<times> string \<times> string" where
  "claim_row r = (pr_projection r, pr_kind r, pr_entity r, pr_hash r)"

lemma supersede_facts:
  fixes wd :: work_db and p :: string and ids :: "string list"
  defines "wd' \<equiv> supersede_projection_claims p None ids wd"
  shows "wd' = wd\<lparr>db_receipts := db_receipts wd'\<rparr>" "map claim_row (db_receipts wd') = map claim_row (db_receipts wd)"
    "\<And>q e r. r \<in> set (db_receipts wd') \<Longrightarrow> active_claim q e r \<Longrightarrow>
      \<not> (q = p \<and> e \<in> set ids) \<and> (\<exists>s \<in> set (db_receipts wd). active_claim q e s)"
  by (auto simp: wd'_def supersede_projection_claims_def update_where_def claim_row_def active_claim_def split: if_splits)

lemma supersede_all:
  fixes wd :: work_db and ids ps :: "string list"
  defines "wd' \<equiv> fold (\<lambda>p. supersede_projection_claims p None ids) ps wd"
  shows "wd' = wd\<lparr>db_receipts := db_receipts wd'\<rparr> \<and> map claim_row (db_receipts wd') = map claim_row (db_receipts wd) \<and>
    (\<forall>q e. (\<exists>r \<in> set (db_receipts wd'). active_claim q e r) \<longrightarrow>
      \<not> (q \<in> set ps \<and> e \<in> set ids) \<and> (\<exists>s \<in> set (db_receipts wd). active_claim q e s))"
  unfolding wd'_def
proof (induction ps arbitrary: wd)
  case (Cons p ps)
  let ?w = "supersede_projection_claims p None ids wd"
  note one = supersede_facts [where p = p and ids = ids and wd = wd]
  note rest = Cons.IH [of ?w]
  let ?z = "fold (\<lambda>p. supersede_projection_claims p None ids) ps ?w"
  have "?z = ?w\<lparr>db_receipts := db_receipts ?z\<rparr>" using rest by blast
  also have "\<dots> = wd\<lparr>db_receipts := db_receipts ?z\<rparr>" by (subst one(1)) simp
  finally have "?z = wd\<lparr>db_receipts := db_receipts ?z\<rparr>" .
  moreover have "map claim_row (db_receipts ?z) = map claim_row (db_receipts wd)" using rest one(2) by simp
  moreover have "\<not> (q \<in> set (p # ps) \<and> e \<in> set ids) \<and> (\<exists>s \<in> set (db_receipts wd). active_claim q e s)"
    if r: "\<exists>r \<in> set (db_receipts ?z). active_claim q e r" for q e
  proof -
    have a: "\<not> (q \<in> set ps \<and> e \<in> set ids)" and b: "\<exists>s \<in> set (db_receipts ?w). active_claim q e s"
      using rest r by blast+
    obtain s where "s \<in> set (db_receipts ?w)" "active_claim q e s" using b by blast
    from one(3) [OF this] show ?thesis using a by auto
  qed
  ultimately show ?case by simp
qed simp

definition reentered :: "string list \<Rightarrow> work_db \<Rightarrow> work_db \<Rightarrow> bool" where
  "reentered runs wd wd' \<longleftrightarrow>
     wd' = wd\<lparr>db_runs := db_runs wd', db_attempts := db_attempts wd'\<rparr> \<and>
     db_runs wd' = map (\<lambda>r. if rn_id r \<in> set runs then r\<lparr>rn_status := ''degraded''\<rparr> else r) (db_runs wd) \<and>
     db_attempts wd' = map (\<lambda>a. if sa_run a \<in> set runs \<and> sa_stage a \<in> set REDRIVE_STAGES
       then a\<lparr>sa_outcome := ''skipped'', sa_completed := Some (db_now wd), sa_error := None\<rparr> else a) (db_attempts wd)"

lemma reenter_fold: "reentered runs wd (fold reenter_run runs wd)"
proof (induction runs arbitrary: wd)
  case (Cons run runs)
  let ?w = "reenter_run run wd"
  have IH: "reentered runs ?w (fold reenter_run runs ?w)" by (rule Cons.IH)
  let ?z = "fold reenter_run runs ?w"
  have "?z = ?w\<lparr>db_runs := db_runs ?z, db_attempts := db_attempts ?z\<rparr>" using IH unfolding reentered_def by blast
  also have "\<dots> = wd\<lparr>db_runs := db_runs ?z, db_attempts := db_attempts ?z\<rparr>" by (simp add: reenter_run_def)
  finally have 1: "?z = wd\<lparr>db_runs := db_runs ?z, db_attempts := db_attempts ?z\<rparr>" .
  have now: "db_now ?w = db_now wd" by (simp add: reenter_run_def)
  have 2: "db_runs ?z = map (\<lambda>r. if rn_id r \<in> set (run # runs) then r\<lparr>rn_status := ''degraded''\<rparr> else r) (db_runs wd)"
    using IH unfolding reentered_def by (auto simp: reenter_run_def update_where_def)
  have 3: "db_attempts ?z = map (\<lambda>a. if sa_run a \<in> set (run # runs) \<and> sa_stage a \<in> set REDRIVE_STAGES
       then a\<lparr>sa_outcome := ''skipped'', sa_completed := Some (db_now wd), sa_error := None\<rparr> else a) (db_attempts wd)"
    using IH unfolding reentered_def now by (auto simp: reenter_run_def update_where_def)
  show ?case unfolding reentered_def using 1 2 3 by simp
qed (simp add: reentered_def)

lemma truncate_receipts [simp]: "db_receipts (db.truncate wd) = db_receipts wd"
  by (simp add: db.truncate_def)

lemma has_receipt_active: "has_receipt (db.truncate wd) p c \<Longrightarrow> \<exists>r \<in> set (db_receipts wd). active_claim p (ck_id c) r"
  by (auto simp: has_receipt_def list_ex_iff active_claim_def)

text \<open>
  C22. Invalidating a corpus reopens it for the census and erases nothing. For a corpus with a
  document: no chunk of its documents keeps an active qdrant or neo4j receipt, as the want-set of
  the tickets reads them; exactly its query-ready runs become degraded and their projection and
  verification attempts skipped, and their number is returned; every claim row stays (only active
  flags were cleared), and the projection history, the artifacts, the outbox and every other table
  are untouched.
\<close>

theorem invalidation_reopens_the_corpus:
  assumes "corpus_doc_ids corpus wd \<noteq> []"
  shows "let out = invalidate_corpus_projections corpus wd; wd' = snd out;
      runs = map rn_id (filter (\<lambda>r. rn_corpus r = corpus \<and> rn_status r = ''query_ready'') (db_runs wd))
    in list_all (\<lambda>c. ck_doc c \<in> set (corpus_doc_ids corpus wd) \<longrightarrow>
         \<not> has_receipt (db.truncate wd') ''qdrant'' c \<and> \<not> has_receipt (db.truncate wd') ''neo4j'' c) (db_chunks wd) \<and>
       fst out = length runs \<and> reentered runs (wd\<lparr>db_receipts := db_receipts wd'\<rparr>) wd' \<and>
       map claim_row (db_receipts wd') = map claim_row (db_receipts wd)"
proof -
  let ?ids = "corpus_entities corpus wd"
  let ?w = "fold (\<lambda>p. supersede_projection_claims p None ?ids) [''qdrant'', ''neo4j''] wd"
  let ?runs = "map rn_id (filter (\<lambda>r. rn_corpus r = corpus \<and> rn_status r = ''query_ready'') (db_runs wd))"
  note sup = supersede_all [where ids = ?ids and ps = "[''qdrant'', ''neo4j'']" and wd = wd]
  have w: "?w = wd\<lparr>db_receipts := db_receipts ?w\<rparr>" using sup by blast
  have "db_runs ?w = db_runs (wd\<lparr>db_receipts := db_receipts ?w\<rparr>)" by (rule arg_cong [OF w])
  then have "db_runs ?w = db_runs wd" by (rule trans) simp
  then have out: "invalidate_corpus_projections corpus wd = (length ?runs, fold reenter_run ?runs ?w)"
    using assms unfolding invalidate_corpus_projections_def Let_def by simp
  let ?z = "fold reenter_run ?runs ?w"
  have re: "reentered ?runs ?w ?z" by (rule reenter_fold)
  then have "?z = ?w\<lparr>db_runs := db_runs ?z, db_attempts := db_attempts ?z\<rparr>" unfolding reentered_def by blast
  then have rec: "db_receipts ?z = db_receipts ?w" by (rule trans [OF arg_cong [where f = db_receipts]]) simp
  have gone: "\<not> has_receipt (db.truncate ?z) p c" if "ck_doc c \<in> set (corpus_doc_ids corpus wd)" "c \<in> set (db_chunks wd)"
    "p \<in> {''qdrant'', ''neo4j''}" for p c
  proof
    assume "has_receipt (db.truncate ?z) p c"
    then obtain r where r: "r \<in> set (db_receipts ?w)" "active_claim p (ck_id c) r"
      using has_receipt_active [of ?z p c] unfolding rec by blast
    have "ck_id c \<in> set ?ids" using that(1,2) by (auto simp: corpus_entities_def Let_def)
    moreover have "\<not> (p \<in> set [''qdrant'', ''neo4j''] \<and> ck_id c \<in> set ?ids)"
    proof -
      have "\<exists>r \<in> set (db_receipts ?w). active_claim p (ck_id c) r" using r by blast
      with sup show ?thesis by blast
    qed
    ultimately show False using that(3) by simp
  qed
  have eq: "wd\<lparr>db_receipts := db_receipts ?z\<rparr> = ?w" unfolding rec by (rule w [symmetric])
  show ?thesis
    unfolding Let_def out fst_conv snd_conv eq
  proof (intro conjI)
    show "list_all (\<lambda>c. ck_doc c \<in> set (corpus_doc_ids corpus wd) \<longrightarrow>
         \<not> has_receipt (db.truncate ?z) ''qdrant'' c \<and> \<not> has_receipt (db.truncate ?z) ''neo4j'' c) (db_chunks wd)"
      using gone by (simp add: list_all_iff)
    show "map claim_row (db_receipts ?z) = map claim_row (db_receipts wd)" unfolding rec using sup by blast
  qed (rule refl, rule re)
qed

theorem invalidation_reopens_the_corpus_witness:
  "fst (invalidate_corpus_projections ''c'' demo_work) = 1 \<and>
   \<not> has_receipt (db.truncate (snd (invalidate_corpus_projections ''c'' demo_work))) ''qdrant'' \<lparr>ck_id = ''k'', ck_doc = ''d'', ck_tier = ''child''\<rparr>"
  using invalidation_reopens_the_corpus [of "''c''" demo_work]
  by (simp add: corpus_doc_ids_def demo_work_def Let_def)

end
