(* ===== verification/Spec2Isabelle.thy ===== *)
theory Spec2Isabelle
  imports Registry Lane_Policy Pool_Facts Map_Batches Groq_Router Tickets_Facts Service_Records Service_Ledger Json_Mask
    Dedup Liveness Claims_Facts
begin

text \<open>
  A verification development for Polymath, a platform that ingests documents into corpora (stage by
  stage, over a relational store), extracts relations with language models on a fleet of rate-limited
  lanes, and answers queries over the result. The development models the parts that decide: who may call a
  provider and when, which lane serves a document, which work is handed to which stage and what its
  transaction leaves behind, how a cognitive-adapter run moves through its manifest and is stored, how a
  query's evidence is chosen, and how the local extractor constrains decoding.
  Paths are relative to \<^verbatim>\<open>src/\<close>; \<^verbatim>\<open>shared/polymath_shared/\<close> is left out where unambiguous.

  \<^bold>\<open>Conventions.\<close> Python objects with state are records passed explicitly; a raise is an \<open>Inl\<close> or a
  \<open>None\<close>; dicts are association lists in insertion order (\<open>Prelude\<close>); floats are exact rationals; time is
  a clock reading in the state; SQL tables are lists of rows and statements are functions on them. What
  is not under \<^verbatim>\<open>src/\<close> (hash functions, the tokenizer, JSON Schema validation, the environment and parsed
  files) is an argument of the definitions that use it. Text is ASCII.

  \<^bold>\<open>Shared theories.\<close> \<open>Prelude\<close>: rounding, dicts and three interfaces (a step relation with an
  invariant, a bounded controller, a functional simulation). \<open>Py_Strings\<close>: string operations, results with
  errors, Python's \<open>sorted\<close>, \<open>max\<close> and \<open>min\<close>. \<open>Py_Json\<close>: parsed JSON, its truth value and equality. \<open>Act\<close>:
  operations on a state that return or raise, and the rule for what they keep either way.

  \<^bold>\<open>The adaptive limiter\<close> (\<^verbatim>\<open>llm_extraction/limiter.py\<close>, \<^verbatim>\<open>state_store.py\<close>). \<open>Token_Bucket\<close>: the rate buckets
  (\<open>_TokenBucket\<close>), with the interface \<open>refundable_resource\<close>. \<open>Circuit\<close>: the breaker with its half-open
  probe and the family gate. \<open>Limiter\<close>: configuration, admission through all gates, outcome
  reports, header synchronization, the daily budget and its durable state. \<open>Limiter_Facts\<close>: refusals
  leak nothing, admissions charge exactly once, the daily budget is never exceeded, the effective
  limit stays in its bounds along every run, a blocking admission returns, restart restores the controller.
  \<open>Registry\<close>: the batch budget of local lanes and the registry of lanes with their durable rows.
  Loops that wait for the clock (\<open>tb_acquire_loop\<close>, \<open>wait_for_breaker_loop\<close>) are partial functions; their
  return is proved, so no fuel is needed.

  \<^bold>\<open>Lanes and providers.\<close> \<open>Lane_Policy\<close> (\<^verbatim>\<open>policy.py\<close>, \<^verbatim>\<open>effective_capacity.py\<close>): the byte threshold at
  selection and dispatch, and where a capacity value comes from. \<open>Pool\<close>, \<open>Pool_Facts\<close> (\<^verbatim>\<open>pool.py\<close>): the roster,
  stage pins, failover ring and the family interleaving (a permutation in which no family runs
  ahead). \<open>Map_Batches\<close> (\<^verbatim>\<open>document_profile/map_batches.py\<close>): how a document's parents are cut into
  requests and what identifies a batch. \<open>Groq_Router\<close> (\<^verbatim>\<open>groq_router.py\<close>, \<^verbatim>\<open>groq_accounts.py\<close>,
  \<^verbatim>\<open>groq_routing.py\<close>): one budget per account over the limiter snapshots of its lanes, and reservations.

  \<^bold>\<open>The control plane\<close> (\<^verbatim>\<open>control/control/tickets.py\<close>, \<^verbatim>\<open>projection_want.py\<close>). \<open>Tickets\<close>: the stage DAG, evidence
  (attempts, artifacts, receipts with cached verdicts), emission, advancement by keyset pages, leases, the
  promotion barrier and backpressure, in the order of the file; \<open>advance_loop\<close> is total because every page
  moves the cursor past tickets of the finite table. \<open>Tickets_Facts\<close>: work is handed over only on
  evidence, and is when the evidence is there; refusals are inert; chains are created once; leases blame only
  owners that are gone; the barrier and the creation gate meet their specifications. One transaction
  at a time: interleaving of concurrent transactions is left to the database.

  \<^bold>\<open>Durable stage writes\<close> (\<^verbatim>\<open>receipts.py\<close>, \<^verbatim>\<open>extract_projection.py\<close>, ids of \<^verbatim>\<open>identity.py\<close>). \<open>Receipts\<close> extends
  the tables of the tickets by those only this module uses: the stage transaction with its savepoint, the
  writer (artifacts, outbox, run status), projection claims, the invalidation of a corpus, the consumption of
  the outbox. \<open>Receipts_Facts\<close>: a failed stage leaves its record and nothing else, a committed one is what the
  ticket layer reads as done, artifact writes merge, progress writes spare verdicts. \<open>Claims_Facts\<close>: an event
  is claimed once, an invalidated corpus is open again for the census of the tickets.

  \<^bold>\<open>The cognitive adapter\<close> (\<^verbatim>\<open>adapter/contracts.py\<close>, \<^verbatim>\<open>manifest.py\<close>, \<^verbatim>\<open>transitions.py\<close>, \<^verbatim>\<open>hypotheses.py\<close>,
  \<^verbatim>\<open>store.py\<close>, \<^verbatim>\<open>service.py\<close>, \<^verbatim>\<open>workers/workers/adapter_step_worker.py\<close>). \<open>Adapter_Manifest\<close>: step graphs, their
  integrity check and its worklist search, which is total (every visited id leaves the unseen set) and
  exact. \<open>Adapter_Run\<close>: predicates, navigation, budgets, issuing, submissions, terminal transitions.
  \<open>Adapter_Facts\<close>: one step relation for all of them, its invariant, progress over admitted manifests, finality,
  one submission per issuance, citations. \<open>Hypotheses\<close>, \<open>Hypotheses_Facts\<close>: the hypothesis ledger; knowledge
  items are addresses into a store, because a split child may share and write its parent's. \<open>Adapter_Store\<close>: the
  adapter's tables and every statement on them. \<open>Adapter_Service\<close>: the transaction and the operations start,
  submit, cancel, result and advance, and the worker's lease loop; executors, hashes, clocks and validators are
  arguments. \<open>Service_Facts\<close>: a history of transactions keeps every stored run in order and moves it along the
  run machine only (transactions on one run are serialised by \<^verbatim>\<open>FOR UPDATE\<close>, so a history is a sequence).
  \<open>Service_Guarantees\<close>, \<open>Service_Records\<close>, \<open>Service_Ledger\<close>: leases, idempotent start, what is on record after a
  submission, the evidence shown, the stored ledger.

  \<^bold>\<open>Intake\<close> (\<^verbatim>\<open>dedup.py\<close>). \<open>Dedup\<close>: the fingerprint of a text, the overlap of two, the pruned scan, which finds
  what an exhaustive one finds, and the verdict.

  \<^bold>\<open>Retrieval\<close> (\<^verbatim>\<open>pass1.py\<close>, \<^verbatim>\<open>hybrid.py\<close>, \<^verbatim>\<open>latent/rescue.py\<close>, \<^verbatim>\<open>evidence_utility.py\<close>, \<^verbatim>\<open>lane_liveness.py\<close>).
  \<open>Pass1\<close>: the FAST engine from its four lanes to the final evidence. \<open>Pass1_Facts\<close>: the fusion is
  reciprocal-rank fusion, the cut keeps its rescue seats. \<open>Pass1_Evidence\<close>: only children prove, whatever
  the summary lanes return. \<open>Evidence_Utility\<close>: the greedy cut, which keeps the seats of the plain one and is it
  without requirements, saturation and redundancy, and the latent competition. \<open>Hybrid\<close>, \<open>Hybrid_Facts\<close>: the
  engine around FAST, the diversity choice, the latent lane. \<open>Liveness\<close>: the lanes read off the traces of both
  engines; a rescue lane with an opportunity is always seated. The greedy loops are total: each round takes
  a candidate out of the pool.

  \<^bold>\<open>Constrained decoding\<close> (\<^verbatim>\<open>llm_extraction/ontology.py\<close>, \<^verbatim>\<open>sidecars/local_extractor/json_mask.py\<close>).
  \<open>Ontology\<close>: relation ids, aliases and the normalization onto them. \<open>Json_Mask\<close>: the tracker, which
  refines the offline parser, the token masks and the processor; a masked predicate is an ontology id. This
  theory joins the two.

  \<^bold>\<open>Not modelled.\<close> Logging; threads and sleeping (operations are the critical sections in program order);
  HTTP clients, model prompts and the repair of responses; the text heuristics that build skeletons, profiles
  and chunks; query understanding, context assembly and answer synthesis; the daemons that call the
  ticket layer; the executors of the adapter's worker and the client of its external service; HTTP handlers, user
  interface, scripts, benchmarks. In the modelled files: \<open>router_enabled\<close>, the reading of the provider file and
  \<open>snapshot_from_registry\<close> of the router; the caches of computed masks; the prose of the ontology's prompt;
  \<open>list_adapters\<close>, timestamps and the test clean-up of the adapter's store and service; the regular expressions of
  \<open>derive_requirements\<close> and of the region classifier; latencies and display fields of the retrieval traces; a
  routing search that raises outside the latent lane's nomination; messages for display. A statement that
  the database refuses is modelled where a key or a reference can be violated, not a lost connection.
\<close>

section \<open>Masked predicates need no repair\<close>

lemma enum_ids_normalize: "e \<in> set enum_ids \<Longrightarrow> snd (normalize_predicate e) = ''enum''"
  using normalize_ontology_id by (auto simp: enum_ids_def)

text \<open>
  C40. The mask and the gate agree: a predicate string that is closed under the decoding mask is
  accepted by the ontology's normalization as an exact id, never through an alias or the last
  resort; as long as it is not closed it can still become one.
\<close>

theorem masked_predicate_needs_no_repair:
  assumes "in_predicate t" "tr_pred_buf t = []" "emits tk steps t = Some u"
  shows "(in_predicate u \<and> (\<exists>e. starts_with (tr_pred_buf u) e \<and> snd (normalize_predicate e) = ''enum'')) \<or>
    (\<exists>pre i rest. map fst steps = pre @ i # rest \<and> closes (tk_texts tk ! i) \<and>
       snd (normalize_predicate (concat (map (\<lambda>i. tk_texts tk ! i) pre))) = ''enum'')"
proof -
  have o: "on_trie (tr_pred_buf t)" unfolding assms(2) by code_simp
  from masked_predicate_run [OF assms(1) o assms(3)] show ?thesis
    unfolding assms(2) append_Nil on_trie_iff using enum_ids_normalize by blast
qed

theorem masked_predicate_needs_no_repair_witness:
  "\<exists>u e. emits demo_tok [(0, demo_logits), (1, demo_logits)] demo_predicate = Some u \<and> starts_with (tr_pred_buf u) e \<and>
    snd (normalize_predicate e) = ''enum''"
proof -
  have p: "in_predicate demo_predicate" "tr_pred_buf demo_predicate = []" by code_simp+
  have "(case emits demo_tok [(0, demo_logits), (1, demo_logits)] demo_predicate of None \<Rightarrow> False | Some u \<Rightarrow> True)"
    and c: "\<not> closes (tk_texts demo_tok ! 0)" "\<not> closes (tk_texts demo_tok ! 1)" by code_simp+
  then obtain u where u: "emits demo_tok [(0, demo_logits), (1, demo_logits)] demo_predicate = Some u"
    by (auto split: option.splits)
  have "\<not> (\<exists>pre i rest. map fst [(0::nat, demo_logits), (1, demo_logits)] = pre @ i # rest \<and> closes (tk_texts demo_tok ! i))"
    using c by (auto simp: Cons_eq_append_conv)
  then have "\<exists>e. starts_with (tr_pred_buf u) e \<and> snd (normalize_predicate e) = ''enum''"
    using masked_predicate_needs_no_repair [OF p u] by blast
  then show ?thesis using u by blast
qed

end
